(* ===== verification/Prelude.thy ===== *)
theory Prelude
  imports Main "HOL-Library.Word" "HOL-Library.Stream"
begin

text \<open>
  Shared vocabulary of the development: bytes and byte buffers, the C memory primitives the
  firmware uses on them, the hardware random number stream, and the theorem collections the
  component theories fill.

  A \<open>uint8_t\<close> is an \<open>8 word\<close>; a \<open>std::string\<close> that carries a BLE frame, a \<open>std::vector<uint8_t>\<close>
  and a fixed \<open>uint8_t[n]\<close> buffer are all lists of bytes (the fixed buffers keep their length,
  which is part of the invariants proved later).
\<close>

unbundle bit_operations_syntax

type_synonym byte = "8 word"
type_synonym u32 = "32 word"

named_theorems layout_simps \<open>constant frames, sizes and offsets of the wire formats\<close>
named_theorems session_simps \<open>projections of the session operations\<close>
named_theorems bridge_simps \<open>projections of the bridge operations\<close>

subsection \<open>Memory primitives\<close>

text \<open>
  \<open>memcmp_eq n p q\<close> is \<open>std::memcmp(p, q, n) == 0\<close>. Every use of the source compares \<open>n\<close> bytes that
  both buffers have. \<open>memcpy_at off src n dst\<close> is \<open>std::memcpy(dst + off, src, n)\<close>, returning the
  destination buffer.
\<close>

definition memcmp_eq :: "nat \<Rightarrow> byte list \<Rightarrow> byte list \<Rightarrow> bool" where
  "memcmp_eq n p q \<longleftrightarrow> take n p = take n q"

definition memcpy_at :: "nat \<Rightarrow> byte list \<Rightarrow> nat \<Rightarrow> byte list \<Rightarrow> byte list" where
  "memcpy_at off src n dst = take off dst @ take n src @ drop (off + n) dst"

lemma memcmp_eq_whole [simp]:
  "length p = n \<Longrightarrow> length q = n \<Longrightarrow> memcmp_eq n p q \<longleftrightarrow> p = q"
  by (simp add: memcmp_eq_def)

lemma length_memcpy_at [simp]:
  "off + n \<le> length dst \<Longrightarrow> n \<le> length src \<Longrightarrow> length (memcpy_at off src n dst) = length dst"
  by (simp add: memcpy_at_def)

lemma take_memcpy_at_0 [simp]:
  "n \<le> length src \<Longrightarrow> take n (memcpy_at 0 src n dst) = take n src"
  by (simp add: memcpy_at_def)

lemma drop_memcpy_at [simp]:
  "off \<le> length dst \<Longrightarrow> length dst = off + n \<Longrightarrow> n \<le> length src \<Longrightarrow>
    drop off (memcpy_at off src n dst) = take n src"
  by (simp add: memcpy_at_def)

lemma take_memcpy_at [simp]:
  "off \<le> length dst \<Longrightarrow> take off (memcpy_at off src n dst) = take off dst"
  by (simp add: memcpy_at_def)

subsection \<open>The hardware random number generator\<close>

text \<open>
  \<open>esp_random()\<close> is hardware. The words it is going to return are a stream, an argument of every
  operation that draws from it; drawing a word returns the rest of the stream.
\<close>

type_synonym rng = "u32 stream"

definition esp_random :: "rng \<Rightarrow> u32 \<times> rng" where
  "esp_random r = (shd r, stl r)"

text \<open>The four bytes of a 32-bit word in memory order; the ESP32 targets are little-endian.\<close>

definition word_bytes :: "u32 \<Rightarrow> byte list" where
  "word_bytes w = [ucast w, ucast (drop_bit 8 w), ucast (drop_bit 16 w), ucast (drop_bit 24 w)]"

lemma length_word_bytes [simp]: "length (word_bytes w) = 4"
  by (simp add: word_bytes_def)

subsection \<open>Lists\<close>

lemma filter_eq_takeWhile_butlast:
  assumes "filter P xs = takeWhile P xs"
  shows "filter P (butlast xs) = takeWhile P (butlast xs)"
proof (cases xs rule: rev_exhaust)
  case Nil
  then show ?thesis by simp
next
  case (snoc ys y)
  have "filter P (ys @ [y]) = takeWhile P (ys @ [y]) \<Longrightarrow> filter P ys = takeWhile P ys"
    by (induction ys) (auto split: if_splits)
  with assms snoc show ?thesis by simp
qed

lemma take_takeWhile: "take n (takeWhile P xs) = takeWhile P (take n xs)"
  by (induction xs arbitrary: n) (auto simp: take_Cons split: nat.splits)

lemma rotate_Suc_update:
  assumes "h < length xs"
  shows "rotate (Suc h) (xs[h := x]) = tl (rotate h xs) @ [x]"
proof -
  have "rotate h (xs[h := x]) = x # tl (rotate h xs)"
    using assms by (simp add: rotate_drop_take Cons_nth_drop_Suc [symmetric] upd_conv_take_nth_drop)
  then show ?thesis by (simp only: rotate_Suc rotate1.simps)
qed

lemma rev_rotate_Suc_update:
  assumes "h < length xs"
  shows "rev (rotate (Suc h) (xs[h := x])) = x # butlast (rev (rotate h xs))"
  unfolding rotate_Suc_update [OF assms] by (simp add: butlast_rev)

end
