(* ===== verification/Lock_Protocol.thy ===== *)
theory Lock_Protocol
  imports Prelude
begin

text \<open>
  The pure command layer of the keypad protocol (\<open>lock_protocol.h\<close>, \<open>lock_protocol.cpp\<close>): it
  classifies the decrypted bytes of a frame. \<open>UnlockMethod\<close> is an enum over \<open>uint8_t\<close> that the
  decoder fills with a \<open>static_cast\<close> of an arbitrary byte, so its model wraps the byte and the
  enumerators are abbreviations.
\<close>

subsection \<open>Enumerations and the decoded command\<close>

datatype unlock_method = UnlockMethod (method_byte: byte)

abbreviation METHOD_UNKNOWN :: unlock_method where "METHOD_UNKNOWN \<equiv> UnlockMethod 0x00"
abbreviation METHOD_PIN :: unlock_method where "METHOD_PIN \<equiv> UnlockMethod 0x04"
abbreviation METHOD_NFC :: unlock_method where "METHOD_NFC \<equiv> UnlockMethod 0x08"
abbreviation METHOD_FINGERPRINT :: unlock_method where "METHOD_FINGERPRINT \<equiv> UnlockMethod 0x0C"
abbreviation METHOD_FACE :: unlock_method where "METHOD_FACE \<equiv> UnlockMethod 0x18"

definition unlock_method_name :: "unlock_method \<Rightarrow> string" where
  "unlock_method_name method =
    (if method = METHOD_FINGERPRINT then ''fingerprint''
     else if method = METHOD_PIN then ''pin''
     else if method = METHOD_NFC then ''nfc''
     else if method = METHOD_FACE then ''face''
     else ''unknown'')"

datatype command_type = CMD_UNKNOWN | CMD_LOCK | CMD_UNLOCK | CMD_STATE_POLL | CMD_DOORBELL

record decoded_command =
  cmd_type :: command_type
  cmd_method :: unlock_method
  credential_index :: int

definition default_command :: decoded_command where
  "default_command =
    \<lparr>cmd_type = CMD_UNKNOWN, cmd_method = METHOD_UNKNOWN, credential_index = -1\<rparr>"

subsection \<open>Wire frames\<close>

definition FRAME_LOCK :: "byte list" where
  "FRAME_LOCK = [0x0F, 0x4E, 0x01, 0x03, 0x00, 0x00, 0x00, 0x00]"

definition FRAME_ACTION :: "byte list" where
  "FRAME_ACTION = [0x0F, 0x4E, 0x01, 0x03]"

definition FRAME_STATE_POLL_PREFIX :: "byte list" where
  "FRAME_STATE_POLL_PREFIX = [0x0F, 0x4F, 0x81]"

definition FRAME_DOORBELL :: "byte list" where
  "FRAME_DOORBELL = [0x01, 0x03]"

definition UNLOCK_METHOD_OFFSET :: nat where "UNLOCK_METHOD_OFFSET = 4"
definition UNLOCK_MARKER_OFFSET :: nat where "UNLOCK_MARKER_OFFSET = 5"
definition UNLOCK_INDEX_OFFSET :: nat where "UNLOCK_INDEX_OFFSET = 6"
definition UNLOCK_MARKER :: byte where "UNLOCK_MARKER = 0x80"
definition UNLOCK_INDEX_BASE :: byte where "UNLOCK_INDEX_BASE = 0x0A"

lemmas protocol_consts [layout_simps] =
  FRAME_LOCK_def FRAME_ACTION_def FRAME_STATE_POLL_PREFIX_def FRAME_DOORBELL_def
  UNLOCK_METHOD_OFFSET_def UNLOCK_MARKER_OFFSET_def UNLOCK_INDEX_OFFSET_def
  UNLOCK_MARKER_def UNLOCK_INDEX_BASE_def

subsection \<open>Decoding\<close>

definition decode_lock_command :: "byte list \<Rightarrow> decoded_command" where
  "decode_lock_command plaintext =
    (let out = default_command; len = length plaintext in
     if len = length FRAME_LOCK \<and> memcmp_eq (length FRAME_LOCK) plaintext FRAME_LOCK
     then out\<lparr>cmd_type := CMD_LOCK\<rparr>
     else if len = 4 \<and>
       memcmp_eq (length FRAME_STATE_POLL_PREFIX) plaintext FRAME_STATE_POLL_PREFIX
     then out\<lparr>cmd_type := CMD_STATE_POLL\<rparr>
     else if len = length FRAME_DOORBELL \<and>
       memcmp_eq (length FRAME_DOORBELL) plaintext FRAME_DOORBELL
     then out\<lparr>cmd_type := CMD_DOORBELL\<rparr>
     else if len \<ge> 8 \<and> memcmp_eq (length FRAME_ACTION) plaintext FRAME_ACTION \<and>
       plaintext ! UNLOCK_MARKER_OFFSET = UNLOCK_MARKER
     then (let idx_byte = plaintext ! UNLOCK_INDEX_OFFSET in
       out\<lparr>cmd_type := CMD_UNLOCK,
           cmd_method := UnlockMethod (plaintext ! UNLOCK_METHOD_OFFSET),
           credential_index :=
             (if idx_byte \<ge> UNLOCK_INDEX_BASE
              then uint idx_byte - uint UNLOCK_INDEX_BASE
              else uint idx_byte)\<rparr>)
     else out)"

text \<open>The frames the keypad sends, as the decoder documents them.\<close>

definition state_poll_frame :: "byte \<Rightarrow> byte list" where
  "state_poll_frame suffix = FRAME_STATE_POLL_PREFIX @ [suffix]"

definition unlock_frame :: "byte \<Rightarrow> byte \<Rightarrow> byte list \<Rightarrow> byte list" where
  "unlock_frame method idx rest = FRAME_ACTION @ [method, UNLOCK_MARKER, idx] @ rest"

subsection \<open>What the decoder recognises\<close>

lemma take_eq_prefix: "take n xs = ys \<and> length ys = n \<longleftrightarrow> (\<exists>zs. xs = ys @ zs) \<and> length ys = n"
  by (metis append_eq_conv_conj append_take_drop_id)

lemma memcmp_prefix:
  "length ys = n \<Longrightarrow> memcmp_eq n xs ys \<longleftrightarrow> (\<exists>zs. xs = ys @ zs)"
  using take_eq_prefix [of n xs ys] by (auto simp: memcmp_eq_def)

lemma is_state_poll_frame:
  "length pt = 4 \<and> memcmp_eq (length FRAME_STATE_POLL_PREFIX) pt FRAME_STATE_POLL_PREFIX \<longleftrightarrow>
    (\<exists>suffix. pt = state_poll_frame suffix)"
  by (auto simp: memcmp_prefix state_poll_frame_def FRAME_STATE_POLL_PREFIX_def length_Suc_conv
      numeral_eq_Suc)

lemma is_unlock_frame:
  "8 \<le> length pt \<and> memcmp_eq (length FRAME_ACTION) pt FRAME_ACTION \<and>
     pt ! UNLOCK_MARKER_OFFSET = UNLOCK_MARKER \<longleftrightarrow>
   (\<exists>m i rest. rest \<noteq> [] \<and> pt = unlock_frame m i rest)" (is "?lhs \<longleftrightarrow> ?rhs")
proof
  assume l: ?lhs
  then obtain zs where zs: "pt = FRAME_ACTION @ zs" by (auto simp: memcmp_prefix)
  with l obtain m k i rest where "zs = m # k # i # rest" "rest \<noteq> []"
    by (cases zs; cases "tl zs"; cases "tl (tl zs)"; cases "tl (tl (tl zs))")
      (auto simp: FRAME_ACTION_def)
  with zs l have "pt = unlock_frame m i rest"
    by (simp add: unlock_frame_def FRAME_ACTION_def UNLOCK_MARKER_OFFSET_def)
  with \<open>rest \<noteq> []\<close> show ?rhs by blast
next
  assume ?rhs
  then show ?lhs
    by (auto simp: unlock_frame_def memcmp_prefix FRAME_ACTION_def UNLOCK_MARKER_OFFSET_def
        neq_Nil_conv)
qed

lemma frames_disjoint:
  "FRAME_LOCK \<noteq> state_poll_frame b" "FRAME_LOCK \<noteq> FRAME_DOORBELL" "FRAME_LOCK \<noteq> unlock_frame m i rest"
  "state_poll_frame b \<noteq> FRAME_DOORBELL" "state_poll_frame b \<noteq> unlock_frame m i rest"
  "FRAME_DOORBELL \<noteq> unlock_frame m i rest"
  by (simp_all add: protocol_consts state_poll_frame_def unlock_frame_def)

lemma decode_cases:
  "cmd_type (decode_lock_command pt) =
    (if pt = FRAME_LOCK then CMD_LOCK
     else if \<exists>b. pt = state_poll_frame b then CMD_STATE_POLL
     else if pt = FRAME_DOORBELL then CMD_DOORBELL
     else if \<exists>m i rest. rest \<noteq> [] \<and> pt = unlock_frame m i rest then CMD_UNLOCK
     else CMD_UNKNOWN)"
proof -
  have "length pt = length ys \<and> memcmp_eq (length ys) pt ys \<longleftrightarrow> pt = ys" for ys
    by (auto simp: memcmp_eq_def)
  then show ?thesis
    unfolding decode_lock_command_def Let_def is_state_poll_frame is_unlock_frame
    by (auto simp: default_command_def)
qed

text \<open>
  C40. The decoder recognises exactly the documented frames: LOCK is one frame, a state poll is its
  prefix with any suffix byte, the doorbell is one frame, an UNLOCK is an action frame with the
  marker and at least eight bytes, and everything else is unknown.
\<close>

theorem decode_classifies:
  "(cmd_type (decode_lock_command pt) = CMD_LOCK \<longleftrightarrow> pt = FRAME_LOCK) \<and>
   (cmd_type (decode_lock_command pt) = CMD_STATE_POLL \<longleftrightarrow> (\<exists>b. pt = state_poll_frame b)) \<and>
   (cmd_type (decode_lock_command pt) = CMD_DOORBELL \<longleftrightarrow> pt = FRAME_DOORBELL) \<and>
   (cmd_type (decode_lock_command pt) = CMD_UNLOCK \<longleftrightarrow>
     (\<exists>m i rest. rest \<noteq> [] \<and> pt = unlock_frame m i rest))"
  by (auto simp: decode_cases frames_disjoint frames_disjoint [symmetric])

lemma decode_unlock_frame:
  assumes "rest \<noteq> []"
  shows "decode_lock_command (unlock_frame m i rest) =
    \<lparr>cmd_type = CMD_UNLOCK, cmd_method = UnlockMethod m,
     credential_index = (if 0x0A \<le> i then uint i - 10 else uint i)\<rparr>"
proof -
  have "length (unlock_frame m i rest) \<noteq> 4" "length (unlock_frame m i rest) \<noteq> length FRAME_DOORBELL"
    by (simp_all add: unlock_frame_def protocol_consts)
  moreover have "\<not> memcmp_eq (length FRAME_LOCK) (unlock_frame m i rest) FRAME_LOCK"
    by (simp add: memcmp_eq_def unlock_frame_def protocol_consts)
  moreover have "8 \<le> length (unlock_frame m i rest) \<and>
      memcmp_eq (length FRAME_ACTION) (unlock_frame m i rest) FRAME_ACTION \<and>
      unlock_frame m i rest ! UNLOCK_MARKER_OFFSET = UNLOCK_MARKER"
    unfolding is_unlock_frame using assms by blast
  moreover have "unlock_frame m i rest ! UNLOCK_METHOD_OFFSET = m"
      "unlock_frame m i rest ! UNLOCK_INDEX_OFFSET = i"
    by (simp_all add: unlock_frame_def protocol_consts)
  ultimately show ?thesis
    by (simp add: decode_lock_command_def Let_def default_command_def UNLOCK_INDEX_BASE_def)
qed

text \<open>
  The credential index: it is reported exactly for an UNLOCK, where it is the index byte with
  the pairing offset 10 removed, never negative and at most 245; every other command reports -1 and
  the unknown method.
\<close>

theorem decode_credential_index:
  "(cmd_type (decode_lock_command pt) = CMD_UNLOCK \<longrightarrow>
     0 \<le> credential_index (decode_lock_command pt) \<and>
     credential_index (decode_lock_command pt) \<le> 245 \<and>
     (\<exists>m i rest. pt = unlock_frame m i rest \<and> cmd_method (decode_lock_command pt) = UnlockMethod m \<and>
       credential_index (decode_lock_command pt) \<in> {uint i, uint i - 10})) \<and>
   (cmd_type (decode_lock_command pt) \<noteq> CMD_UNLOCK \<longrightarrow>
     credential_index (decode_lock_command pt) = -1 \<and>
     cmd_method (decode_lock_command pt) = METHOD_UNKNOWN)"
proof (cases "cmd_type (decode_lock_command pt) = CMD_UNLOCK")
  case True
  then obtain m i rest where u: "rest \<noteq> []" "pt = unlock_frame m i rest"
    by (auto simp: decode_cases split: if_splits)
  have "0x0A \<le> i \<longleftrightarrow> 10 \<le> uint i" by (simp add: word_le_def)
  moreover have "uint i < 256" using uint_lt2p [of i] by simp
  ultimately show ?thesis
    using True by (auto simp: u decode_unlock_frame)
next
  case False
  then show ?thesis
    by (auto simp: decode_lock_command_def Let_def default_command_def split: if_splits)
qed

theorem decode_credential_index_witness:
  "credential_index (decode_lock_command (unlock_frame 4 0x0B [0])) \<le> 245 \<and>
    credential_index (decode_lock_command FRAME_DOORBELL) = -1"
  using decode_credential_index [of "unlock_frame 4 0x0B [0]"] decode_credential_index [of FRAME_DOORBELL]
  by (simp add: decode_unlock_frame) (simp add: decode_lock_command_def Let_def protocol_consts default_command_def)

end
