(* ===== verification/Replay_Window.thy ===== *)
theory Replay_Window
  imports Lock_Protocol
begin

text \<open>
  One crypto generation of the keypad session: an IV with its anti-replay window
  (\<open>LockSession::CryptoContext\<close>, \<open>ReplayEntry\<close>, \<open>is_replayed_ciphertext_\<close>, \<open>record_ciphertext_\<close>
  of \<open>lock_session.h\<close> and \<open>lock_session.cpp\<close>). The window is a ring buffer of eight slots. The
  locale \<open>replay_window\<close> is the contract the session relies on: a bounded list of the most recent
  entries; its interpretation shows that the ring buffer implements it.
\<close>

definition MAX_PAYLOAD :: nat where "MAX_PAYLOAD = 32"
definition AES_IV_SIZE :: nat where "AES_IV_SIZE = 16"
definition REPLAY_HISTORY_SIZE :: nat where "REPLAY_HISTORY_SIZE = 8"

lemmas window_consts [layout_simps] = MAX_PAYLOAD_def AES_IV_SIZE_def REPLAY_HISTORY_SIZE_def

subsection \<open>The state of a generation\<close>

record replay_entry =
  entry_data :: "byte list"
  entry_length :: nat

definition empty_entry :: replay_entry where
  "empty_entry = \<lparr>entry_data = replicate MAX_PAYLOAD 0, entry_length = 0\<rparr>"

record crypto_context =
  ctx_iv :: "byte list"
  replay_history :: "replay_entry list"
  replay_head :: nat
  late_action_allowed :: bool
  handoff_poll_seen :: bool
  ctx_valid :: bool

definition empty_context :: crypto_context where
  "empty_context =
    \<lparr>ctx_iv = replicate AES_IV_SIZE 0,
     replay_history = replicate REPLAY_HISTORY_SIZE empty_entry,
     replay_head = 0,
     late_action_allowed = False,
     handoff_poll_seen = False,
     ctx_valid = False\<rparr>"

subsection \<open>Operations\<close>

definition is_replayed_ciphertext :: "crypto_context \<Rightarrow> byte list \<Rightarrow> bool" where
  "is_replayed_ciphertext context ciphertext =
    (let len = length ciphertext in
     if len = 0 \<or> len > MAX_PAYLOAD then False
     else list_ex
       (\<lambda>entry. entry_length entry = len \<and> memcmp_eq len (entry_data entry) ciphertext)
       (replay_history context))"

definition record_ciphertext :: "crypto_context \<Rightarrow> byte list \<Rightarrow> crypto_context" where
  "record_ciphertext context ciphertext =
    (let len = length ciphertext in
     if len = 0 \<or> len > MAX_PAYLOAD then context
     else
       let head = replay_head context;
           slot = replay_history context ! head;
           slot' = slot\<lparr>entry_data := memcpy_at 0 ciphertext len (entry_data slot),
                        entry_length := len\<rparr>
       in context\<lparr>replay_history := (replay_history context)[head := slot'],
                  replay_head := (head + 1) mod REPLAY_HISTORY_SIZE\<rparr>)"

subsection \<open>The abstract window\<close>

text \<open>
  The slots from the most recently written one backwards, and the ciphertexts they hold.
\<close>

definition entry_bytes :: "replay_entry \<Rightarrow> byte list" where
  "entry_bytes e = take (entry_length e) (entry_data e)"

definition entry_used :: "replay_entry \<Rightarrow> bool" where
  "entry_used e \<longleftrightarrow> 0 < entry_length e"

definition slots_by_age :: "crypto_context \<Rightarrow> replay_entry list" where
  "slots_by_age c = rev (rotate (replay_head c) (replay_history c))"

definition recent_ciphertexts :: "crypto_context \<Rightarrow> byte list list" where
  "recent_ciphertexts c = map entry_bytes (takeWhile entry_used (slots_by_age c))"

definition entry_ok :: "replay_entry \<Rightarrow> bool" where
  "entry_ok e \<longleftrightarrow> length (entry_data e) = MAX_PAYLOAD \<and> entry_length e \<le> MAX_PAYLOAD"

definition window_ok :: "crypto_context \<Rightarrow> bool" where
  "window_ok c \<longleftrightarrow>
    length (replay_history c) = REPLAY_HISTORY_SIZE \<and>
    replay_head c < REPLAY_HISTORY_SIZE \<and>
    list_all entry_ok (replay_history c) \<and>
    filter entry_used (slots_by_age c) = takeWhile entry_used (slots_by_age c)"

definition storable :: "byte list \<Rightarrow> bool" where
  "storable ct \<longleftrightarrow> ct \<noteq> [] \<and> length ct \<le> MAX_PAYLOAD"

subsection \<open>The contract of a replay window\<close>

locale replay_window =
  fixes seen :: "'c \<Rightarrow> byte list \<Rightarrow> bool"
    and remember :: "'c \<Rightarrow> byte list \<Rightarrow> 'c"
    and recent :: "'c \<Rightarrow> byte list list"
    and invar :: "'c \<Rightarrow> bool"
    and fits :: "byte list \<Rightarrow> bool"
    and capacity :: nat
  assumes seen_iff: "invar c \<Longrightarrow> fits ct \<Longrightarrow> seen c ct \<longleftrightarrow> ct \<in> set (recent c)"
    and recent_remember: "invar c \<Longrightarrow> fits ct \<Longrightarrow>
      recent (remember c ct) = take capacity (ct # recent c)"
    and invar_remember: "invar c \<Longrightarrow> invar (remember c ct)"
    and recent_bound: "invar c \<Longrightarrow> length (recent c) \<le> capacity"
    and capacity_pos: "0 < capacity"
begin

lemma seen_after_remember: "invar c \<Longrightarrow> fits ct \<Longrightarrow> seen (remember c ct) ct"
  using capacity_pos by (cases capacity) (simp_all add: seen_iff recent_remember invar_remember)

lemma invar_fold: "invar c \<Longrightarrow> invar (foldl remember c cts)"
  by (induction cts arbitrary: c) (auto intro: invar_remember)

text \<open>
  Everything remembered is the reversed input on top of what was there before, cut at the
  capacity.
\<close>

lemma recent_fold:
  "invar c \<Longrightarrow> list_all fits cts \<Longrightarrow>
    recent (foldl remember c cts) = take capacity (rev cts @ recent c)"
proof (induction cts arbitrary: c)
  case Nil
  then show ?case by (simp add: recent_bound)
next
  case (Cons ct cts)
  have "rev cts @ take capacity (ct # recent c) =
      take (length cts + capacity) (rev cts @ ct # recent c)"
    by simp
  then have "take capacity (rev cts @ take capacity (ct # recent c)) =
      take capacity (rev cts @ ct # recent c)"
    by (simp only: take_take) simp
  with Cons show ?case by (simp add: recent_remember invar_remember)
qed

text \<open>A ciphertext is recognised as long as fewer than \<open>capacity\<close> others were stored after it.\<close>

lemma seen_within_capacity:
  assumes "invar c" "fits ct" "list_all fits cts" "length cts < capacity"
  shows "seen (foldl remember (remember c ct) cts) ct"
proof -
  have "recent (foldl remember (remember c ct) cts) =
      take capacity (rev cts @ take capacity (ct # recent c))"
    using assms by (simp add: recent_fold recent_remember invar_remember)
  moreover have "ct \<in> set (take capacity (rev cts @ take capacity (ct # recent c)))"
    using assms(4) by (cases capacity) (auto simp: take_Cons' split: if_splits)
  ultimately show ?thesis
    using assms by (simp add: seen_iff invar_fold invar_remember)
qed

text \<open>Once \<open>capacity\<close> others were stored after it, it is forgotten.\<close>

lemma forgotten_after_capacity:
  assumes "invar c" "fits ct" "list_all fits cts" "length cts = capacity" "ct \<notin> set cts"
  shows "\<not> seen (foldl remember c cts) ct"
  using assms by (simp add: seen_iff invar_fold recent_fold)

end

subsection \<open>The ring buffer implements the contract\<close>

lemma set_slots_by_age [simp]: "set (slots_by_age c) = set (replay_history c)"
  by (simp add: slots_by_age_def)

lemma length_slots_by_age [simp]: "length (slots_by_age c) = length (replay_history c)"
  by (simp add: slots_by_age_def)

lemma entry_bytes_empty [simp]: "\<not> entry_used empty_entry"
  by (simp add: entry_used_def empty_entry_def)

lemma entry_ok_empty [simp]: "entry_ok empty_entry"
  by (simp add: entry_ok_def empty_entry_def)

lemma window_ok_empty [simp]: "window_ok empty_context"
  by (simp add: window_ok_def empty_context_def slots_by_age_def REPLAY_HISTORY_SIZE_def
      rotate_map list_all_iff)

lemma recent_empty [simp]: "recent_ciphertexts empty_context = []"
  by (simp add: recent_ciphertexts_def empty_context_def slots_by_age_def REPLAY_HISTORY_SIZE_def)

lemma window_okD:
  assumes "window_ok c"
  shows "length (replay_history c) = REPLAY_HISTORY_SIZE" "replay_head c < REPLAY_HISTORY_SIZE"
    "\<And>e. e \<in> set (replay_history c) \<Longrightarrow> entry_ok e"
    "filter entry_used (slots_by_age c) = takeWhile entry_used (slots_by_age c)"
  using assms by (auto simp: window_ok_def list_all_iff)

lemma slots_by_age_record:
  assumes "window_ok c" "storable ct"
  shows "\<exists>e. slots_by_age (record_ciphertext c ct) = e # butlast (slots_by_age c) \<and>
    entry_bytes e = ct \<and> entry_used e \<and> entry_ok e"
proof -
  let ?h = "replay_head c" and ?xs = "replay_history c"
  let ?slot = "?xs ! ?h"
  let ?e = "?slot\<lparr>entry_data := memcpy_at 0 ct (length ct) (entry_data ?slot),
    entry_length := length ct\<rparr>"
  have h: "?h < length ?xs" and len: "length ?xs = REPLAY_HISTORY_SIZE"
    using window_okD [OF assms(1)] by auto
  have slot: "entry_ok ?slot"
    using h by (auto intro: window_okD(3) [OF assms(1)])
  have "rotate ((?h + 1) mod REPLAY_HISTORY_SIZE) (?xs[?h := ?e]) = rotate (Suc ?h) (?xs[?h := ?e])"
    using len by (metis Suc_eq_plus1 length_list_update rotate_conv_mod)
  then have "slots_by_age (record_ciphertext c ct) = ?e # butlast (slots_by_age c)"
    using assms(2) rev_rotate_Suc_update [OF h, of ?e]
    by (auto simp: slots_by_age_def record_ciphertext_def Let_def storable_def)
  moreover have "entry_bytes ?e = ct" "entry_used ?e" "entry_ok ?e"
    using slot assms(2) by (auto simp: entry_bytes_def entry_used_def entry_ok_def storable_def)
  ultimately show ?thesis by blast
qed

lemma recent_record:
  assumes "window_ok c" "storable ct"
  shows "recent_ciphertexts (record_ciphertext c ct) =
    take REPLAY_HISTORY_SIZE (ct # recent_ciphertexts c)"
proof -
  obtain e where e: "slots_by_age (record_ciphertext c ct) = e # butlast (slots_by_age c)"
      "entry_bytes e = ct" "entry_used e"
    using slots_by_age_record [OF assms] by blast
  have "length (slots_by_age c) = Suc 7"
    using window_okD(1) [OF assms(1)] by (simp add: REPLAY_HISTORY_SIZE_def)
  then show ?thesis
    by (simp add: e recent_ciphertexts_def REPLAY_HISTORY_SIZE_def take_map take_takeWhile
        butlast_conv_take)
qed

lemma window_ok_record:
  assumes "window_ok c"
  shows "window_ok (record_ciphertext c ct)"
proof (cases "storable ct")
  case True
  obtain e where e: "slots_by_age (record_ciphertext c ct) = e # butlast (slots_by_age c)"
      "entry_used e" "entry_ok e"
    using slots_by_age_record [OF assms True] by blast
  have ne: "slots_by_age c \<noteq> []"
    using window_okD(1) [OF assms] by (auto simp: REPLAY_HISTORY_SIZE_def dest: arg_cong [of _ _ length])
  have len: "length (replay_history (record_ciphertext c ct)) = REPLAY_HISTORY_SIZE"
    using window_okD(1) [OF assms] by (simp add: record_ciphertext_def Let_def)
  have head: "replay_head (record_ciphertext c ct) < REPLAY_HISTORY_SIZE"
    using window_okD(2) [OF assms] by (simp add: record_ciphertext_def Let_def REPLAY_HISTORY_SIZE_def)
  have "set (replay_history (record_ciphertext c ct)) = insert e (set (butlast (slots_by_age c)))"
    using e(1) by (metis list.simps(15) set_slots_by_age)
  then have all: "list_all entry_ok (replay_history (record_ciphertext c ct))"
    using e(3) window_okD(3) [OF assms]
    by (auto simp: list_all_iff dest!: in_set_butlastD)
  have "filter entry_used (butlast (slots_by_age c)) = takeWhile entry_used (butlast (slots_by_age c))"
    by (rule filter_eq_takeWhile_butlast [OF window_okD(4) [OF assms]])
  with e len head all show ?thesis by (simp add: window_ok_def)
next
  case False
  then show ?thesis using assms
    by (auto simp: record_ciphertext_def storable_def Let_def)
qed

lemma replayed_iff_recent:
  assumes "window_ok c" "storable ct"
  shows "is_replayed_ciphertext c ct \<longleftrightarrow> ct \<in> set (recent_ciphertexts c)"
proof -
  have "set (takeWhile entry_used (slots_by_age c)) = {e \<in> set (replay_history c). entry_used e}"
    using window_okD(4) [OF assms(1)] by (metis set_filter set_slots_by_age)
  moreover have "entry_length e = length ct \<and> memcmp_eq (length ct) (entry_data e) ct \<longleftrightarrow>
      entry_used e \<and> entry_bytes e = ct" if "e \<in> set (replay_history c)" for e
    using window_okD(3) [OF assms(1) that] assms(2)
    by (auto simp: entry_ok_def entry_used_def entry_bytes_def memcmp_eq_def storable_def)
  ultimately show ?thesis
    using assms(2)
    by (auto simp: is_replayed_ciphertext_def recent_ciphertexts_def storable_def list_ex_iff Let_def)
qed

lemma recent_length: "window_ok c \<Longrightarrow> length (recent_ciphertexts c) \<le> REPLAY_HISTORY_SIZE"
  using window_okD(1) [of c] length_takeWhile_le [of entry_used "slots_by_age c"]
  by (simp add: recent_ciphertexts_def)

lemma recent_storable:
  assumes "window_ok c" "ct \<in> set (recent_ciphertexts c)"
  shows "0 < length ct \<and> length ct \<le> MAX_PAYLOAD"
proof -
  obtain e where e: "e \<in> set (slots_by_age c)" "entry_used e" "ct = entry_bytes e"
    using assms(2) by (auto simp: recent_ciphertexts_def dest: set_takeWhileD)
  then have "entry_ok e" using window_okD(3) [OF assms(1)] by simp
  with e show ?thesis by (simp add: entry_ok_def entry_used_def entry_bytes_def)
qed

interpretation rw: replay_window is_replayed_ciphertext record_ciphertext recent_ciphertexts
  window_ok storable REPLAY_HISTORY_SIZE
  by unfold_locales
    (simp_all add: replayed_iff_recent recent_record window_ok_record recent_length,
      simp add: REPLAY_HISTORY_SIZE_def)

end
