(* ===== verification/Lock_Session.thy ===== *)
theory Lock_Session
  imports Replay_Window
begin

text \<open>
  The encrypted-session state machine of the emulated lock (\<open>lock_session.h\<close>,
  \<open>lock_session.cpp\<close>): slot learning, IV negotiation, frame validation, decryption, anti-replay and
  the hand-off between crypto generations. \<open>process_frame\<close> follows the source's early returns in
  order; its tail is split at the points where the source's control flow is straight-line.

  Log output is not modelled. The reference \<open>CryptoContext &context\<close> of the source, which aliases
  one of three members, is a \<open>generation\<close> selector with \<open>context_of\<close> and \<open>update_context\<close>.
\<close>

definition HEADER_LEN :: nat where "HEADER_LEN = 4"
definition MAX_PACKET :: nat where "MAX_PACKET = HEADER_LEN + MAX_PAYLOAD"
definition PROTOCOL_MAGIC :: byte where "PROTOCOL_MAGIC = 0x57"
definition VISION_KEY_SLOT :: byte where "VISION_KEY_SLOT = 0xC6"
definition SESSION_IV_REQ_MIN :: nat where "SESSION_IV_REQ_MIN = 8"
definition IV_RESPONSE_HEADER :: nat where "IV_RESPONSE_HEADER = 4"
definition PSA_KEY_ID_NULL :: u32 where "PSA_KEY_ID_NULL = 0"

lemmas session_consts [layout_simps] =
  HEADER_LEN_def MAX_PACKET_def PROTOCOL_MAGIC_def VISION_KEY_SLOT_def SESSION_IV_REQ_MIN_def
  IV_RESPONSE_HEADER_def PSA_KEY_ID_NULL_def

text \<open>
  The AES-CTR primitive the session links against: key handle, IV and input to the output, \<open>None\<close>
  when the operation fails.
\<close>

type_synonym aes_ctr = "u32 \<Rightarrow> byte list \<Rightarrow> byte list \<Rightarrow> byte list option"

subsection \<open>State\<close>

record frame_header =
  hdr_key_id :: byte
  hdr_seq_a :: byte
  hdr_seq_b :: byte

definition empty_header :: frame_header where
  "empty_header = \<lparr>hdr_key_id = 0, hdr_seq_a = 0, hdr_seq_b = 0\<rparr>"

definition frame_header_of :: "byte list \<Rightarrow> frame_header" where
  "frame_header_of frame =
    \<lparr>hdr_key_id = frame ! 1, hdr_seq_a = frame ! 2, hdr_seq_b = frame ! 3\<rparr>"

datatype action = ACTION_NONE | SEND_IV | COMMAND

record lock_session =
  aes_key :: u32
  slot_id :: byte
  active :: crypto_context
  pending :: crypto_context
  retired :: crypto_context
  iv_response :: "byte list"
  response_iv :: "byte list"
  response_iv_valid :: bool
  header :: frame_header
  command :: decoded_command
  plaintext_buf :: "byte list"
  plaintext_size :: nat

definition initial_session :: lock_session where
  "initial_session =
    \<lparr>aes_key = PSA_KEY_ID_NULL,
     slot_id = 0x00,
     active = empty_context,
     pending = empty_context,
     retired = empty_context,
     iv_response = [0x01, 0x00, 0x00, 0x00] @ replicate 16 0,
     response_iv = replicate AES_IV_SIZE 0,
     response_iv_valid = False,
     header = empty_header,
     command = default_command,
     plaintext_buf = replicate MAX_PAYLOAD 0,
     plaintext_size = 0\<rparr>"

text \<open>The accessor pair \<open>plaintext()\<close>, \<open>plaintext_size()\<close>: the bytes a caller may read.\<close>

definition session_plaintext :: "lock_session \<Rightarrow> byte list" where
  "session_plaintext s = take (plaintext_size s) (plaintext_buf s)"

subsection \<open>Resets\<close>

definition set_aes_key :: "u32 \<Rightarrow> lock_session \<Rightarrow> lock_session" where
  "set_aes_key key s = s\<lparr>aes_key := key\<rparr>"

definition forget_slot :: "lock_session \<Rightarrow> lock_session" where
  "forget_slot s = s\<lparr>slot_id := 0x00\<rparr>"

definition clear_transient :: "lock_session \<Rightarrow> lock_session" where
  "clear_transient s =
    s\<lparr>plaintext_size := 0,
      header := empty_header,
      command := default_command,
      response_iv_valid := False\<rparr>"

definition reset_transport :: "lock_session \<Rightarrow> lock_session" where
  "reset_transport s =
    (let s1 = clear_transient s
     in s1\<lparr>retired := empty_context,
          active := (active s1)\<lparr>late_action_allowed := False, handoff_poll_seen := False\<rparr>\<rparr>)"

definition reset_session :: "lock_session \<Rightarrow> lock_session" where
  "reset_session s =
    reset_transport
      (s\<lparr>active := empty_context, pending := empty_context, retired := empty_context\<rparr>)"

subsection \<open>IV negotiation\<close>

definition is_iv_request :: "byte list \<Rightarrow> bool" where
  "is_iv_request frame \<longleftrightarrow>
    length frame \<ge> SESSION_IV_REQ_MIN \<and>
    frame ! 0 = PROTOCOL_MAGIC \<and>
    frame ! 1 = 0x00 \<and>
    frame ! 2 = 0x00 \<and>
    frame ! 3 = 0x00 \<and>
    frame ! 4 = 0x0F \<and>
    frame ! 5 = 0x21 \<and>
    frame ! 6 = 0x03"

text \<open>
  The lambda \<open>fill_iv\<close>: four random words copied into the IV at offsets 0, 4, 8 and 12. The
  recursion is the \<open>for\<close> loop with its offset \<open>i\<close>; \<open>n\<close> iterations remain.
\<close>

fun fill_iv_loop :: "nat \<Rightarrow> nat \<Rightarrow> byte list \<Rightarrow> rng \<Rightarrow> byte list \<times> rng" where
  "fill_iv_loop 0 i iv r = (iv, r)"
| "fill_iv_loop (Suc n) i iv r =
    (let (value, r') = esp_random r
     in fill_iv_loop n (i + 4) (memcpy_at i (word_bytes value) 4 iv) r')"

definition fill_iv :: "byte list \<Rightarrow> rng \<Rightarrow> byte list \<times> rng" where
  "fill_iv iv r = fill_iv_loop (AES_IV_SIZE div 4) 0 iv r"

definition same_seq :: "byte list \<Rightarrow> byte list \<Rightarrow> bool" where
  "same_seq iv iv' \<longleftrightarrow> iv ! 0 = iv' ! 0 \<and> iv ! 1 = iv' ! 1"

text \<open>
  The retry loop \<open>while (active_.valid && same seq && retries++ < 4) fill_iv()\<close>: the counter bounds
  it, so the recursion is on the retries left (\<open>4\<close> at the start).
\<close>

fun retry_iv :: "nat \<Rightarrow> crypto_context \<Rightarrow> byte list \<Rightarrow> rng \<Rightarrow> byte list \<times> rng" where
  "retry_iv 0 act iv r = (iv, r)"
| "retry_iv (Suc n) act iv r =
    (if ctx_valid act \<and> same_seq iv (ctx_iv act)
     then let (iv', r') = fill_iv iv r in retry_iv n act iv' r'
     else (iv, r))"

definition fresh_iv :: "crypto_context \<Rightarrow> byte list \<Rightarrow> rng \<Rightarrow> byte list \<times> rng" where
  "fresh_iv act iv r =
    (let (iv1, r1) = fill_iv iv r;
         (iv2, r2) = retry_iv 4 act iv1 r1
     in if ctx_valid act \<and> same_seq iv2 (ctx_iv act)
        then (iv2[1 := (iv2 ! 1) XOR 0x01], r2)
        else (iv2, r2))"

definition publish_iv :: "byte list \<Rightarrow> byte list \<Rightarrow> byte list" where
  "publish_iv iv response = memcpy_at IV_RESPONSE_HEADER iv AES_IV_SIZE response"

definition ensure_pending_iv :: "lock_session \<Rightarrow> rng \<Rightarrow> lock_session \<times> rng" where
  "ensure_pending_iv s r =
    (if ctx_valid (pending s)
     then (s\<lparr>iv_response := publish_iv (ctx_iv (pending s)) (iv_response s)\<rparr>, r)
     else
       let s1 = s\<lparr>retired := empty_context\<rparr>;
           s2 = (if ctx_valid (active s1) \<and> slot_id s1 = VISION_KEY_SLOT
                 then s1\<lparr>active := (active s1)\<lparr>late_action_allowed := True,
                                              handoff_poll_seen := False\<rparr>\<rparr>
                 else if ctx_valid (active s1)
                 then s1\<lparr>active := (active s1)\<lparr>late_action_allowed := False,
                                              handoff_poll_seen := False\<rparr>\<rparr>
                 else s1);
           (iv, r') = fresh_iv (active s2) (ctx_iv empty_context) r
       in (s2\<lparr>pending := empty_context\<lparr>ctx_iv := iv, ctx_valid := True\<rparr>,
              iv_response := publish_iv iv (iv_response s2)\<rparr>, r'))"

definition process_iv_request :: "byte list \<Rightarrow> lock_session \<Rightarrow> rng \<Rightarrow> lock_session \<times> rng" where
  "process_iv_request frame s r =
    (let requested_slot = frame ! 7;
         s1 = (if requested_slot \<noteq> slot_id s
               then s\<lparr>active := empty_context, pending := empty_context,
                      retired := empty_context, slot_id := requested_slot\<rparr>
               else s)
     in ensure_pending_iv s1 r)"

subsection \<open>Generation selection\<close>

datatype generation = GEN_PENDING | GEN_ACTIVE | GEN_RETIRED

fun context_of :: "generation \<Rightarrow> lock_session \<Rightarrow> crypto_context" where
  "context_of GEN_PENDING s = pending s"
| "context_of GEN_ACTIVE s = active s"
| "context_of GEN_RETIRED s = retired s"

fun update_context ::
  "generation \<Rightarrow> (crypto_context \<Rightarrow> crypto_context) \<Rightarrow> lock_session \<Rightarrow> lock_session" where
  "update_context GEN_PENDING f s = s\<lparr>pending := f (pending s)\<rparr>"
| "update_context GEN_ACTIVE f s = s\<lparr>active := f (active s)\<rparr>"
| "update_context GEN_RETIRED f s = s\<lparr>retired := f (retired s)\<rparr>"

definition seq_matches :: "crypto_context \<Rightarrow> frame_header \<Rightarrow> bool" where
  "seq_matches context h \<longleftrightarrow>
    ctx_valid context \<and> hdr_seq_a h = ctx_iv context ! 0 \<and> hdr_seq_b h = ctx_iv context ! 1"

record frame_uses =
  uses_pending :: bool
  uses_active :: bool
  uses_retired :: bool

definition frame_uses_of :: "lock_session \<Rightarrow> frame_uses" where
  "frame_uses_of s =
    \<lparr>uses_pending = seq_matches (pending s) (header s),
     uses_active = seq_matches (active s) (header s),
     uses_retired = seq_matches (retired s) (header s)\<rparr>"

definition selected_generation :: "frame_uses \<Rightarrow> generation" where
  "selected_generation u =
    (if uses_pending u then GEN_PENDING else if uses_active u then GEN_ACTIVE else GEN_RETIRED)"

text \<open>A frame of the current generation ends the hand-off from the predecessor.\<close>

definition close_handoff :: "frame_uses \<Rightarrow> lock_session \<Rightarrow> lock_session" where
  "close_handoff u s =
    (if uses_active u \<and> ctx_valid (retired s) then s\<lparr>retired := empty_context\<rparr> else s)"

text \<open>\<open>if (uses_retired) this->retired_ = CryptoContext{};\<close> precedes every late drop.\<close>

definition drop_retired :: "frame_uses \<Rightarrow> lock_session \<Rightarrow> lock_session" where
  "drop_retired u s = (if uses_retired u then s\<lparr>retired := empty_context\<rparr> else s)"

subsection \<open>Admission of a decrypted frame\<close>

definition is_known_method :: "unlock_method \<Rightarrow> bool" where
  "is_known_method m \<longleftrightarrow>
    m = METHOD_PIN \<or> m = METHOD_NFC \<or> m = METHOD_FINGERPRINT \<or> m = METHOD_FACE"

definition is_fast_unlock_action :: "decoded_command \<Rightarrow> bool" where
  "is_fast_unlock_action cmd \<longleftrightarrow> cmd_type cmd = CMD_UNLOCK \<and> is_known_method (cmd_method cmd)"

text \<open>The poll budget: a second poll under the superseded active IV closes the allowance.\<close>

definition track_handoff_poll :: "frame_uses \<Rightarrow> lock_session \<Rightarrow> lock_session" where
  "track_handoff_poll u s =
    (let g = selected_generation u in
     if uses_active u \<and> ctx_valid (pending s) \<and> cmd_type (command s) = CMD_STATE_POLL \<and>
        late_action_allowed (context_of g s)
     then if handoff_poll_seen (context_of g s)
          then update_context g (\<lambda>c. c\<lparr>late_action_allowed := False\<rparr>) s
          else update_context g (\<lambda>c. c\<lparr>handoff_poll_seen := True\<rparr>) s
     else s)"

definition expose_command :: "frame_uses \<Rightarrow> byte list \<Rightarrow> lock_session \<Rightarrow> lock_session" where
  "expose_command u plaintext s =
    s\<lparr>plaintext_buf := memcpy_at 0 plaintext (length plaintext) (plaintext_buf s),
      plaintext_size := length plaintext,
      response_iv := ctx_iv (context_of (selected_generation u) s),
      response_iv_valid := True\<rparr>"

definition commit_generation :: "frame_uses \<Rightarrow> lock_session \<Rightarrow> lock_session" where
  "commit_generation u s =
    (if uses_pending u then
       let retain_predecessor = (cmd_type (command s) = CMD_STATE_POLL \<and> ctx_valid (active s) \<and>
             late_action_allowed (active s));
           s1 = s\<lparr>retired := (if retain_predecessor then active s else empty_context)\<rparr>;
           s2 = s1\<lparr>active := (pending s1)\<lparr>late_action_allowed := False,
                                          handoff_poll_seen := False\<rparr>\<rparr>
       in s2\<lparr>pending := empty_context\<rparr>
     else if uses_retired u then s\<lparr>retired := empty_context\<rparr>
     else s)"

text \<open>The replay filter for state-changing commands, then the commit.\<close>

definition admit_command ::
  "frame_uses \<Rightarrow> byte list \<Rightarrow> bool \<Rightarrow> bool \<Rightarrow> byte list \<Rightarrow> lock_session \<Rightarrow> action \<times> lock_session" where
  "admit_command u ciphertext ciphertext_seen uses_predecessor plaintext s =
    (let g = selected_generation u;
         finish = (\<lambda>t. (COMMAND, commit_generation u (expose_command u plaintext t)))
     in if cmd_type (command s) = CMD_LOCK \<or> cmd_type (command s) = CMD_UNLOCK
        then if ciphertext_seen then (ACTION_NONE, drop_retired u s)
             else
               let s1 = update_context g (\<lambda>c. record_ciphertext c ciphertext) s;
                   s2 = (if uses_predecessor
                         then update_context g (\<lambda>c. c\<lparr>late_action_allowed := False\<rparr>) s1
                         else s1)
               in finish s2
        else finish s)"

text \<open>
  From the point where the generation is chosen: length check, replay lookup, decryption, decoding,
  the predecessor rules, the replay filter.
\<close>

definition process_payload ::
  "aes_ctr \<Rightarrow> frame_uses \<Rightarrow> byte list \<Rightarrow> lock_session \<Rightarrow> action \<times> lock_session" where
  "process_payload xc u ciphertext s =
    (let g = selected_generation u; ct_len = length ciphertext in
     if ct_len > MAX_PAYLOAD then (ACTION_NONE, drop_retired u s)
     else
       let ciphertext_seen = is_replayed_ciphertext (context_of g s) ciphertext in
       case xc (aes_key s) (ctx_iv (context_of g s)) ciphertext of
         None \<Rightarrow> (ACTION_NONE, drop_retired u s)
       | Some plaintext \<Rightarrow>
           let s1 = s\<lparr>command := decode_lock_command plaintext\<rparr>;
               uses_predecessor = (uses_retired u \<or> (uses_active u \<and> ctx_valid (pending s1)));
               s2 = track_handoff_poll u s1
           in if uses_predecessor \<and> cmd_type (command s2) \<noteq> CMD_STATE_POLL
              then
                let accept_late_unlock = (is_fast_unlock_action (command s2) \<and>
                      late_action_allowed (context_of g s2));
                    s3 = update_context g (\<lambda>c. c\<lparr>late_action_allowed := False\<rparr>) s2
                in if \<not> accept_late_unlock
                   then (ACTION_NONE, drop_retired u (s3\<lparr>command := default_command\<rparr>))
                   else admit_command u ciphertext ciphertext_seen uses_predecessor plaintext s3
              else admit_command u ciphertext ciphertext_seen uses_predecessor plaintext s2)"

definition process_frame ::
  "aes_ctr \<Rightarrow> byte list \<Rightarrow> lock_session \<Rightarrow> rng \<Rightarrow> action \<times> lock_session \<times> rng" where
  "process_frame xc frame s0 r =
    (let s = clear_transient s0 in
     if is_iv_request frame
     then let (s', r') = process_iv_request frame s r in (SEND_IV, s', r')
     else if length frame \<le> HEADER_LEN \<or> frame ! 0 \<noteq> PROTOCOL_MAGIC
     then (ACTION_NONE, s, r)
     else
       let s1 = s\<lparr>header := frame_header_of frame\<rparr>
       in if hdr_key_id (header s1) \<noteq> slot_id s1 then (ACTION_NONE, s1, r)
          else if \<not> ctx_valid (active s1) \<and> \<not> ctx_valid (pending s1) then (ACTION_NONE, s1, r)
          else
            let u = frame_uses_of s1 in
            if \<not> uses_pending u \<and> \<not> uses_active u \<and> \<not> uses_retired u
            then (ACTION_NONE, s1, r)
            else
              let (a, s2) = process_payload xc u (drop HEADER_LEN frame) (close_handoff u s1)
              in (a, s2, r))"

subsection \<open>Responses\<close>

text \<open>
  \<open>encrypt_response\<close> returns the packet; the source's return value 0 is \<open>None\<close>, otherwise it is the
  length of the packet.
\<close>

definition encrypt_response ::
  "aes_ctr \<Rightarrow> frame_header \<Rightarrow> byte list \<Rightarrow> lock_session \<Rightarrow> byte list option" where
  "encrypt_response xc h plaintext s =
    (if length plaintext > MAX_PAYLOAD then None
     else if \<not> response_iv_valid s \<or> hdr_seq_a h \<noteq> response_iv s ! 0 \<or>
       hdr_seq_b h \<noteq> response_iv s ! 1 then None
     else
       case xc (aes_key s) (response_iv s) plaintext of
         None \<Rightarrow> None
       | Some ciphertext \<Rightarrow> Some ([0x01, hdr_key_id h, hdr_seq_a h, hdr_seq_b h] @ ciphertext))"

end
