(* ===== verification/Session_Invariant.thy ===== *)
theory Session_Invariant
  imports Lock_Session
begin

text \<open>
  The structural invariant of the session and its preservation by every public method of
  \<open>LockSession\<close>: buffer sizes and the ring buffers are well formed, valid generations are
  distinguishable by the two sequence bytes on the wire, a pending and a retired generation never
  coexist, and the Fast Unlock allowance exists only on the Vision slot during a hand-off.
\<close>

subsection \<open>The invariant\<close>

definition context_wf :: "crypto_context \<Rightarrow> bool" where
  "context_wf c \<longleftrightarrow> length (ctx_iv c) = AES_IV_SIZE \<and> window_ok c"

definition session_wf :: "lock_session \<Rightarrow> bool" where
  "session_wf s \<longleftrightarrow>
    context_wf (active s) \<and> context_wf (pending s) \<and> context_wf (retired s) \<and>
    length (iv_response s) = 20 \<and>
    take IV_RESPONSE_HEADER (iv_response s) = [0x01, 0x00, 0x00, 0x00] \<and>
    length (response_iv s) = AES_IV_SIZE"

definition generations_ok :: "lock_session \<Rightarrow> bool" where
  "generations_ok s \<longleftrightarrow>
    \<not> (ctx_valid (pending s) \<and> ctx_valid (retired s)) \<and>
    (ctx_valid (pending s) \<longrightarrow> ctx_valid (active s) \<longrightarrow>
      \<not> same_seq (ctx_iv (pending s)) (ctx_iv (active s))) \<and>
    (ctx_valid (retired s) \<longrightarrow>
      ctx_valid (active s) \<and> \<not> same_seq (ctx_iv (active s)) (ctx_iv (retired s)) \<and>
      slot_id s = VISION_KEY_SLOT) \<and>
    (late_action_allowed (active s) \<longrightarrow>
      ctx_valid (active s) \<and> ctx_valid (pending s) \<and> slot_id s = VISION_KEY_SLOT) \<and>
    \<not> late_action_allowed (pending s) \<and>
    (ctx_valid (pending s) \<longrightarrow> drop IV_RESPONSE_HEADER (iv_response s) = ctx_iv (pending s))"

definition session_inv :: "lock_session \<Rightarrow> bool" where
  "session_inv s \<longleftrightarrow> session_wf s \<and> generations_ok s"

lemmas session_inv_defs = session_inv_def session_wf_def generations_ok_def

lemma same_seq_sym: "same_seq a b \<longleftrightarrow> same_seq b a"
  by (auto simp: same_seq_def)

subsection \<open>Contexts\<close>

lemma empty_context_fields [simp]:
  "ctx_valid empty_context = False" "late_action_allowed empty_context = False"
  "handoff_poll_seen empty_context = False" "length (ctx_iv empty_context) = AES_IV_SIZE"
  by (simp_all add: empty_context_def)

lemma context_wf_empty [simp]: "context_wf empty_context"
  by (simp add: context_wf_def)

lemma window_ok_update [simp]:
  "window_ok (c\<lparr>late_action_allowed := a\<rparr>) = window_ok c"
  "window_ok (c\<lparr>handoff_poll_seen := b\<rparr>) = window_ok c"
  "window_ok (c\<lparr>ctx_iv := iv\<rparr>) = window_ok c"
  "window_ok (c\<lparr>ctx_valid := v\<rparr>) = window_ok c"
  by (simp_all add: window_ok_def slots_by_age_def)

lemma context_wf_update [simp]:
  "context_wf (c\<lparr>late_action_allowed := a\<rparr>) = context_wf c"
  "context_wf (c\<lparr>handoff_poll_seen := b\<rparr>) = context_wf c"
  "context_wf (c\<lparr>ctx_valid := v\<rparr>) = context_wf c"
  by (simp_all add: context_wf_def)

lemma record_ciphertext_fields [simp]:
  "ctx_iv (record_ciphertext c ct) = ctx_iv c"
  "ctx_valid (record_ciphertext c ct) = ctx_valid c"
  "late_action_allowed (record_ciphertext c ct) = late_action_allowed c"
  "handoff_poll_seen (record_ciphertext c ct) = handoff_poll_seen c"
  by (simp_all add: record_ciphertext_def Let_def)

lemma context_wf_record [simp]: "context_wf c \<Longrightarrow> context_wf (record_ciphertext c ct)"
  by (simp add: context_wf_def window_ok_record)

subsection \<open>Fresh IVs\<close>

lemma length_fill_iv_loop:
  "i + 4 * n \<le> length iv \<Longrightarrow> length (fst (fill_iv_loop n i iv r)) = length iv"
  by (induction n arbitrary: i iv r) (simp_all add: esp_random_def)

lemma length_fill_iv [simp]: "length iv = AES_IV_SIZE \<Longrightarrow> length (fst (fill_iv iv r)) = AES_IV_SIZE"
  by (simp add: fill_iv_def length_fill_iv_loop AES_IV_SIZE_def)

lemma length_retry_iv [simp]:
  "length iv = AES_IV_SIZE \<Longrightarrow> length (fst (retry_iv n act iv r)) = AES_IV_SIZE"
  by (induction n arbitrary: iv r) (simp_all add: case_prod_beta)

lemma length_fresh_iv [simp]:
  "length iv = AES_IV_SIZE \<Longrightarrow> length (fst (fresh_iv act iv r)) = AES_IV_SIZE"
  by (simp add: fresh_iv_def case_prod_beta)

lemma xor_1_neq: "(x :: byte) XOR 0x01 \<noteq> x"
proof
  assume "x XOR 0x01 = x"
  then have "bit (x XOR 0x01) 0 = bit x 0" by simp
  then show False by (simp add: bit_simps)
qed

text \<open>Whatever the random generator returns, the pending IV is distinguishable from the active one.\<close>

lemma fresh_iv_distinct:
  assumes "length iv = AES_IV_SIZE" "ctx_valid act"
  shows "\<not> same_seq (fst (fresh_iv act iv r)) (ctx_iv act)"
proof -
  let ?iv2 = "fst (retry_iv 4 act (fst (fill_iv iv r)) (snd (fill_iv iv r)))"
  have len: "length ?iv2 = AES_IV_SIZE" using assms(1) by simp
  show ?thesis
  proof (cases "same_seq ?iv2 (ctx_iv act)")
    case True
    then have "fst (fresh_iv act iv r) = ?iv2[1 := ?iv2 ! 1 XOR 0x01]"
      using assms(2) by (simp add: fresh_iv_def case_prod_beta)
    with True len show ?thesis
      by (simp add: same_seq_def AES_IV_SIZE_def) (metis xor_1_neq)
  next
    case False
    then show ?thesis by (simp add: fresh_iv_def case_prod_beta)
  qed
qed

lemma publish_iv_fields [simp]:
  assumes "length response = 20" "length iv = AES_IV_SIZE"
  shows "length (publish_iv iv response) = 20"
    "take IV_RESPONSE_HEADER (publish_iv iv response) = take IV_RESPONSE_HEADER response"
    "drop IV_RESPONSE_HEADER (publish_iv iv response) = iv"
  using assms by (simp_all add: publish_iv_def AES_IV_SIZE_def IV_RESPONSE_HEADER_def)

subsection \<open>Resets and IV requests keep the invariant\<close>

lemma session_inv_initial: "session_inv initial_session"
  by (simp add: session_inv_defs initial_session_def AES_IV_SIZE_def IV_RESPONSE_HEADER_def)

lemma session_inv_clear_transient [simp]: "session_inv (clear_transient s) = session_inv s"
  by (simp add: session_inv_defs clear_transient_def)

lemma session_inv_header [simp]: "session_inv (s\<lparr>header := h\<rparr>) = session_inv s"
  by (simp add: session_inv_defs)

lemma session_inv_set_aes_key: "session_inv s \<Longrightarrow> session_inv (set_aes_key k s)"
  by (simp add: session_inv_defs set_aes_key_def)

lemma session_inv_reset_transport: "session_inv s \<Longrightarrow> session_inv (reset_transport s)"
  by (auto simp: session_inv_defs reset_transport_def clear_transient_def Let_def)

lemma session_inv_reset: "session_inv s \<Longrightarrow> session_inv (reset_session s)"
  by (auto simp: session_inv_defs reset_session_def reset_transport_def clear_transient_def Let_def)

lemma session_inv_unpair: "session_inv s \<Longrightarrow> session_inv (forget_slot (reset_session s))"
  by (auto simp: session_inv_defs forget_slot_def reset_session_def reset_transport_def
      clear_transient_def Let_def)

lemma session_inv_drop_retired: "session_inv s \<Longrightarrow> session_inv (s\<lparr>retired := empty_context\<rparr>)"
  by (auto simp: session_inv_defs)

lemma session_inv_ensure_pending:
  assumes "session_inv s"
  shows "session_inv (fst (ensure_pending_iv s r))"
proof -
  have len: "length (ctx_iv empty_context) = AES_IV_SIZE" by simp
  note facts = length_fresh_iv [OF len] fresh_iv_distinct [OF len]
  show ?thesis
    using assms facts
    by (auto simp: session_inv_defs ensure_pending_iv_def Let_def case_prod_beta context_wf_def)
qed

lemma session_inv_iv_request:
  assumes "session_inv s"
  shows "session_inv (fst (process_iv_request frame s r))"
proof -
  have "session_inv (s\<lparr>active := empty_context, pending := empty_context,
      retired := empty_context, slot_id := x\<rparr>)" for x
    using assms by (auto simp: session_inv_defs)
  with assms show ?thesis
    by (simp add: process_iv_request_def Let_def session_inv_ensure_pending)
qed

subsection \<open>A frame selects exactly one generation\<close>

abbreviation only_pending :: frame_uses where
  "only_pending \<equiv> \<lparr>uses_pending = True, uses_active = False, uses_retired = False\<rparr>"
abbreviation only_active :: frame_uses where
  "only_active \<equiv> \<lparr>uses_pending = False, uses_active = True, uses_retired = False\<rparr>"
abbreviation only_retired :: frame_uses where
  "only_retired \<equiv> \<lparr>uses_pending = False, uses_active = False, uses_retired = True\<rparr>"

lemma frame_uses_cases:
  assumes "session_inv s"
    and "uses_pending (frame_uses_of s) \<or> uses_active (frame_uses_of s) \<or> uses_retired (frame_uses_of s)"
  obtains (pending) "frame_uses_of s = only_pending" "ctx_valid (pending s)" "\<not> ctx_valid (retired s)"
      "seq_matches (pending s) (header s)"
    | (active) "frame_uses_of s = only_active" "ctx_valid (active s)"
      "seq_matches (active s) (header s)"
    | (retired) "frame_uses_of s = only_retired" "ctx_valid (retired s)" "\<not> ctx_valid (pending s)"
      "ctx_valid (active s)" "seq_matches (retired s) (header s)"
proof -
  have "seq_matches (pending s) (header s) \<Longrightarrow> \<not> seq_matches (active s) (header s)"
    and "seq_matches (pending s) (header s) \<Longrightarrow> \<not> seq_matches (retired s) (header s)"
    and "seq_matches (active s) (header s) \<Longrightarrow> \<not> seq_matches (retired s) (header s)"
    using assms(1) by (auto simp: session_inv_defs seq_matches_def same_seq_def)
  moreover have "ctx_valid (retired s) \<Longrightarrow> \<not> ctx_valid (pending s) \<and> ctx_valid (active s)"
    using assms(1) by (auto simp: session_inv_defs)
  moreover have "seq_matches c (header s) \<Longrightarrow> ctx_valid c" for c
    by (simp add: seq_matches_def)
  ultimately show ?thesis
    using assms(2) pending active retired by (auto simp: frame_uses_of_def)
qed

subsection \<open>The steps of the payload pipeline keep the invariant\<close>

lemma session_inv_command [simp]: "session_inv (s\<lparr>command := c\<rparr>) = session_inv s"
  by (simp add: session_inv_defs)

lemma session_inv_revoke:
  "session_inv s \<Longrightarrow> session_inv (update_context g (\<lambda>c. c\<lparr>late_action_allowed := False\<rparr>) s)"
  by (cases g) (auto simp: session_inv_defs)

lemma session_inv_poll_seen:
  "session_inv s \<Longrightarrow> session_inv (update_context g (\<lambda>c. c\<lparr>handoff_poll_seen := True\<rparr>) s)"
  by (cases g) (auto simp: session_inv_defs)

lemma session_inv_record:
  "session_inv s \<Longrightarrow> session_inv (update_context g (\<lambda>c. record_ciphertext c ct) s)"
  by (cases g) (auto simp: session_inv_defs)

lemma session_inv_drop: "session_inv s \<Longrightarrow> session_inv (drop_retired u s)"
  by (simp add: drop_retired_def session_inv_drop_retired)

lemma session_inv_track: "session_inv s \<Longrightarrow> session_inv (track_handoff_poll u s)"
  by (simp add: track_handoff_poll_def Let_def session_inv_revoke session_inv_poll_seen)

lemma session_inv_expose:
  assumes "session_inv s"
  shows "session_inv (expose_command u pt s)"
proof -
  have "length (ctx_iv (context_of g s)) = AES_IV_SIZE" for g
    using assms by (cases g) (simp_all add: session_inv_defs context_wf_def)
  with assms show ?thesis by (simp add: session_inv_defs expose_command_def)
qed

lemma session_inv_promote:
  assumes "session_inv s" "ctx_valid (pending s)"
  shows "session_inv
    (s\<lparr>retired := (if b \<and> ctx_valid (active s) \<and> late_action_allowed (active s)
                  then active s else empty_context),
       active := (pending s)\<lparr>late_action_allowed := False, handoff_poll_seen := False\<rparr>,
       pending := empty_context\<rparr>)"
  using assms same_seq_sym [of "ctx_iv (pending s)" "ctx_iv (active s)"]
  by (simp add: session_inv_defs)

lemma session_inv_commit:
  assumes "session_inv s" "uses_pending u \<Longrightarrow> ctx_valid (pending s)"
  shows "session_inv (commit_generation u s)"
  using assms session_inv_promote [of s "cmd_type (command s) = CMD_STATE_POLL"]
  by (simp add: commit_generation_def Let_def session_inv_drop_retired)

lemma pending_valid_update [simp]:
  "ctx_valid (pending (update_context g (\<lambda>c. c\<lparr>late_action_allowed := b\<rparr>) s)) = ctx_valid (pending s)"
  "ctx_valid (pending (update_context g (\<lambda>c. c\<lparr>handoff_poll_seen := b\<rparr>) s)) = ctx_valid (pending s)"
  "ctx_valid (pending (update_context g (\<lambda>c. record_ciphertext c ct) s)) = ctx_valid (pending s)"
  by (cases g; simp)+

lemma pending_valid_pipeline [simp]:
  "ctx_valid (pending (track_handoff_poll u s)) = ctx_valid (pending s)"
  "pending (expose_command u pt s) = pending s"
  by (simp_all add: track_handoff_poll_def expose_command_def Let_def)

lemma session_inv_admit:
  assumes "session_inv s" "uses_pending u \<Longrightarrow> ctx_valid (pending s)"
  shows "session_inv (snd (admit_command u ct seen up pt s))"
  using assms
  by (simp add: admit_command_def Let_def session_inv_drop session_inv_record session_inv_revoke
      session_inv_expose session_inv_commit)

lemma session_inv_payload:
  assumes "session_inv s" "uses_pending u \<Longrightarrow> ctx_valid (pending s)"
  shows "session_inv (snd (process_payload xc u ct s))"
  using assms
  by (simp add: process_payload_def Let_def session_inv_drop session_inv_track session_inv_revoke
      session_inv_admit split: option.splits)

lemma session_inv_close: "session_inv s \<Longrightarrow> session_inv (close_handoff u s)"
  by (simp add: close_handoff_def session_inv_drop_retired)

text \<open>
  The three fates of a frame: an IV request, a frame dropped by the header checks, a frame whose
  payload is processed under a matching generation.
\<close>

definition received :: "lock_session \<Rightarrow> byte list \<Rightarrow> lock_session" where
  "received s f = (clear_transient s)\<lparr>header := frame_header_of f\<rparr>"

lemma received_fields [simp]:
  "active (received s f) = active s" "pending (received s f) = pending s"
  "retired (received s f) = retired s" "slot_id (received s f) = slot_id s"
  "aes_key (received s f) = aes_key s" "header (received s f) = frame_header_of f"
  "plaintext_size (received s f) = 0" "response_iv_valid (received s f) = False"
  "command (received s f) = default_command" "iv_response (received s f) = iv_response s"
  "session_inv (received s f) = session_inv s"
  by (simp_all add: received_def clear_transient_def session_inv_defs)

lemma clear_transient_fields [simp]:
  "active (clear_transient s) = active s" "pending (clear_transient s) = pending s"
  "retired (clear_transient s) = retired s" "slot_id (clear_transient s) = slot_id s"
  "aes_key (clear_transient s) = aes_key s" "header (clear_transient s) = empty_header"
  "plaintext_size (clear_transient s) = 0" "response_iv_valid (clear_transient s) = False"
  "command (clear_transient s) = default_command" "iv_response (clear_transient s) = iv_response s"
  by (simp_all add: clear_transient_def)

abbreviation uses_any :: "frame_uses \<Rightarrow> bool" where
  "uses_any u \<equiv> uses_pending u \<or> uses_active u \<or> uses_retired u"

lemma process_frame_cases:
  assumes "process_frame xc f s r = (a, s', r')"
  obtains (iv_request) "is_iv_request f" "a = SEND_IV"
      "process_iv_request f (clear_transient s) r = (s', r')"
    | (rejected) "\<not> is_iv_request f" "a = ACTION_NONE" "r' = r"
      "s' = clear_transient s \<or> s' = received s f"
    | (payload) u where "\<not> is_iv_request f" "HEADER_LEN < length f" "f ! 0 = PROTOCOL_MAGIC"
      "hdr_key_id (frame_header_of f) = slot_id s" "r' = r"
      "u = frame_uses_of (received s f)" "uses_any u"
      "process_payload xc u (drop HEADER_LEN f) (close_handoff u (received s f)) = (a, s')"
  using assms
  by (auto simp: process_frame_def Let_def received_def [symmetric] split: if_splits prod.splits)

lemma session_inv_process_frame:
  assumes "session_inv s" "process_frame xc f s r = (a, s', r')"
  shows "session_inv s'"
  using assms(2)
proof (cases rule: process_frame_cases)
  case iv_request
  with session_inv_iv_request [of "clear_transient s" f r] assms(1) show ?thesis by simp
next
  case rejected
  with assms(1) show ?thesis by auto
next
  case (payload u)
  let ?t = "close_handoff u (received s f)"
  have "session_inv ?t"
    using assms(1) by (simp add: session_inv_close)
  moreover have "uses_pending u \<Longrightarrow> ctx_valid (pending ?t)"
    by (simp add: payload(6) frame_uses_of_def seq_matches_def close_handoff_def)
  ultimately have "session_inv (snd (process_payload xc u (drop HEADER_LEN f) ?t))"
    by (rule session_inv_payload)
  with payload show ?thesis by simp
qed

subsection \<open>Reachable sessions\<close>

text \<open>
  The public methods of \<open>LockSession\<close>, called in any order, with any frames, any random words and
  any cipher results. \<open>forget_slot\<close> is called by the bridge only directly after \<open>reset\<close>
  (\<open>reset_pairing\<close>), which is the \<open>unpair\<close> step.
\<close>

inductive session_reachable :: "aes_ctr \<Rightarrow> lock_session \<Rightarrow> bool" for xc where
  initial: "session_reachable xc initial_session"
| frame: "session_reachable xc s \<Longrightarrow> process_frame xc f s r = (a, s', r') \<Longrightarrow>
    session_reachable xc s'"
| transport: "session_reachable xc s \<Longrightarrow> session_reachable xc (reset_transport s)"
| reset: "session_reachable xc s \<Longrightarrow> session_reachable xc (reset_session s)"
| unpair: "session_reachable xc s \<Longrightarrow> session_reachable xc (forget_slot (reset_session s))"
| set_key: "session_reachable xc s \<Longrightarrow> session_reachable xc (set_aes_key k s)"

lemma session_reachable_inv: "session_reachable xc s \<Longrightarrow> session_inv s"
  by (induction rule: session_reachable.induct)
    (auto intro: session_inv_initial session_inv_reset_transport session_inv_reset
      session_inv_unpair session_inv_set_aes_key session_inv_process_frame)

end
