(* ===== verification/Session_Steps.thy ===== *)
theory Session_Steps
  imports Session_Invariant
begin

text \<open>
  What one frame does to the session, resolved per generation: the equations of
  \<open>process_payload\<close> for a frame under the pending, the current, the superseded active and the
  retired generation, and the facts about accepted, dropped and evolving state that the safety
  theorems share.
\<close>

definition is_action :: "decoded_command \<Rightarrow> bool" where
  "is_action cmd \<longleftrightarrow> cmd_type cmd = CMD_LOCK \<or> cmd_type cmd = CMD_UNLOCK"

definition decrypt_with :: "aes_ctr \<Rightarrow> generation \<Rightarrow> lock_session \<Rightarrow> byte list \<Rightarrow> byte list option" where
  "decrypt_with xc g s ct =
    (if length ct > MAX_PAYLOAD then None else xc (aes_key s) (ctx_iv (context_of g s)) ct)"

lemmas payload_defs =
  process_payload_def admit_command_def commit_generation_def expose_command_def
  track_handoff_poll_def drop_retired_def selected_generation_def decrypt_with_def is_action_def
  Let_def

lemma payload_pending:
  "process_payload xc only_pending ct s =
    (case decrypt_with xc GEN_PENDING s ct of
       None \<Rightarrow> (ACTION_NONE, s)
     | Some pt \<Rightarrow>
         let cmd = decode_lock_command pt; s1 = s\<lparr>command := cmd\<rparr> in
         if is_action cmd \<and> is_replayed_ciphertext (pending s) ct then (ACTION_NONE, s1)
         else (COMMAND, commit_generation only_pending (expose_command only_pending pt
           (if is_action cmd then s1\<lparr>pending := record_ciphertext (pending s) ct\<rparr> else s1))))"
  by (simp add: payload_defs split: option.split)

lemma payload_current:
  assumes "\<not> ctx_valid (pending s)"
  shows "process_payload xc only_active ct s =
    (case decrypt_with xc GEN_ACTIVE s ct of
       None \<Rightarrow> (ACTION_NONE, s)
     | Some pt \<Rightarrow>
         let cmd = decode_lock_command pt; s1 = s\<lparr>command := cmd\<rparr> in
         if is_action cmd \<and> is_replayed_ciphertext (active s) ct then (ACTION_NONE, s1)
         else (COMMAND, expose_command only_active pt
           (if is_action cmd then s1\<lparr>active := record_ciphertext (active s) ct\<rparr> else s1)))"
  using assms by (simp add: payload_defs split: option.split)

lemma fast_unlock_is_action: "is_fast_unlock_action cmd \<Longrightarrow> is_action cmd"
  by (simp add: is_fast_unlock_action_def is_action_def)

lemma action_not_poll: "is_action cmd \<Longrightarrow> cmd_type cmd \<noteq> CMD_STATE_POLL"
  by (auto simp: is_action_def)

lemma payload_predecessor:
  assumes "ctx_valid (pending s)"
  shows "process_payload xc only_active ct s =
    (case decrypt_with xc GEN_ACTIVE s ct of
       None \<Rightarrow> (ACTION_NONE, s)
     | Some pt \<Rightarrow>
         let cmd = decode_lock_command pt; s1 = s\<lparr>command := cmd\<rparr> in
         if cmd_type cmd = CMD_STATE_POLL
         then (COMMAND, expose_command only_active pt (track_handoff_poll only_active s1))
         else if \<not> (is_fast_unlock_action cmd \<and> late_action_allowed (active s))
         then (ACTION_NONE, s\<lparr>command := default_command,
           active := (active s)\<lparr>late_action_allowed := False\<rparr>\<rparr>)
         else if is_replayed_ciphertext (active s) ct
         then (ACTION_NONE, s1\<lparr>active := (active s)\<lparr>late_action_allowed := False\<rparr>\<rparr>)
         else (COMMAND, expose_command only_active pt
           (s1\<lparr>active := (record_ciphertext (active s) ct)\<lparr>late_action_allowed := False\<rparr>\<rparr>)))"
  using assms
  by (simp add: payload_defs is_fast_unlock_action_def record_ciphertext_def split: option.split)

lemma payload_retired:
  assumes "\<not> ctx_valid (pending s)"
  shows "process_payload xc only_retired ct s =
    (case decrypt_with xc GEN_RETIRED s ct of
       None \<Rightarrow> (ACTION_NONE, s\<lparr>retired := empty_context\<rparr>)
     | Some pt \<Rightarrow>
         let cmd = decode_lock_command pt; s1 = s\<lparr>command := cmd\<rparr> in
         if cmd_type cmd = CMD_STATE_POLL
         then (COMMAND, (expose_command only_retired pt s1)\<lparr>retired := empty_context\<rparr>)
         else if \<not> (is_fast_unlock_action cmd \<and> late_action_allowed (retired s))
         then (ACTION_NONE, s\<lparr>command := default_command, retired := empty_context\<rparr>)
         else if is_replayed_ciphertext (retired s) ct
         then (ACTION_NONE, s1\<lparr>retired := empty_context\<rparr>)
         else (COMMAND, (expose_command only_retired pt s1)\<lparr>retired := empty_context\<rparr>))"
  using assms
  by (simp add: payload_defs is_fast_unlock_action_def record_ciphertext_def split: option.split)

subsection \<open>Accepted and dropped frames\<close>

lemma recent_update [simp]:
  "recent_ciphertexts (c\<lparr>late_action_allowed := a\<rparr>) = recent_ciphertexts c"
  "recent_ciphertexts (c\<lparr>handoff_poll_seen := b\<rparr>) = recent_ciphertexts c"
  by (simp_all add: recent_ciphertexts_def slots_by_age_def)

lemma commit_fields [simp]:
  "command (commit_generation u s) = command s" "header (commit_generation u s) = header s"
  "response_iv (commit_generation u s) = response_iv s"
  "response_iv_valid (commit_generation u s) = response_iv_valid s"
  "plaintext_size (commit_generation u s) = plaintext_size s"
  "plaintext_buf (commit_generation u s) = plaintext_buf s"
  "slot_id (commit_generation u s) = slot_id s" "aes_key (commit_generation u s) = aes_key s"
  "iv_response (commit_generation u s) = iv_response s"
  by (simp_all add: commit_generation_def Let_def)

lemma expose_fields [simp]:
  "command (expose_command u pt s) = command s" "header (expose_command u pt s) = header s"
  "response_iv (expose_command u pt s) = ctx_iv (context_of (selected_generation u) s)"
  "response_iv_valid (expose_command u pt s)"
  "plaintext_size (expose_command u pt s) = length pt"
  "session_plaintext (expose_command u pt s) = pt"
  "slot_id (expose_command u pt s) = slot_id s" "aes_key (expose_command u pt s) = aes_key s"
  "iv_response (expose_command u pt s) = iv_response s"
  "active (expose_command u pt s) = active s" "pending (expose_command u pt s) = pending s"
  "retired (expose_command u pt s) = retired s"
  by (simp_all add: expose_command_def session_plaintext_def)

lemma session_plaintext_frame [simp]:
  "session_plaintext (commit_generation u s) = session_plaintext s"
  "session_plaintext (s\<lparr>retired := c\<rparr>) = session_plaintext s"
  by (simp_all add: session_plaintext_def)

lemma track_fields [simp]:
  "command (track_handoff_poll u s) = command s" "header (track_handoff_poll u s) = header s"
  "slot_id (track_handoff_poll u s) = slot_id s" "aes_key (track_handoff_poll u s) = aes_key s"
  "iv_response (track_handoff_poll u s) = iv_response s"
  "plaintext_size (track_handoff_poll u s) = plaintext_size s"
  "response_iv_valid (track_handoff_poll u s) = response_iv_valid s"
  "ctx_iv (active (track_handoff_poll u s)) = ctx_iv (active s)"
  "ctx_valid (active (track_handoff_poll u s)) = ctx_valid (active s)"
  "recent_ciphertexts (active (track_handoff_poll u s)) = recent_ciphertexts (active s)"
  "retired (track_handoff_poll only_active s) = retired s"
  "pending (track_handoff_poll only_active s) = pending s"
  by (cases "selected_generation u";
      simp add: track_handoff_poll_def selected_generation_def Let_def)+

lemma selected_only [simp]:
  "selected_generation only_pending = GEN_PENDING" "selected_generation only_active = GEN_ACTIVE"
  "selected_generation only_retired = GEN_RETIRED"
  by (simp_all add: selected_generation_def)

lemma update_context_fields [simp]:
  "command (update_context g f s) = command s" "header (update_context g f s) = header s"
  "slot_id (update_context g f s) = slot_id s" "aes_key (update_context g f s) = aes_key s"
  "iv_response (update_context g f s) = iv_response s"
  "plaintext_size (update_context g f s) = plaintext_size s"
  "response_iv_valid (update_context g f s) = response_iv_valid s"
  by (cases g; simp)+

lemma drop_retired_fields [simp]:
  "command (drop_retired u s) = command s" "header (drop_retired u s) = header s"
  "slot_id (drop_retired u s) = slot_id s" "aes_key (drop_retired u s) = aes_key s"
  "iv_response (drop_retired u s) = iv_response s"
  "plaintext_size (drop_retired u s) = plaintext_size s"
  "response_iv_valid (drop_retired u s) = response_iv_valid s"
  by (simp_all add: drop_retired_def)

lemma close_handoff_fields [simp]:
  "command (close_handoff u s) = command s" "header (close_handoff u s) = header s"
  "slot_id (close_handoff u s) = slot_id s" "aes_key (close_handoff u s) = aes_key s"
  "iv_response (close_handoff u s) = iv_response s"
  "plaintext_size (close_handoff u s) = plaintext_size s"
  "response_iv_valid (close_handoff u s) = response_iv_valid s"
  "active (close_handoff u s) = active s" "pending (close_handoff u s) = pending s"
  "\<not> uses_active u \<Longrightarrow> close_handoff u s = s"
  by (simp_all add: close_handoff_def)

text \<open>The payload pipeline never touches the key, the slot, the header or the advertised IV.\<close>

lemma payload_frame:
  assumes "process_payload xc u ct s = (a, s')"
  shows "aes_key s' = aes_key s \<and> slot_id s' = slot_id s \<and> header s' = header s \<and>
    iv_response s' = iv_response s"
  using assms
  by (auto simp: process_payload_def admit_command_def Let_def split: option.splits if_splits)

text \<open>What a dropped payload leaves visible: nothing.\<close>

lemma payload_dropped:
  assumes "process_payload xc u ct s = (ACTION_NONE, s')"
  shows "plaintext_size s' = plaintext_size s \<and> response_iv_valid s' = response_iv_valid s"
  using assms
  by (auto simp: process_payload_def admit_command_def Let_def split: option.splits if_splits)

lemma payload_not_iv:
  assumes "process_payload xc u ct s = (a, s')"
  shows "a \<noteq> SEND_IV"
  using assms
  by (auto simp: process_payload_def admit_command_def Let_def split: option.splits if_splits)

text \<open>
  An accepted payload was decrypted with the selected generation's IV; an accepted action was not
  in that generation's window.
\<close>

lemma accepted_pending:
  assumes "process_payload xc only_pending ct s = (COMMAND, s')"
  shows "\<exists>pt. decrypt_with xc GEN_PENDING s ct = Some pt \<and> command s' = decode_lock_command pt \<and>
    session_plaintext s' = pt \<and> plaintext_size s' = length pt \<and>
    response_iv s' = ctx_iv (pending s) \<and> response_iv_valid s' \<and>
    ctx_iv (active s') = ctx_iv (pending s) \<and> pending s' = empty_context \<and>
    (is_action (command s') \<longrightarrow> \<not> is_replayed_ciphertext (pending s) ct \<and>
      recent_ciphertexts (active s') = recent_ciphertexts (record_ciphertext (pending s) ct) \<and>
      retired s' = empty_context)"
  using assms
  by (auto simp: payload_pending Let_def split: option.splits if_splits)
    (auto simp: commit_generation_def Let_def action_not_poll)

lemma accepted_current:
  assumes "process_payload xc only_active ct s = (COMMAND, s')" "\<not> ctx_valid (pending s)"
  shows "\<exists>pt. decrypt_with xc GEN_ACTIVE s ct = Some pt \<and> command s' = decode_lock_command pt \<and>
    session_plaintext s' = pt \<and> plaintext_size s' = length pt \<and>
    response_iv s' = ctx_iv (active s) \<and> response_iv_valid s' \<and>
    ctx_iv (active s') = ctx_iv (active s) \<and> pending s' = pending s \<and> retired s' = retired s \<and>
    (is_action (command s') \<longrightarrow> \<not> is_replayed_ciphertext (active s) ct \<and>
      recent_ciphertexts (active s') = recent_ciphertexts (record_ciphertext (active s) ct))"
  using assms(1)
  by (auto simp: payload_current [OF assms(2)] Let_def split: option.splits if_splits)

lemma accepted_predecessor:
  assumes "process_payload xc only_active ct s = (COMMAND, s')" "ctx_valid (pending s)"
  shows "\<exists>pt. decrypt_with xc GEN_ACTIVE s ct = Some pt \<and> command s' = decode_lock_command pt \<and>
    session_plaintext s' = pt \<and> plaintext_size s' = length pt \<and>
    response_iv s' = ctx_iv (active s) \<and> response_iv_valid s' \<and>
    ctx_iv (active s') = ctx_iv (active s) \<and> pending s' = pending s \<and> retired s' = retired s \<and>
    (cmd_type (command s') \<noteq> CMD_STATE_POLL \<longrightarrow>
      is_fast_unlock_action (command s') \<and> late_action_allowed (active s) \<and>
      \<not> late_action_allowed (active s') \<and> \<not> is_replayed_ciphertext (active s) ct \<and>
      recent_ciphertexts (active s') = recent_ciphertexts (record_ciphertext (active s) ct))"
  using assms(1)
  by (auto simp: payload_predecessor [OF assms(2)] Let_def split: option.splits if_splits)

lemma accepted_retired:
  assumes "process_payload xc only_retired ct s = (COMMAND, s')" "\<not> ctx_valid (pending s)"
  shows "\<exists>pt. decrypt_with xc GEN_RETIRED s ct = Some pt \<and> command s' = decode_lock_command pt \<and>
    session_plaintext s' = pt \<and> plaintext_size s' = length pt \<and>
    response_iv s' = ctx_iv (retired s) \<and> response_iv_valid s' \<and>
    active s' = active s \<and> pending s' = pending s \<and> retired s' = empty_context \<and>
    (cmd_type (command s') \<noteq> CMD_STATE_POLL \<longrightarrow>
      is_fast_unlock_action (command s') \<and> late_action_allowed (retired s) \<and>
      \<not> is_replayed_ciphertext (retired s) ct)"
  using assms(1)
  by (auto simp: payload_retired [OF assms(2)] Let_def split: option.splits if_splits)

text \<open>
  How the generations evolve: every valid generation after a frame continues one from before it,
  under the same IV, with its window kept or extended by the accepted action.
\<close>

definition generations :: "lock_session \<Rightarrow> crypto_context set" where
  "generations s = {c \<in> {active s, pending s, retired s}. ctx_valid c}"

definition continues ::
  "action \<Rightarrow> byte list \<Rightarrow> lock_session \<Rightarrow> crypto_context \<Rightarrow> crypto_context \<Rightarrow> bool" where
  "continues a ct s' c c' \<longleftrightarrow>
    ctx_iv c' = ctx_iv c \<and>
    (recent_ciphertexts c' = recent_ciphertexts c \<or>
     a = COMMAND \<and> is_action (command s') \<and>
     recent_ciphertexts c' = recent_ciphertexts (record_ciphertext c ct))"

definition evolves :: "action \<Rightarrow> byte list \<Rightarrow> lock_session \<Rightarrow> lock_session \<Rightarrow> bool" where
  "evolves a ct s s' \<longleftrightarrow> (\<forall>c' \<in> generations s'. \<exists>c \<in> generations s. continues a ct s' c c')"

lemma generations_iff:
  "c \<in> generations s \<longleftrightarrow> ctx_valid c \<and> (c = active s \<or> c = pending s \<or> c = retired s)"
  by (auto simp: generations_def)

lemma continues_intros:
  "continues a ct s' c c"
  "continues a ct s' c (c\<lparr>late_action_allowed := b\<rparr>)"
  "continues a ct s' c (c\<lparr>handoff_poll_seen := h\<rparr>)"
  "continues a ct s' c (c\<lparr>late_action_allowed := b, handoff_poll_seen := h\<rparr>)"
  by (simp_all add: continues_def)

lemma continues_record:
  assumes "is_action (command s')"
  shows "continues COMMAND ct s' c (record_ciphertext c ct)"
    "continues COMMAND ct s' c ((record_ciphertext c ct)\<lparr>late_action_allowed := b\<rparr>)"
    "continues COMMAND ct s' c
      ((record_ciphertext c ct)\<lparr>late_action_allowed := b, handoff_poll_seen := h\<rparr>)"
  using assms by (simp_all add: continues_def)

lemma evolvesI:
  assumes "ctx_valid (active s') \<Longrightarrow> \<exists>c \<in> generations s. continues a ct s' c (active s')"
    and "ctx_valid (pending s') \<Longrightarrow> \<exists>c \<in> generations s. continues a ct s' c (pending s')"
    and "ctx_valid (retired s') \<Longrightarrow> \<exists>c \<in> generations s. continues a ct s' c (retired s')"
  shows "evolves a ct s s'"
  using assms unfolding evolves_def by (auto simp: generations_iff [of _ s'])

lemma generationsI:
  "ctx_valid (active s) \<Longrightarrow> active s \<in> generations s"
  "ctx_valid (pending s) \<Longrightarrow> pending s \<in> generations s"
  "ctx_valid (retired s) \<Longrightarrow> retired s \<in> generations s"
  by (simp_all add: generations_iff)

lemma outcome_pending:
  assumes "process_payload xc only_pending ct s = (a, s')"
  shows "active s' = active s \<and> pending s' = pending s \<and> retired s' = retired s \<or>
    a = COMMAND \<and> pending s' = empty_context \<and> (retired s' = active s \<or> retired s' = empty_context) \<and>
    (active s' = (pending s)\<lparr>late_action_allowed := False, handoff_poll_seen := False\<rparr> \<or>
     is_action (command s') \<and> active s' =
      (record_ciphertext (pending s) ct)\<lparr>late_action_allowed := False, handoff_poll_seen := False\<rparr>)"
  using assms
  by (auto simp: payload_pending Let_def split: option.splits if_splits)
    (auto simp: commit_generation_def Let_def split: if_splits)

lemma outcome_current:
  assumes "process_payload xc only_active ct s = (a, s')" "\<not> ctx_valid (pending s)"
  shows "pending s' = pending s \<and> retired s' = retired s \<and>
    (active s' = active s \<or>
     a = COMMAND \<and> is_action (command s') \<and> active s' = record_ciphertext (active s) ct)"
  using assms(1)
  by (auto simp: payload_current [OF assms(2)] Let_def split: option.splits if_splits)

lemma track_active:
  "active (track_handoff_poll only_active s) =
    (if ctx_valid (pending s) \<and> cmd_type (command s) = CMD_STATE_POLL \<and>
        late_action_allowed (active s)
     then if handoff_poll_seen (active s) then (active s)\<lparr>late_action_allowed := False\<rparr>
          else (active s)\<lparr>handoff_poll_seen := True\<rparr>
     else active s)"
  by (simp add: track_handoff_poll_def Let_def)

lemma outcome_predecessor:
  assumes "process_payload xc only_active ct s = (a, s')" "ctx_valid (pending s)"
  shows "pending s' = pending s \<and> retired s' = retired s \<and>
    (active s' = active s \<or> active s' = (active s)\<lparr>late_action_allowed := False\<rparr> \<or>
     active s' = (active s)\<lparr>handoff_poll_seen := True\<rparr> \<or>
     a = COMMAND \<and> is_action (command s') \<and>
     active s' = (record_ciphertext (active s) ct)\<lparr>late_action_allowed := False\<rparr>)"
  using assms(1)
  by (auto simp: payload_predecessor [OF assms(2)] Let_def fast_unlock_is_action track_active
      split: option.splits if_splits)

lemma outcome_retired:
  assumes "process_payload xc only_retired ct s = (a, s')" "\<not> ctx_valid (pending s)"
  shows "pending s' = pending s \<and> active s' = active s \<and> retired s' = empty_context"
  using assms(1)
  by (auto simp: payload_retired [OF assms(2)] Let_def split: option.splits if_splits)

lemma evolves_pending:
  assumes "process_payload xc only_pending ct s = (a, s')" "ctx_valid (pending s)"
  shows "evolves a ct s s'"
  using outcome_pending [OF assms(1)] assms(2)
  by (elim disjE conjE; intro evolvesI)
    (fastforce intro: generationsI continues_intros continues_record)+

lemma evolves_current:
  assumes "process_payload xc only_active ct s = (a, s')" "\<not> ctx_valid (pending s)"
  shows "evolves a ct s s'"
  using outcome_current [OF assms]
  by (elim disjE conjE; intro evolvesI)
    (fastforce intro: generationsI continues_intros continues_record)+

lemma evolves_predecessor:
  assumes "process_payload xc only_active ct s = (a, s')" "ctx_valid (pending s)"
  shows "evolves a ct s s'"
  using outcome_predecessor [OF assms]
  by (elim disjE conjE; intro evolvesI)
    (fastforce intro: generationsI continues_intros continues_record)+

lemma evolves_retired:
  assumes "process_payload xc only_retired ct s = (a, s')" "\<not> ctx_valid (pending s)"
  shows "evolves a ct s s'"
  using outcome_retired [OF assms]
  by (intro evolvesI) (auto intro!: generationsI bexI continues_intros)

lemma generations_received [simp]: "generations (received s f) = generations s"
  by (simp add: generations_def)

lemma generations_clear [simp]: "generations (clear_transient s) = generations s"
  by (simp add: generations_def)

lemma generations_close: "generations (close_handoff u s) \<subseteq> generations s"
  by (auto simp: generations_def close_handoff_def)

text \<open>The payload case of a frame, by the generation it selected.\<close>

lemma payload_generation_cases:
  assumes "session_inv s" "u = frame_uses_of (received s f)" "uses_any u"
    and "process_payload xc u ct (close_handoff u (received s f)) = (a, s')"
  obtains (pending) "process_payload xc only_pending ct (received s f) = (a, s')"
      "u = only_pending" "ctx_valid (pending s)" "\<not> ctx_valid (retired s)"
      "seq_matches (pending s) (frame_header_of f)"
    | (current) t where "process_payload xc only_active ct t = (a, s')" "u = only_active"
      "t = close_handoff u (received s f)"
      "ctx_valid (active s)" "\<not> ctx_valid (pending s)" "\<not> ctx_valid (retired t)"
      "seq_matches (active s) (frame_header_of f)"
    | (predecessor) "process_payload xc only_active ct (received s f) = (a, s')"
      "u = only_active" "ctx_valid (active s)" "ctx_valid (pending s)" "\<not> ctx_valid (retired s)"
      "seq_matches (active s) (frame_header_of f)"
    | (retired) "process_payload xc only_retired ct (received s f) = (a, s')"
      "u = only_retired" "ctx_valid (retired s)" "\<not> ctx_valid (pending s)" "ctx_valid (active s)"
      "seq_matches (retired s) (frame_header_of f)"
proof -
  have inv: "session_inv (received s f)" using assms(1) by simp
  show ?thesis
  proof (cases rule: frame_uses_cases [OF inv assms(3) [unfolded assms(2)]])
    case 1
    with assms pending show ?thesis by simp
  next
    case 2
    show ?thesis
    proof (cases "ctx_valid (pending s)")
      case True
      then have "\<not> ctx_valid (retired s)" using assms(1) by (auto simp: session_inv_defs)
      then have "close_handoff u (received s f) = received s f" by (simp add: close_handoff_def)
      with 2 assms True \<open>\<not> ctx_valid (retired s)\<close> predecessor show ?thesis by simp
    next
      case False
      have "\<not> ctx_valid (retired (close_handoff u (received s f)))"
        using 2 assms(2) by (simp add: close_handoff_def)
      with 2 assms False current show ?thesis by simp
    qed
  next
    case 3
    with assms retired show ?thesis by simp
  qed
qed

lemma frame_evolves:
  assumes "session_inv s" "\<not> is_iv_request f" "process_frame xc f s r = (a, s', r')"
  shows "evolves a (drop HEADER_LEN f) s s'"
  using assms(3)
proof (cases rule: process_frame_cases)
  case iv_request
  with assms(2) show ?thesis by simp
next
  case rejected
  then show ?thesis
    by (auto simp: evolves_def generations_iff intro: continues_intros)
next
  case (payload u)
  have "evolves a (drop HEADER_LEN f) (close_handoff u (received s f)) s'"
    using assms(1) payload(6-8)
  proof (cases rule: payload_generation_cases)
    case pending
    then show ?thesis by (simp add: evolves_pending)
  next
    case (current t)
    then show ?thesis using evolves_current [of xc _ t a s'] by simp
  next
    case predecessor
    then show ?thesis by (simp add: evolves_predecessor close_handoff_def)
  next
    case retired
    then show ?thesis by (simp add: evolves_retired)
  qed
  then show ?thesis
    using generations_close [of u "received s f"] unfolding evolves_def by fastforce
qed

end
