(* ===== verification/Session_Runs.thy ===== *)
theory Session_Runs
  imports Session_Steps
begin

text \<open>
  Runs of the session, and concrete inputs for them. A run is a sequence of what the bridge feeds
  the session: received frames, the transport resets of \<open>on_ble_disconnect\<close> and the un-pairing of
  \<open>reset_pairing\<close>. The cipher, the keys and the frames of the concrete runs are those of the
  repository's own session tests (\<open>tests/lock_session_test.cpp\<close>).
\<close>

subsection \<open>Runs\<close>

datatype session_input = RxFrame "byte list" | TransportReset | Unpair

fun apply_input :: "aes_ctr \<Rightarrow> session_input \<Rightarrow> lock_session \<times> rng \<Rightarrow> action \<times> lock_session \<times> rng" where
  "apply_input xc (RxFrame f) (s, r) = process_frame xc f s r"
| "apply_input xc TransportReset (s, r) = (ACTION_NONE, reset_transport s, r)"
| "apply_input xc Unpair (s, r) = (ACTION_NONE, forget_slot (reset_session s), r)"

fun session_trace ::
  "aes_ctr \<Rightarrow> session_input list \<Rightarrow> lock_session \<times> rng \<Rightarrow> (action \<times> lock_session) list" where
  "session_trace xc [] c = []"
| "session_trace xc (i # is) c =
    (let (a, c') = apply_input xc i c in (a, fst c') # session_trace xc is c')"

fun session_run :: "aes_ctr \<Rightarrow> session_input list \<Rightarrow> lock_session \<times> rng \<Rightarrow> lock_session \<times> rng" where
  "session_run xc [] c = c"
| "session_run xc (i # is) c = session_run xc is (snd (apply_input xc i c))"

definition accepted_action :: "action \<times> lock_session \<Rightarrow> bool" where
  "accepted_action out = (fst out = COMMAND \<and> is_action (command (snd out)))"

definition requests_iv :: "session_input \<Rightarrow> bool" where
  "requests_iv i = (case i of RxFrame f \<Rightarrow> is_iv_request f | _ \<Rightarrow> False)"

fun session_log :: "aes_ctr \<Rightarrow> session_input list \<Rightarrow> lock_session \<times> rng \<Rightarrow>
    (lock_session \<times> action \<times> lock_session) list" where
  "session_log xc [] c = []"
| "session_log xc (i # is) c =
    (let (a, c') = apply_input xc i c in (fst c, a, fst c') # session_log xc is c')"

lemma session_reachable_run:
  "session_reachable xc (fst c) \<Longrightarrow> session_reachable xc (fst (session_run xc is c))"
proof (induction "is" arbitrary: c)
  case (Cons i "is")
  obtain s r where c: "c = (s, r)" by (metis prod.exhaust)
  have "session_reachable xc (fst (snd (apply_input xc i (s, r))))"
  proof (cases i)
    case (RxFrame f)
    obtain a s' r' where "process_frame xc f s r = (a, s', r')" by (metis prod_cases3)
    with Cons.prems c RxFrame show ?thesis by (auto intro: session_reachable.frame)
  qed (use Cons.prems c in \<open>auto intro: session_reachable.intros\<close>)
  with Cons.IH c show ?case by simp
qed simp

subsection \<open>The test cipher and test frames\<close>

text \<open>The stub \<open>aes_ctr_xcrypt\<close> of the session tests: XOR with the IV and the low key byte.\<close>

definition stub_xcrypt :: aes_ctr where
  "stub_xcrypt key iv input =
    Some (map (\<lambda>i. input ! i XOR iv ! (i mod 16) XOR ucast key) [0..<length input])"

definition TEST_KEY :: u32 where "TEST_KEY = 0x42"
definition TEST_STATE_POLL :: "byte list" where "TEST_STATE_POLL = [0x0F, 0x4F, 0x81, 0x00]"
definition TEST_PIN_UNLOCK :: "byte list" where
  "TEST_PIN_UNLOCK = [0x0F, 0x4E, 0x01, 0x03, 0x04, 0x80, 0x00, 0x00]"
definition TEST_FINGERPRINT_UNLOCK :: "byte list" where
  "TEST_FINGERPRINT_UNLOCK = [0x0F, 0x4E, 0x01, 0x03, 0x0C, 0x80, 0x00, 0x00]"

definition make_iv :: "byte \<Rightarrow> byte list" where
  "make_iv first = map (\<lambda>i. first + of_nat i) [0..<16]"

definition iv_request_frame :: "byte \<Rightarrow> byte list" where
  "iv_request_frame slot = [0x57, 0x00, 0x00, 0x00, 0x0F, 0x21, 0x03, slot]"

definition encrypted_frame :: "byte list \<Rightarrow> byte list \<Rightarrow> byte \<Rightarrow> byte list" where
  "encrypted_frame iv plaintext slot =
    [0x57, slot, iv ! 0, iv ! 1] @ the (stub_xcrypt TEST_KEY iv plaintext)"

text \<open>\<open>queue_iv\<close> of the tests: the four random words that make the session choose a given IV.\<close>

fun word_of_bytes :: "byte list \<Rightarrow> u32" where
  "word_of_bytes [a, b, c, d] =
    ucast a OR push_bit 8 (ucast b) OR push_bit 16 (ucast c) OR push_bit 24 (ucast d)"
| "word_of_bytes _ = 0"

definition queue_iv :: "byte list \<Rightarrow> rng \<Rightarrow> rng" where
  "queue_iv iv r = map (\<lambda>i. word_of_bytes (take 4 (drop (4 * i) iv))) [0..<4] @- r"

text \<open>A session with the test key that has advertised \<open>make_iv 0x10\<close> for the Vision slot.\<close>

definition vision_start :: "rng \<Rightarrow> lock_session \<times> rng" where
  "vision_start r = (set_aes_key TEST_KEY initial_session, queue_iv (make_iv 0x10) r)"

definition vision_session :: "rng \<Rightarrow> lock_session \<times> rng" where
  "vision_session r = session_run stub_xcrypt [RxFrame (iv_request_frame 0xC6)] (vision_start r)"

definition poll_input :: "byte \<Rightarrow> session_input" where
  "poll_input seed = RxFrame (encrypted_frame (make_iv seed) TEST_STATE_POLL 0xC6)"

definition pin_frame :: "byte \<Rightarrow> byte list" where
  "pin_frame seed = encrypted_frame (make_iv seed) TEST_PIN_UNLOCK 0xC6"

lemma vision_start_reachable: "session_reachable xc (fst (vision_start r))"
  by (simp add: vision_start_def session_reachable.intros)

lemma vision_session_reachable: "session_reachable stub_xcrypt (fst (vision_session r))"
  unfolding vision_session_def by (rule session_reachable_run [OF vision_start_reachable])

text \<open>The two facts the tests assert of their cipher: it never fails and it is its own inverse.\<close>

lemma stub_xcrypt_involution:
  assumes "stub_xcrypt k iv x = Some y"
  shows "length y = length x" "stub_xcrypt k iv y = Some x"
proof -
  have xor: "(a XOR b XOR c) XOR b XOR c = a" for a b c :: byte
    by (rule bit_word_eqI) (auto simp: bit_simps)
  have y: "y = map (\<lambda>i. x ! i XOR iv ! (i mod 16) XOR ucast k) [0..<length x]"
    using assms by (simp add: stub_xcrypt_def)
  then show "length y = length x" by simp
  have "map (\<lambda>i. y ! i XOR iv ! (i mod 16) XOR ucast k) [0..<length x] = x"
    by (rule nth_equalityI) (simp_all add: y xor)
  then show "stub_xcrypt k iv y = Some x" by (simp add: stub_xcrypt_def y)
qed

end
