(* ===== verification/Session_Safety.thy ===== *)
theory Session_Safety
  imports Session_Runs
begin

text \<open>
  Runs of the session: sequences of received frames, transport resets and un-pairings, the outcomes
  they expose, and the replay protection that holds along them.
\<close>

subsection \<open>Accepted frames\<close>

text \<open>
  An accepted frame: it carries the session's slot and the sequence bytes of a valid generation, and
  what the session exposes is its payload decrypted under that generation's IV.
\<close>

lemma decrypt_with_fields [simp]:
  "decrypt_with xc g (received s f) ct = decrypt_with xc g s ct"
  "decrypt_with xc GEN_ACTIVE (close_handoff u t) ct = decrypt_with xc GEN_ACTIVE t ct"
  by (cases g) (simp_all add: decrypt_with_def)

lemma accepted_frame:
  assumes "session_inv s" "process_frame xc f s r = (COMMAND, s', r')"
  obtains g where "context_of g s \<in> generations s"
    "seq_matches (context_of g s) (frame_header_of f)"
    "hdr_key_id (frame_header_of f) = slot_id s" "HEADER_LEN < length f"
    "decrypt_with xc g s (drop HEADER_LEN f) = Some (session_plaintext s')"
    "command s' = decode_lock_command (session_plaintext s')"
    "plaintext_size s' = length (session_plaintext s')"
    "response_iv s' = ctx_iv (context_of g s)" "response_iv_valid s'"
    "header s' = frame_header_of f" "aes_key s' = aes_key s" "slot_id s' = slot_id s"
    "is_action (command s') \<longrightarrow>
      \<not> is_replayed_ciphertext (context_of g s) (drop HEADER_LEN f)"
  using assms(2)
proof (cases rule: process_frame_cases)
  case (payload u)
  note frame = payload_frame [OF payload(8)]
  from assms(1) payload(6-8) show ?thesis
  proof (cases rule: payload_generation_cases)
    case pending
    with accepted_pending [OF pending(1)] payload frame show ?thesis
      by (intro that [of GEN_PENDING]) (auto simp: generations_iff)
  next
    case (current t)
    with accepted_current [OF current(1)] payload frame show ?thesis
      by (intro that [of GEN_ACTIVE]) (auto simp: generations_iff)
  next
    case predecessor
    with accepted_predecessor [OF predecessor(1)] payload frame show ?thesis
      by (intro that [of GEN_ACTIVE]) (auto simp: generations_iff action_not_poll)
  next
    case retired
    with accepted_retired [OF retired(1)] payload frame show ?thesis
      by (intro that [of GEN_RETIRED]) (auto simp: generations_iff action_not_poll)
  qed
qed simp_all

subsection \<open>Runs keep the invariant\<close>

lemma apply_input_inv:
  "session_inv s \<Longrightarrow> apply_input xc i (s, r) = (a, s', r') \<Longrightarrow> session_inv s'"
  by (cases i) (auto intro: session_inv_process_frame session_inv_reset_transport session_inv_unpair)

lemma generations_reset [simp]:
  "generations (forget_slot (reset_session s)) = {}"
  by (auto simp: generations_def forget_slot_def reset_session_def reset_transport_def
      clear_transient_def Let_def)

lemma evolves_transport: "evolves a ct s (reset_transport s)"
  by (rule evolvesI)
    (auto simp: reset_transport_def clear_transient_def Let_def
      intro!: generationsI bexI continues_intros)

subsection \<open>Replay protection\<close>

text \<open>
  \<open>shielded k ct h v s\<close>: every generation that a frame with header \<open>h\<close> could select has IV \<open>v\<close> and
  holds the ciphertext \<open>ct\<close> among its \<open>k + 1\<close> most recent entries.
\<close>

definition shielded ::
  "nat \<Rightarrow> byte list \<Rightarrow> frame_header \<Rightarrow> byte list \<Rightarrow> lock_session \<Rightarrow> bool" where
  "shielded k ct h v s \<longleftrightarrow>
    (\<forall>c \<in> generations s. seq_matches c h \<longrightarrow>
      ctx_iv c = v \<and> ct \<in> set (take (Suc k) (recent_ciphertexts c)))"

lemma in_take_mono: "x \<in> set (take m xs) \<Longrightarrow> m \<le> n \<Longrightarrow> x \<in> set (take n xs)"
  by (metis set_take_subset_set_take subsetD)

lemma in_take_push:
  assumes "x \<in> set (take (Suc k) xs)" "Suc k < n"
  shows "x \<in> set (take (Suc (Suc k)) (take n (y # xs)))"
  using assms by (cases n) (auto simp: min_def)

lemma shielded_evolves:
  assumes "session_inv s" "evolves a ct' s s'" "shielded k ct h v s"
    and "accepted_action (a, s') \<Longrightarrow> Suc k < REPLAY_HISTORY_SIZE"
  shows "shielded (if accepted_action (a, s') then Suc k else k) ct h v s'"
  unfolding shielded_def
proof (intro ballI impI)
  fix c' assume c': "c' \<in> generations s'" "seq_matches c' h"
  obtain c where c: "c \<in> generations s" "continues a ct' s' c c'"
    using assms(2) c'(1) unfolding evolves_def by blast
  have "seq_matches c h"
    using c' c by (simp add: seq_matches_def generations_iff continues_def)
  then have old: "ctx_iv c = v" "ct \<in> set (take (Suc k) (recent_ciphertexts c))"
    using assms(3) c(1) by (simp_all add: shielded_def)
  have wf: "window_ok c"
    using assms(1) c(1) by (auto simp: session_inv_defs generations_iff context_wf_def)
  from c(2) consider "recent_ciphertexts c' = recent_ciphertexts c"
    | "accepted_action (a, s')" "recent_ciphertexts c' = recent_ciphertexts (record_ciphertext c ct')"
    by (auto simp: continues_def accepted_action_def)
  then have "ct \<in> set (take (Suc (if accepted_action (a, s') then Suc k else k)) (recent_ciphertexts c'))"
  proof cases
    case 1
    with old show ?thesis by (auto intro: in_take_mono)
  next
    case 2
    show ?thesis
    proof (cases "storable ct'")
      case True
      with 2 old(2) assms(4) wf show ?thesis by (simp add: recent_record in_take_push)
    next
      case False
      then have "record_ciphertext c ct' = c"
        by (auto simp: record_ciphertext_def storable_def Let_def)
      with 2 old(2) show ?thesis by (auto intro: in_take_mono)
    qed
  qed
  with c(2) old(1) show "ctx_iv c' = v \<and>
      ct \<in> set (take (Suc (if accepted_action (a, s') then Suc k else k)) (recent_ciphertexts c'))"
    by (simp add: continues_def)
qed


lemma recent_record_hd:
  "context_wf c \<Longrightarrow> storable ct \<Longrightarrow>
    ct \<in> set (take (Suc 0) (recent_ciphertexts (record_ciphertext c ct)))"
  by (simp add: context_wf_def recent_record REPLAY_HISTORY_SIZE_def)

lemma storable_decrypted:
  "decrypt_with xc g s ct = Some pt \<Longrightarrow> ct \<noteq> [] \<Longrightarrow> storable ct"
  by (auto simp: decrypt_with_def storable_def split: if_splits)

lemma seq_matches_distinct:
  "seq_matches c h \<Longrightarrow> seq_matches c' h \<Longrightarrow> same_seq (ctx_iv c) (ctx_iv c')"
  by (simp add: seq_matches_def same_seq_def)

lemma shielded_accept:
  assumes inv: "session_inv s" and acc: "process_frame xc f s r = (COMMAND, s', r')"
    and act: "is_action (command s')"
  shows "shielded 0 (drop HEADER_LEN f) (frame_header_of f) (response_iv s') s'"
  using acc
proof (cases rule: process_frame_cases)
  case (payload u)
  let ?ct = "drop HEADER_LEN f"
  have ne: "?ct \<noteq> []" using payload(2) by simp
  have wf: "context_wf (active s)" "context_wf (pending s)"
    using inv by (simp_all add: session_inv_defs)
  from inv payload(6-8) show ?thesis
  proof (cases rule: payload_generation_cases)
    case pending
    from accepted_pending [OF pending(1)] act wf ne show ?thesis
      by (auto simp: shielded_def generations_iff recent_record_hd dest!: storable_decrypted)
  next
    case (current t)
    then have t: "active t = active s" "pending t = pending s" by simp_all
    from accepted_current [OF current(1)] act wf ne t current(5,6) show ?thesis
      by (auto simp: shielded_def generations_iff recent_record_hd dest!: storable_decrypted)
  next
    case predecessor
    then have "\<not> seq_matches (pending s) (frame_header_of f)"
      using inv by (auto simp: session_inv_defs dest: seq_matches_distinct)
    with accepted_predecessor [OF predecessor(1)] act wf ne predecessor(4,5) show ?thesis
      by (auto simp: shielded_def generations_iff recent_record_hd action_not_poll
          dest!: storable_decrypted)
  next
    case retired
    then have "\<not> seq_matches (active s) (frame_header_of f)"
      using inv by (auto simp: session_inv_defs dest: seq_matches_distinct)
    with accepted_retired [OF retired(1)] retired(4) show ?thesis
      by (auto simp: shielded_def generations_iff)
  qed
qed simp_all

lemma shielded_blocks:
  assumes inv: "session_inv s" and sh: "shielded k (drop HEADER_LEN f) (frame_header_of f) v s"
    and dec: "xc (aes_key s) v (drop HEADER_LEN f) = Some pt" "is_action (decode_lock_command pt)"
    and run: "process_frame xc f s r = (a, s', r')"
  shows "a \<noteq> COMMAND"
proof
  assume "a = COMMAND"
  with run have acc: "process_frame xc f s r = (COMMAND, s', r')" by simp
  show False
    using inv acc
  proof (cases rule: accepted_frame)
    case (1 g)
    let ?c = "context_of g s" and ?ct = "drop HEADER_LEN f"
    have iv: "ctx_iv ?c = v" and "?ct \<in> set (take (Suc k) (recent_ciphertexts ?c))"
      using sh 1(1,2) by (auto simp: shielded_def)
    then have recent: "?ct \<in> set (recent_ciphertexts ?c)" by (auto dest: in_set_takeD)
    have wf: "window_ok ?c"
      using inv by (cases g) (simp_all add: session_inv_defs context_wf_def)
    have st: "storable ?ct" using 1(4,5) by (simp add: storable_decrypted)
    have "session_plaintext s' = pt"
      using 1(5) iv dec(1) by (auto simp: decrypt_with_def split: if_splits)
    with 1(6,13) dec(2) have "\<not> is_replayed_ciphertext ?c ?ct" by simp
    with replayed_iff_recent [OF wf st] recent show False by simp
  qed
qed

lemma apply_input_key: "apply_input xc i (s, r) = (a, s', r') \<Longrightarrow> session_inv s \<Longrightarrow> aes_key s' = aes_key s"
proof (cases i)
  case (RxFrame f)
  assume run: "apply_input xc i (s, r) = (a, s', r')"
  then have "process_frame xc f s r = (a, s', r')" by (simp add: RxFrame)
  then show ?thesis
  proof (cases rule: process_frame_cases)
    case iv_request
    then show ?thesis
      by (auto simp: process_iv_request_def ensure_pending_iv_def Let_def case_prod_beta
          split: if_splits)
  next
    case (payload u)
    from payload_frame [OF payload(8)] show ?thesis by simp
  qed auto
qed (auto simp: reset_transport_def reset_session_def forget_slot_def clear_transient_def Let_def)

lemma apply_input_evolves:
  assumes "session_inv s" "\<not> requests_iv i" "apply_input xc i (s, r) = (a, s', r')"
  shows "\<exists>ct. evolves a ct s s'"
proof (cases i)
  case (RxFrame f)
  with assms frame_evolves [of s f xc r a s' r'] show ?thesis by (auto simp: requests_iv_def)
next
  case TransportReset
  with assms(3) show ?thesis by (auto intro: evolves_transport)
next
  case Unpair
  with assms(3) show ?thesis by (auto simp: evolves_def)
qed

lemma shielded_run:
  assumes "session_inv s" "shielded k ct h v s" "list_all (\<lambda>i. \<not> requests_iv i) is"
    and "k + length (filter accepted_action (session_trace xc is (s, r))) < REPLAY_HISTORY_SIZE"
    and "session_run xc is (s, r) = (s', r')"
  shows "\<exists>k'. shielded k' ct h v s' \<and> session_inv s' \<and> aes_key s' = aes_key s"
  using assms
proof (induction "is" arbitrary: s r k)
  case Nil
  then show ?case by auto
next
  case (Cons i "is")
  obtain a t r1 where step: "apply_input xc i (s, r) = (a, t, r1)" by (metis prod_cases3)
  obtain ct' where ev: "evolves a ct' s t"
    using apply_input_evolves [OF Cons.prems(1) _ step] Cons.prems(3) by auto
  let ?k = "if accepted_action (a, t) then Suc k else k"
  have "shielded ?k ct h v t"
    using Cons.prems step ev by (intro shielded_evolves) auto
  moreover have "session_inv t" using Cons.prems(1) step by (rule apply_input_inv)
  moreover have "?k + length (filter accepted_action (session_trace xc is (t, r1))) < REPLAY_HISTORY_SIZE"
    using Cons.prems(4) step by (simp split: if_splits)
  ultimately obtain k' where "shielded k' ct h v s'" "session_inv s'" "aes_key s' = aes_key t"
    using Cons.IH [of t ?k r1] Cons.prems(3,5) step by auto
  with apply_input_key [OF step Cons.prems(1)] show ?case by auto
qed

text \<open>
  C2. Replay protection along a run: once a frame has been accepted as a LOCK or UNLOCK in any
  reachable session, the very same frame is dropped for as long as no new IV is negotiated and fewer
  than eight further actions have been accepted, whatever other frames, transport resets and
  un-pairings happen in between.
\<close>

theorem replay_rejected_within_window:
  assumes "session_reachable xc s"
    and "process_frame xc f s r = (COMMAND, s1, r1)" and "is_action (command s1)"
    and "list_all (\<lambda>i. \<not> requests_iv i) is"
    and "length (filter accepted_action (session_trace xc is (s1, r1))) < REPLAY_HISTORY_SIZE"
    and "session_run xc is (s1, r1) = (s2, r2)"
  shows "fst (process_frame xc f s2 r2) = ACTION_NONE"
proof -
  have inv: "session_inv s" using assms(1) by (rule session_reachable_inv)
  have inv1: "session_inv s1" using inv assms(2) by (rule session_inv_process_frame)
  obtain k where sh: "shielded k (drop HEADER_LEN f) (frame_header_of f) (response_iv s1) s2"
      and inv2: "session_inv s2" and key: "aes_key s2 = aes_key s1"
    using shielded_run [OF inv1 shielded_accept [OF inv assms(2,3)] assms(4) _ assms(6)] assms(5) by auto
  obtain a s3 r3 where run: "process_frame xc f s2 r2 = (a, s3, r3)" by (metis prod_cases3)
  from inv assms(2) have "xc (aes_key s2) (response_iv s1) (drop HEADER_LEN f) = Some (session_plaintext s1)"
      "is_action (decode_lock_command (session_plaintext s1))"
    using key assms(3)
    by (auto elim!: accepted_frame simp: decrypt_with_def split: if_splits)
  then have "a \<noteq> COMMAND" by (rule shielded_blocks [OF inv2 sh _ _ run])
  moreover have "\<not> is_iv_request f"
    using assms(2) by (cases rule: process_frame_cases) auto
  ultimately show ?thesis
    using run by (cases a) (auto elim!: process_frame_cases dest: payload_not_iv)
qed

theorem replay_rejected_within_window_witness:
  "fst (apply_input stub_xcrypt (RxFrame (pin_frame 0x10))
    (session_run stub_xcrypt [RxFrame (pin_frame 0x10), TransportReset, poll_input 0x10]
      (vision_session (sconst 0)))) = ACTION_NONE"
proof -
  define r :: rng where "r = sconst 0"
  let ?c = "vision_session r" and ?f = "pin_frame 0x10"
  obtain a s1 r1 where acc: "process_frame stub_xcrypt ?f (fst ?c) (snd ?c) = (a, s1, r1)"
    by (metis prod_cases3)
  have "fst (process_frame stub_xcrypt ?f (fst ?c) (snd ?c)) = COMMAND \<and>
      is_action (command (fst (snd (process_frame stub_xcrypt ?f (fst ?c) (snd ?c)))))"
    by code_simp
  with acc have cmd: "process_frame stub_xcrypt ?f (fst ?c) (snd ?c) = (COMMAND, s1, r1)"
      "is_action (command s1)"
    by simp_all
  let ?is = "[TransportReset, poll_input 0x10]"
  obtain s2 r2 where run: "session_run stub_xcrypt ?is (s1, r1) = (s2, r2)" by (metis prod.exhaust)
  have quiet: "list_all (\<lambda>i. \<not> requests_iv i) ?is"
    by (simp add: requests_iv_def poll_input_def encrypted_frame_def make_iv_def is_iv_request_def)
  have few: "length (filter accepted_action (session_trace stub_xcrypt ?is (s1, r1))) <
      REPLAY_HISTORY_SIZE"
    by (rule le_less_trans [OF length_filter_le]) (simp add: REPLAY_HISTORY_SIZE_def Let_def case_prod_beta)
  have "fst (process_frame stub_xcrypt ?f s2 r2) = ACTION_NONE"
    by (rule replay_rejected_within_window [OF vision_session_reachable cmd quiet few run])
  moreover have "session_run stub_xcrypt (RxFrame ?f # ?is) ?c = (s2, r2)"
    using cmd run by (cases ?c) simp
  ultimately show ?thesis by (simp add: r_def)
qed

definition index_unlock :: "byte \<Rightarrow> byte list" where
  "index_unlock i =
    encrypted_frame (make_iv 0x10) [0x0F, 0x4E, 0x01, 0x03, 0x04, 0x80, i, 0x00] 0xC6"

definition eviction_inputs :: "session_input list" where
  "eviction_inputs = map (RxFrame \<circ> index_unlock) [1, 1, 2, 3, 4, 5, 6, 7, 8, 9, 1]"

text \<open>
  The limit of the replay filter: with the cipher of the repository's tests, a frame accepted as
  an unlock is rejected while it is in the window, and the identical frame is accepted a second time
  after eight further unlocks in the same session, although no new IV has been negotiated.
\<close>

theorem replayed_frame_accepted_after_eviction:
  "map fst (session_trace stub_xcrypt eviction_inputs (vision_session r)) =
    [COMMAND, ACTION_NONE, COMMAND, COMMAND, COMMAND, COMMAND, COMMAND, COMMAND, COMMAND, COMMAND,
     COMMAND]"
  by code_simp

end
