(* ===== verification/Session_Handoff.thy ===== *)
theory Session_Handoff
  imports Session_Safety
begin

text \<open>
  The Fast Unlock hand-off: how many commands a run can admit under a superseded IV, and which
  commands those are. The argument is a potential: the one-shot allowance is a credit that only the
  opening of a new generation grants and that every late admission spends.
\<close>

subsection \<open>Late admissions and the allowance that pays for them\<close>

definition newest_iv :: "lock_session \<Rightarrow> byte list" where
  "newest_iv s = (if ctx_valid (pending s) then ctx_iv (pending s) else ctx_iv (active s))"

text \<open>A step that admits a command (anything but a poll) under an IV that has been superseded.\<close>

fun late_step :: "lock_session \<times> action \<times> lock_session \<Rightarrow> bool" where
  "late_step (s, a, s') \<longleftrightarrow> a = COMMAND \<and> cmd_type (command s') \<noteq> CMD_STATE_POLL \<and>
    response_iv s' \<noteq> newest_iv s"

text \<open>A step that opens a new generation: an IV request that is not a retry.\<close>

fun opening_step :: "lock_session \<times> action \<times> lock_session \<Rightarrow> bool" where
  "opening_step (s, a, s') \<longleftrightarrow>
    a = SEND_IV \<and> \<not> (ctx_valid (pending s) \<and> slot_id s' = slot_id s)"

definition late_credit :: "lock_session \<Rightarrow> bool" where
  "late_credit s \<longleftrightarrow> late_action_allowed (active s) \<or>
    ctx_valid (retired s) \<and> late_action_allowed (retired s)"

abbreviation credit :: "lock_session \<Rightarrow> nat" where "credit s \<equiv> of_bool (late_credit s)"

lemma iv_request_credit:
  assumes "process_iv_request f t r = (s', r')" "session_inv t"
  shows "late_credit s' \<longrightarrow> late_credit t \<or> \<not> (ctx_valid (pending t) \<and> slot_id s' = slot_id t)"
  using assms
  by (auto simp: process_iv_request_def ensure_pending_iv_def late_credit_def Let_def
      case_prod_beta split: if_splits)

lemma late_credit_received [simp]:
  "late_credit (received s f) = late_credit s" "late_credit (clear_transient s) = late_credit s"
  by (simp_all add: late_credit_def)

lemma credit_pending:
  assumes "process_payload xc only_pending ct s = (a, s')" "ctx_valid (pending s)" "session_inv s"
  shows "late_credit s' \<longrightarrow> late_credit s" 
  using outcome_pending [OF assms(1)] assms(2,3)
  by (auto simp: late_credit_def session_inv_defs)

lemma credit_current:
  assumes "process_payload xc only_active ct s = (a, s')" "\<not> ctx_valid (pending s)"
  shows "late_credit s' \<longrightarrow> late_credit s"
  using outcome_current [OF assms] by (auto simp: late_credit_def)

lemma credit_predecessor:
  assumes "process_payload xc only_active ct s = (a, s')" "ctx_valid (pending s)" "\<not> ctx_valid (retired s)"
  shows "late_credit s' \<longrightarrow> late_credit s"
    "a = COMMAND \<Longrightarrow> cmd_type (command s') \<noteq> CMD_STATE_POLL \<Longrightarrow> late_credit s \<and> \<not> late_credit s'"
proof -
  show "late_credit s' \<longrightarrow> late_credit s"
    using outcome_predecessor [OF assms(1,2)] by (auto simp: late_credit_def)
  assume "a = COMMAND" "cmd_type (command s') \<noteq> CMD_STATE_POLL"
  with accepted_predecessor [of xc ct s s'] assms
  show "late_credit s \<and> \<not> late_credit s'" by (auto simp: late_credit_def)
qed

lemma credit_retired:
  assumes "process_payload xc only_retired ct s = (a, s')" "\<not> ctx_valid (pending s)" "session_inv s"
    "ctx_valid (retired s)"
  shows "late_credit s' \<longrightarrow> late_credit s"
    "a = COMMAND \<Longrightarrow> cmd_type (command s') \<noteq> CMD_STATE_POLL \<Longrightarrow> late_credit s \<and> \<not> late_credit s'"
proof -
  show "late_credit s' \<longrightarrow> late_credit s"
    using outcome_retired [OF assms(1,2)] by (auto simp: late_credit_def)
  assume "a = COMMAND" "cmd_type (command s') \<noteq> CMD_STATE_POLL"
  with accepted_retired [of xc ct s s'] assms
  show "late_credit s \<and> \<not> late_credit s'" by (auto simp: late_credit_def session_inv_defs)
qed

lemma late_credit_close: "late_credit (close_handoff u s) \<Longrightarrow> late_credit s"
  by (auto simp: late_credit_def close_handoff_def split: if_splits)

text \<open>What a late step is: a Fast Unlock on the Vision slot, paid for with the allowance.\<close>

lemma late_frame:
  assumes inv: "session_inv s" and run: "process_frame xc f s r = (COMMAND, s', r')"
    and late: "late_step (s, COMMAND, s')"
  shows "late_credit s \<and> \<not> late_credit s' \<and> is_fast_unlock_action (command s') \<and>
    slot_id s = VISION_KEY_SLOT"
  using run
proof (cases rule: process_frame_cases)
  case (payload u)
  have vision: "late_credit s \<Longrightarrow> slot_id s = VISION_KEY_SLOT"
    using inv by (auto simp: session_inv_defs late_credit_def)
  from inv payload(6-8) show ?thesis
  proof (cases rule: payload_generation_cases)
    case pending
    with accepted_pending [OF pending(1)] late show ?thesis by (simp add: newest_iv_def)
  next
    case (current t)
    with accepted_current [OF current(1)] late show ?thesis by (simp add: newest_iv_def)
  next
    case predecessor
    from accepted_predecessor [OF predecessor(1)] predecessor late
    have "is_fast_unlock_action (command s')" by auto
    moreover from credit_predecessor(2) [OF predecessor(1)] predecessor late
    have "late_credit s \<and> \<not> late_credit s'" by simp
    ultimately show ?thesis using vision by blast
  next
    case retired
    from accepted_retired [OF retired(1)] retired late
    have "is_fast_unlock_action (command s')" by auto
    moreover from credit_retired(2) [OF retired(1)] retired late inv
    have "late_credit s \<and> \<not> late_credit s'" by simp
    ultimately show ?thesis using vision by blast
  qed
qed simp_all

lemma frame_credit:
  assumes inv: "session_inv s" and run: "process_frame xc f s r = (a, s', r')"
  shows "late_credit s' \<longrightarrow> late_credit s \<or> opening_step (s, a, s')"
  using run
proof (cases rule: process_frame_cases)
  case iv_request
  with iv_request_credit [OF iv_request(3)] inv show ?thesis by simp
next
  case rejected
  then show ?thesis by auto
next
  case (payload u)
  from inv payload(6-8) show ?thesis
  proof (cases rule: payload_generation_cases)
    case pending
    with credit_pending [OF pending(1)] inv show ?thesis by simp
  next
    case (current t)
    with credit_current [OF current(1)] show ?thesis by (auto dest: late_credit_close)
  next
    case predecessor
    with credit_predecessor(1) [OF predecessor(1)] show ?thesis by simp
  next
    case retired
    with credit_retired(1) [OF retired(1)] inv show ?thesis by simp
  qed
qed

lemma input_credit:
  assumes inv: "session_inv s" and run: "apply_input xc i (s, r) = (a, s', r')"
  shows "of_bool (late_step (s, a, s')) + credit s' \<le> credit s + (of_bool (opening_step (s, a, s')) :: nat)"
proof (cases i)
  case (RxFrame f)
  with run have frame: "process_frame xc f s r = (a, s', r')" by simp
  show ?thesis
  proof (cases "late_step (s, a, s')")
    case True
    then have "a = COMMAND" by simp
    with late_frame [OF inv, of xc f r s' r'] frame True show ?thesis by auto
  next
    case False
    with frame_credit [OF inv frame] show ?thesis by auto
  qed
qed (use run in \<open>auto simp: late_credit_def reset_transport_def reset_session_def forget_slot_def
      clear_transient_def Let_def\<close>)

subsection \<open>Properties\<close>

text \<open>
  C11. One-shot Fast Unlock: along any run of a reachable session, the number of commands other than
  polls that are admitted under a superseded IV is at most the number of new generations opened in
  the run, plus one if the allowance was already armed at its start. Retries of an IV request do not
  re-arm it.
\<close>

theorem late_admissions_bounded:
  assumes "session_reachable xc s"
  shows "length (filter late_step (session_log xc is (s, r)))
    \<le> credit s + length (filter opening_step (session_log xc is (s, r)))"
  using session_reachable_inv [OF assms]
proof (induction "is" arbitrary: s r)
  case (Cons i "is")
  obtain a t r1 where step: "apply_input xc i (s, r) = (a, t, r1)" by (metis prod_cases3)
  have "length (filter late_step (session_log xc is (t, r1)))
      \<le> credit t + length (filter opening_step (session_log xc is (t, r1)))"
    using Cons step by (intro Cons.IH) (rule apply_input_inv)
  with input_credit [OF Cons.prems step] show ?case
    using step by (auto simp del: late_step.simps opening_step.simps split: if_splits)
qed simp

text \<open>
  The hand-off run of the tests: a poll under the first IV, a second IV request, then the late
  unlock under the first IV, and the same PIN unlock once more.
\<close>

definition handoff_inputs :: "session_input list" where
  "handoff_inputs = [poll_input 0x10, RxFrame (iv_request_frame 0xC6),
    RxFrame (encrypted_frame (make_iv 0x10) TEST_FINGERPRINT_UNLOCK 0xC6), RxFrame (pin_frame 0x10)]"

definition handoff_start :: "rng \<Rightarrow> lock_session \<times> rng" where
  "handoff_start r = session_run stub_xcrypt [RxFrame (iv_request_frame 0xC6)]
    (fst (vision_start r), queue_iv (make_iv 0x10) (queue_iv (make_iv 0x30) r))"

lemma handoff_start_reachable: "session_reachable stub_xcrypt (fst (handoff_start r))"
  unfolding handoff_start_def
  by (rule session_reachable_run) (simp add: vision_start_reachable)

lemma handoff_trace:
  "map fst (session_trace stub_xcrypt handoff_inputs (handoff_start r)) =
    [COMMAND, SEND_IV, COMMAND, ACTION_NONE]"
  by code_simp

lemma handoff_counts:
  "length (filter late_step (session_log stub_xcrypt handoff_inputs (handoff_start r))) = 1"
  "length (filter opening_step (session_log stub_xcrypt handoff_inputs (handoff_start r))) = 1"
  by code_simp+

text \<open>The bound is attained by the hand-off run.\<close>

theorem late_admissions_bounded_witness:
  "length (filter late_step (session_log stub_xcrypt handoff_inputs (handoff_start (sconst 0)))) = 1 \<and>
    (1::nat) \<le> credit (fst (handoff_start (sconst 0))) + 1"
  using late_admissions_bounded [OF handoff_start_reachable,
      of handoff_inputs "sconst 0" "snd (handoff_start (sconst 0))"]
  by (simp add: handoff_counts)

text \<open>
  C27. What is admitted late: only an UNLOCK with a known credential method, only on the Vision key
  slot, only while the allowance is armed, and the admission disarms it.
\<close>

theorem late_admission_is_fast_unlock:
  assumes "session_reachable xc s" "process_frame xc f s r = (COMMAND, s', r')"
    and "late_step (s, COMMAND, s')"
  shows "late_credit s \<and> \<not> late_credit s' \<and> cmd_type (command s') = CMD_UNLOCK \<and>
    is_known_method (cmd_method (command s')) \<and> hdr_key_id (header s') = VISION_KEY_SLOT"
proof -
  have inv: "session_inv s" using assms(1) by (rule session_reachable_inv)
  have "hdr_key_id (header s') = slot_id s"
    using accepted_frame [OF inv assms(2)] by metis
  with late_frame [OF inv assms(2,3)] show ?thesis by (simp add: is_fast_unlock_action_def)
qed

definition late_state :: "rng \<Rightarrow> lock_session \<times> rng" where
  "late_state r = session_run stub_xcrypt (take 2 handoff_inputs) (handoff_start r)"

lemma late_state_reachable: "session_reachable stub_xcrypt (fst (late_state r))"
  unfolding late_state_def by (rule session_reachable_run [OF handoff_start_reachable])

theorem late_admission_is_fast_unlock_witness:
  "late_credit (fst (late_state (sconst 0)))"
proof -
  define r :: rng where "r = sconst 0"
  let ?f = "encrypted_frame (make_iv 0x10) TEST_FINGERPRINT_UNLOCK 0xC6" and ?c = "late_state r"
  obtain a s' r' where step: "process_frame stub_xcrypt ?f (fst ?c) (snd ?c) = (a, s', r')"
    by (metis prod_cases3)
  have "case ?c of (s, r0) \<Rightarrow> case process_frame stub_xcrypt ?f s r0 of
      (a, s', _) \<Rightarrow> a = COMMAND \<and> late_step (s, COMMAND, s')"
    by code_simp
  with step have "process_frame stub_xcrypt ?f (fst ?c) (snd ?c) = (COMMAND, s', r')"
      "late_step (fst ?c, COMMAND, s')"
    by (simp_all add: case_prod_beta)
  from late_admission_is_fast_unlock [OF late_state_reachable this] show ?thesis by (simp add: r_def)
qed

end
