(* ===== verification/Session_Negotiation.thy ===== *)
theory Session_Negotiation
  imports Session_Handoff
begin

text \<open>
  Where keys and IVs come from and go to: every accepted command runs under an IV the lock has
  advertised for the current slot, dropped frames expose nothing, responses use the generation of
  their request, and the negotiation itself (retries, new generations, slot changes, the bounded
  use of the random generator).
\<close>

subsection \<open>Provenance of the IV\<close>

lemma session_log_append:
  "session_log xc (is @ js) c = session_log xc is c @ session_log xc js (session_run xc is c)"
  by (induction "is" arbitrary: c) (auto simp: Let_def case_prod_beta)

lemma length_session_log [simp]: "length (session_log xc is c) = length is"
  by (induction "is" arbitrary: c) (auto simp: Let_def case_prod_beta)

lemma session_run_inv:
  "session_inv (fst c) \<Longrightarrow> session_inv (fst (session_run xc is c))"
proof (induction "is" arbitrary: c)
  case (Cons i "is")
  have "session_inv (fst (snd (apply_input xc i c)))"
    by (rule apply_input_inv [of "fst c" xc i "snd c" "fst (apply_input xc i c)" _
          "snd (snd (apply_input xc i c))"]) (use Cons.prems in simp_all)
  with Cons.IH show ?case by simp
qed simp

text \<open>
  Every valid generation after an input either continues one with the same IV and slot, or is the
  one an IV response has just advertised.
\<close>

lemma iv_request_generations:
  assumes "process_iv_request f t r = (s', r')" "session_inv t" "c' \<in> generations s'"
  shows "c' = pending s' \<or>
    slot_id s' = slot_id t \<and> (\<exists>c \<in> generations t. ctx_iv c' = ctx_iv c)"
  using assms
  by (auto simp: process_iv_request_def ensure_pending_iv_def generations_iff Let_def
      case_prod_beta session_inv_defs split: if_splits)

lemma input_provenance:
  assumes "session_inv s" "apply_input xc i (s, r) = (a, s', r')" "c' \<in> generations s'"
  shows "a = SEND_IV \<and> drop IV_RESPONSE_HEADER (iv_response s') = ctx_iv c' \<or>
    i \<noteq> Unpair \<and> slot_id s' = slot_id s \<and> (\<exists>c \<in> generations s. ctx_iv c' = ctx_iv c)"
proof (cases "requests_iv i")
  case True
  then obtain f where i: "i = RxFrame f" and f: "is_iv_request f"
    by (auto simp: requests_iv_def split: session_input.splits)
  then have step: "a = SEND_IV" "process_iv_request f (clear_transient s) r = (s', r')"
    using assms(2) by (auto simp: process_frame_def Let_def split: prod.splits)
  have "c' = pending s' \<Longrightarrow> drop IV_RESPONSE_HEADER (iv_response s') = ctx_iv c'"
    using apply_input_inv [OF assms(1,2)] assms(3) by (auto simp: session_inv_defs generations_iff)
  with iv_request_generations [OF step(2) _ assms(3)] step(1) assms(1) i show ?thesis by auto
next
  case False
  obtain ct where "evolves a ct s s'" using apply_input_evolves [OF assms(1) False assms(2)] by blast
  then have old: "\<exists>c \<in> generations s. ctx_iv c' = ctx_iv c"
    using assms(3) by (auto simp: evolves_def continues_def)
  have "i \<noteq> Unpair" using assms(2,3) by auto
  moreover have "slot_id s' = slot_id s"
  proof (cases i)
    case (RxFrame f)
    with assms(2) False have "process_frame xc f s r = (a, s', r')" "\<not> is_iv_request f"
      by (simp_all add: requests_iv_def)
    then show ?thesis
      by (cases rule: process_frame_cases) (auto dest: payload_frame)
  next
    case TransportReset
    with assms(2) show ?thesis by (auto simp: reset_transport_def clear_transient_def Let_def)
  qed (use \<open>i \<noteq> Unpair\<close> in simp)
  ultimately show ?thesis using old by blast
qed

definition advertised ::
  "aes_ctr \<Rightarrow> session_input list \<Rightarrow> lock_session \<times> rng \<Rightarrow> byte \<Rightarrow> byte list \<Rightarrow> bool" where
  "advertised xc is c slot iv \<longleftrightarrow> (\<exists>m < length is. \<exists>u u'.
    session_log xc is c ! m = (u, SEND_IV, u') \<and> slot_id u' = slot \<and>
    drop IV_RESPONSE_HEADER (iv_response u') = iv \<and> Unpair \<notin> set (drop (Suc m) is))"

lemma advertised_snoc:
  assumes "advertised xc is c slot iv" "i \<noteq> Unpair"
  shows "advertised xc (is @ [i]) c slot iv"
proof -
  obtain m u u' where "m < length is" "session_log xc is c ! m = (u, SEND_IV, u')"
      "slot_id u' = slot" "drop IV_RESPONSE_HEADER (iv_response u') = iv"
      "Unpair \<notin> set (drop (Suc m) is)"
    using assms(1) unfolding advertised_def by blast
  then show ?thesis
    unfolding advertised_def using assms(2)
    by (intro exI [of _ m] conjI exI [of _ u] exI [of _ u'])
      (simp_all add: session_log_append nth_append)
qed

lemma advertised_now:
  "apply_input xc i (session_run xc is c) = (SEND_IV, s', r') \<Longrightarrow>
    advertised xc (is @ [i]) c (slot_id s') (drop IV_RESPONSE_HEADER (iv_response s'))"
  unfolding advertised_def by (rule exI [of _ "length is"]) (simp add: session_log_append nth_append)

lemma session_run_snoc: "session_run xc (is @ [i]) c = snd (apply_input xc i (session_run xc is c))"
  by (induction "is" arbitrary: c) simp_all

lemma generations_advertised:
  assumes "session_inv (fst c)" "generations (fst c) = {}"
    and "g \<in> generations (fst (session_run xc is c))"
  shows "advertised xc is c (slot_id (fst (session_run xc is c))) (ctx_iv g)"
  using assms(3)
proof (induction "is" arbitrary: g rule: rev_induct)
  case Nil
  with assms(2) show ?case by simp
next
  case (snoc i "is")
  let ?t = "session_run xc is c"
  obtain s r where t: "?t = (s, r)" by (metis prod.exhaust)
  obtain a s' r' where step: "apply_input xc i (s, r) = (a, s', r')" by (metis prod_cases3)
  have inv: "session_inv s" using session_run_inv [OF assms(1), of xc "is"] t by simp
  from snoc.prems have g: "g \<in> generations s'" by (simp add: session_run_snoc t step)
  from input_provenance [OF inv step g] show ?case
  proof (elim disjE conjE bexE)
    assume "a = SEND_IV" and iv: "drop IV_RESPONSE_HEADER (iv_response s') = ctx_iv g"
    then have "apply_input xc i ?t = (SEND_IV, s', r')" using t step by simp
    from advertised_now [OF this] iv show ?thesis by (simp add: session_run_snoc t step)
  next
    fix h
    assume "i \<noteq> Unpair" "slot_id s' = slot_id s" "h \<in> generations s" "ctx_iv g = ctx_iv h"
    with snoc.IH [of h] t show ?thesis by (simp add: session_run_snoc step advertised_snoc)
  qed
qed



subsection \<open>Dropped frames\<close>

text \<open>
  C32. A frame that is not accepted as a command leaves nothing to read or to answer: the exposed
  plaintext is empty and \<open>encrypt_response\<close> refuses every response, whatever the session held before.
\<close>

theorem dropped_frame_exposes_nothing:
  assumes "process_frame xc f s r = (a, s', r')" "a \<noteq> COMMAND"
  shows "session_plaintext s' = [] \<and> encrypt_response xc h pt s' = None"
proof -
  have "plaintext_size s' = 0 \<and> \<not> response_iv_valid s'"
    using assms(1)
  proof (cases rule: process_frame_cases)
    case iv_request
    then show ?thesis
      by (auto simp: process_iv_request_def ensure_pending_iv_def Let_def case_prod_beta
          split: if_splits)
  next
    case rejected
    then show ?thesis by auto
  next
    case (payload u)
    have "a = ACTION_NONE" using assms(2) payload_not_iv [OF payload(8)] by (cases a) auto
    with payload(8) payload_dropped show ?thesis by fastforce
  qed
  then show ?thesis
    by (simp add: session_plaintext_def encrypt_response_def)
qed

theorem dropped_frame_exposes_nothing_witness:
  "session_plaintext (clear_transient initial_session) = [] \<and>
    encrypt_response stub_xcrypt empty_header [0x81] (clear_transient initial_session) = None"
  by (rule dropped_frame_exposes_nothing [of stub_xcrypt "[]" initial_session "sconst 0" ACTION_NONE _ "sconst 0"])
    (simp_all add: process_frame_def is_iv_request_def session_consts)

subsection \<open>Responses\<close>

definition ctr_cipher :: "aes_ctr \<Rightarrow> bool" where
  "ctr_cipher xc \<longleftrightarrow> (\<forall>k iv x. length iv = AES_IV_SIZE \<longrightarrow> length x \<le> MAX_PAYLOAD \<longrightarrow>
    (\<exists>y. xc k iv x = Some y \<and> length y = length x \<and> xc k iv y = Some x))"

lemma response_round_trip:
  assumes "session_reachable xc s" "ctr_cipher xc"
    and "process_frame xc f s r = (COMMAND, s', r')" and "length resp \<le> MAX_PAYLOAD"
  shows "\<exists>iv ct. encrypt_response xc (header s') resp s' = Some ([0x01, f ! 1, f ! 2, f ! 3] @ ct) \<and>
    [f ! 2, f ! 3] = take 2 iv \<and>
    xc (aes_key s) iv (drop HEADER_LEN f) = Some (session_plaintext s') \<and>
    xc (aes_key s) iv ct = Some resp"
proof -
  have inv: "session_inv s" using assms(1) by (rule session_reachable_inv)
  from accepted_frame [OF inv assms(3)] obtain g where
    g: "seq_matches (context_of g s) (frame_header_of f)"
      "decrypt_with xc g s (drop HEADER_LEN f) = Some (session_plaintext s')"
      "response_iv s' = ctx_iv (context_of g s)" "response_iv_valid s'"
      "header s' = frame_header_of f" "aes_key s' = aes_key s"
    by metis
  let ?iv = "ctx_iv (context_of g s)"
  have len: "length ?iv = AES_IV_SIZE"
    using inv by (cases g) (simp_all add: session_inv_defs context_wf_def)
  then obtain ct where ct: "xc (aes_key s) ?iv resp = Some ct" "xc (aes_key s) ?iv ct = Some resp"
    using assms(2,4) unfolding ctr_cipher_def by blast
  have "take 2 ?iv = [?iv ! 0, ?iv ! 1]"
    using len by (simp add: AES_IV_SIZE_def numeral_2_eq_2 take_Suc_conv_app_nth)
  then have "[f ! 2, f ! 3] = take 2 ?iv"
    using g(1) by (simp add: seq_matches_def frame_header_of_def)
  moreover have "encrypt_response xc (header s') resp s' = Some ([0x01, f ! 1, f ! 2, f ! 3] @ ct)"
    using g ct(1) assms(4) by (simp add: encrypt_response_def seq_matches_def frame_header_of_def)
  moreover have "xc (aes_key s) ?iv (drop HEADER_LEN f) = Some (session_plaintext s')"
    using g(2) by (simp add: decrypt_with_def split: if_splits)
  ultimately show ?thesis using ct(2) by blast
qed

text \<open>
  C31. A response to an accepted command echoes the transport header of the request and is
  encrypted with the key and the IV the request was decrypted with, so that the keypad recovers the
  response under the generation it used, also when a newer one has been advertised meanwhile.
\<close>

theorem response_uses_request_iv:
  assumes "session_reachable xc s" "ctr_cipher xc"
    and "process_frame xc f s r = (COMMAND, s', r')" and "length resp \<le> MAX_PAYLOAD"
  shows "\<exists>iv ct. encrypt_response xc (header s') resp s' = Some ([0x01, f ! 1, f ! 2, f ! 3] @ ct) \<and>
    [f ! 2, f ! 3] = take 2 iv \<and>
    xc (aes_key s) iv (drop HEADER_LEN f) = Some (session_plaintext s') \<and>
    xc (aes_key s) iv ct = Some resp"
  using assms by (rule response_round_trip)

lemma stub_is_ctr_cipher: "ctr_cipher stub_xcrypt"
  unfolding ctr_cipher_def
proof (intro allI impI)
  fix k iv x
  obtain y where y: "stub_xcrypt k iv x = Some y" by (simp add: stub_xcrypt_def)
  with stub_xcrypt_involution [OF y]
  show "\<exists>y. stub_xcrypt k iv x = Some y \<and> length y = length x \<and> stub_xcrypt k iv y = Some x"
    by blast
qed

theorem response_uses_request_iv_witness:
  "\<exists>iv ct. encrypt_response stub_xcrypt \<lparr>hdr_key_id = 0xC6, hdr_seq_a = 0x10, hdr_seq_b = 0x11\<rparr>
      [0x81, 0x08, 0x08]
      (fst (snd (process_frame stub_xcrypt (pin_frame 0x10) (fst (vision_session (sconst 0)))
        (snd (vision_session (sconst 0)))))) = Some ([0x01, 0xC6, 0x10, 0x11] @ ct) \<and>
    stub_xcrypt TEST_KEY iv ct = Some [0x81, 0x08, 0x08]"
proof -
  define r :: rng where "r = sconst 0"
  let ?c = "vision_session r" and ?f = "pin_frame 0x10" and ?resp = "[0x81, 0x08, 0x08] :: byte list"
  obtain a s' r' where step: "process_frame stub_xcrypt ?f (fst ?c) (snd ?c) = (a, s', r')"
    by (metis prod_cases3)
  have "fst (process_frame stub_xcrypt ?f (fst ?c) (snd ?c)) = COMMAND \<and>
      header (fst (snd (process_frame stub_xcrypt ?f (fst ?c) (snd ?c)))) =
        \<lparr>hdr_key_id = 0xC6, hdr_seq_a = 0x10, hdr_seq_b = 0x11\<rparr> \<and>
      aes_key (fst ?c) = TEST_KEY"
    by code_simp
  with step have acc: "process_frame stub_xcrypt ?f (fst ?c) (snd ?c) = (COMMAND, s', r')"
      "header s' = \<lparr>hdr_key_id = 0xC6, hdr_seq_a = 0x10, hdr_seq_b = 0x11\<rparr>"
      "aes_key (fst ?c) = TEST_KEY"
    by simp_all
  have wire: "?f ! 1 = 0xC6" "?f ! 2 = 0x10" "?f ! 3 = 0x11" by code_simp+
  have "length ?resp \<le> MAX_PAYLOAD" by (simp add: MAX_PAYLOAD_def)
  from response_uses_request_iv [OF vision_session_reachable stub_is_ctr_cipher acc(1) this]
  show ?thesis unfolding acc(2,3) wire using acc(1) by (auto simp: r_def)
qed

subsection \<open>IV negotiation\<close>

text \<open>
  A repeated IV request for the same slot, while the advertised generation is unused, is
  answered with the same IV: no random word is drawn, and no context, allowance or replay window
  changes.
\<close>

theorem iv_retry_is_idempotent:
  assumes "session_reachable xc s" "is_iv_request f" "ctx_valid (pending s)" "f ! 7 = slot_id s"
  shows "process_frame xc f s r = (SEND_IV, clear_transient s, r)"
proof -
  have "session_inv s" using assms(1) by (rule session_reachable_inv)
  then have "publish_iv (ctx_iv (pending s)) (iv_response s) = iv_response s"
    using assms(3) append_take_drop_id [of 4 "iv_response s"]
    by (simp add: session_inv_defs publish_iv_def memcpy_at_def context_wf_def layout_simps)
  then show ?thesis
    using assms by (simp add: process_frame_def process_iv_request_def ensure_pending_iv_def Let_def)
qed

theorem iv_retry_is_idempotent_witness:
  "process_frame stub_xcrypt (iv_request_frame 0xC6) (fst (vision_session (sconst 0))) (sconst 7) =
    (SEND_IV, clear_transient (fst (vision_session (sconst 0))), sconst 7)"
proof -
  have "ctx_valid (pending (fst (vision_session r))) \<and>
      iv_request_frame 0xC6 ! 7 = slot_id (fst (vision_session r)) \<and>
      is_iv_request (iv_request_frame 0xC6)" for r
    by code_simp
  then show ?thesis by (simp add: iv_retry_is_idempotent vision_session_reachable)
qed

lemma fill_iv_loop_draws: "snd (fill_iv_loop n i iv r) = sdrop n r"
  by (induction n arbitrary: i iv r) (simp_all add: esp_random_def)

lemma fill_iv_draws [simp]: "snd (fill_iv iv r) = sdrop 4 r"
  by (simp add: fill_iv_def fill_iv_loop_draws AES_IV_SIZE_def)

lemma retry_iv_draws: "\<exists>m \<le> n. snd (retry_iv n act iv r) = sdrop (4 * m) r"
proof (induction n arbitrary: iv r)
  case (Suc n)
  obtain iv' r' where f: "fill_iv iv r = (iv', r')" by (metis prod.exhaust)
  then have "r' = sdrop 4 r" by (metis fill_iv_draws snd_conv)
  with Suc [of iv' r'] obtain m where "m \<le> n" "snd (retry_iv n act iv' r') = sdrop (4 * Suc m) r"
    by (auto simp: sdrop_add)
  then show ?case
    by (cases "ctx_valid act \<and> same_seq iv (ctx_iv act)")
      (auto simp: f intro: exI [of _ "Suc m"] exI [of _ 0])
qed simp

lemma fresh_iv_draws: "\<exists>m \<le> 5. 1 \<le> m \<and> snd (fresh_iv act iv r) = sdrop (4 * m) r"
proof -
  obtain m where "m \<le> 4" "snd (retry_iv 4 act (fst (fill_iv iv r)) (sdrop 4 r)) = sdrop (4 * m) (sdrop 4 r)"
    using retry_iv_draws by blast
  then show ?thesis
    by (intro exI [of _ "Suc m"]) (auto simp: fresh_iv_def case_prod_beta sdrop_add)
qed

text \<open>
  Any other IV request opens a generation for the requested slot: the response carries its IV
  behind the fixed header, its sequence bytes differ from the active generation's even with a broken
  random generator (at most 20 words are drawn), a slot change leaves no older generation, and the
  allowance is armed exactly for an active generation on the Vision slot.
\<close>

theorem iv_request_opens_generation:
  assumes "session_reachable xc s" "is_iv_request f"
    and "\<not> (ctx_valid (pending s) \<and> f ! 7 = slot_id s)"
    and "process_frame xc f s r = (a, s', r')"
  shows "a = SEND_IV \<and> slot_id s' = f ! 7 \<and> ctx_valid (pending s') \<and> \<not> ctx_valid (retired s') \<and>
    iv_response s' = [0x01, 0x00, 0x00, 0x00] @ ctx_iv (pending s') \<and>
    (ctx_valid (active s') \<longrightarrow> \<not> same_seq (ctx_iv (pending s')) (ctx_iv (active s'))) \<and>
    (f ! 7 \<noteq> slot_id s \<longrightarrow> generations s' = {pending s'}) \<and>
    (late_action_allowed (active s') \<longleftrightarrow>
      f ! 7 = slot_id s \<and> ctx_valid (active s) \<and> f ! 7 = VISION_KEY_SLOT) \<and>
    (\<exists>n. 4 \<le> n \<and> n \<le> 20 \<and> r' = sdrop n r)"
proof -
  have inv: "session_inv s" using assms(1) by (rule session_reachable_inv)
  have inv': "session_inv s'" using inv assms(4) by (rule session_inv_process_frame)
  from assms(2,4) have step: "a = SEND_IV" "process_iv_request f (clear_transient s) r = (s', r')"
    by (auto simp: process_frame_def Let_def split: prod.splits)
  note defs = process_iv_request_def ensure_pending_iv_def Let_def case_prod_beta
  have "slot_id s' = f ! 7"
    using step(2) assms(3) by (auto simp: defs split: if_splits)
  moreover have valid: "ctx_valid (pending s')" and "\<not> ctx_valid (retired s')"
    using step(2) assms(3) by (auto simp: defs split: if_splits)
  moreover have "iv_response s' = [0x01, 0x00, 0x00, 0x00] @ ctx_iv (pending s')"
    using inv' valid append_take_drop_id [of IV_RESPONSE_HEADER "iv_response s'"]
    by (simp add: session_inv_defs)
  moreover have "ctx_valid (active s') \<longrightarrow> \<not> same_seq (ctx_iv (pending s')) (ctx_iv (active s'))"
    using inv' valid by (simp add: session_inv_defs)
  moreover have "f ! 7 \<noteq> slot_id s \<longrightarrow> generations s' = {pending s'}"
    using step(2) by (auto simp: defs generations_iff)
  moreover have "late_action_allowed (active s') \<longleftrightarrow>
      f ! 7 = slot_id s \<and> ctx_valid (active s) \<and> f ! 7 = VISION_KEY_SLOT"
    using step(2) assms(3) inv by (auto simp: defs session_inv_defs split: if_splits)
  moreover have "\<exists>n. 4 \<le> n \<and> n \<le> 20 \<and> r' = sdrop n r"
  proof -
    obtain act iv where "r' = snd (fresh_iv act iv r)"
      using step(2) assms(3) by (auto simp: defs split: if_splits)
    with fresh_iv_draws [of act iv r] obtain m where "m \<le> 5" "1 \<le> m" "r' = sdrop (4 * m) r" by auto
    then show ?thesis by (intro exI [of _ "4 * m"]) auto
  qed
  ultimately show ?thesis using step(1) by blast
qed


theorem iv_request_opens_generation_witness:
  "\<exists>n. 4 \<le> n \<and> n \<le> 20 \<and>
    snd (snd (process_frame stub_xcrypt (iv_request_frame 0x88) (fst (vision_session (sconst 0))) (sconst 7)))
      = sdrop n (sconst 7) \<and>
    slot_id (fst (snd (process_frame stub_xcrypt (iv_request_frame 0x88)
      (fst (vision_session (sconst 0))) (sconst 7)))) = 0x88"
proof -
  obtain a s' r' where step: "process_frame stub_xcrypt (iv_request_frame 0x88)
      (fst (vision_session (sconst 0))) (sconst 7) = (a, s', r')"
    by (metis prod_cases3)
  have pre: "is_iv_request (iv_request_frame 0x88)" "iv_request_frame 0x88 ! 7 = 0x88" by code_simp+
  have "slot_id (fst (vision_session r)) = 0xC6" for r by code_simp
  then have "\<not> (ctx_valid (pending (fst (vision_session (sconst 0)))) \<and>
      iv_request_frame 0x88 ! 7 = slot_id (fst (vision_session (sconst 0))))"
    by (simp add: pre)
  from iv_request_opens_generation [OF vision_session_reachable pre(1) this step] step pre(2)
  show ?thesis by auto
qed

subsection \<open>The generations of a reachable session\<close>



end
