(* ===== verification/Mac_Utils.thy ===== *)
theory Mac_Utils
  imports Prelude "HOL-Library.Char_ord"
begin

text \<open>
  MAC-address strings (\<open>mac_utils.h\<close>, \<open>mac_utils.cpp\<close>). A \<open>std::string\<close> is a list of characters.
  \<open>sscanf\<close> and \<open>toupper\<close> are those of the C standard in the C locale: \<open>%2x\<close> skips white space and
  reads at most two characters of an optionally signed hexadecimal number, where the lone prefix
  \<open>0x\<close> is a matching failure. \<open>format_mac\<close> is the \<open>"%02X:..."\<close> output the bridge produces for a
  stored address.
\<close>

subsection \<open>Characters\<close>

definition char_between :: "char \<Rightarrow> char \<Rightarrow> char \<Rightarrow> bool" where
  "char_between a b c \<longleftrightarrow> (of_char a :: nat) \<le> of_char c \<and> (of_char c :: nat) \<le> of_char b"

definition c_toupper :: "char \<Rightarrow> char" where
  "c_toupper c =
    (if char_between CHR ''a'' CHR ''z'' c then char_of ((of_char c :: nat) - 32) else c)"

definition c_isspace :: "char \<Rightarrow> bool" where
  "c_isspace c \<longleftrightarrow> (of_char c :: nat) \<in> {32, 9, 10, 11, 12, 13}"

definition hex_value :: "char \<Rightarrow> nat option" where
  "hex_value c =
    (if char_between CHR ''0'' CHR ''9'' c then Some (of_char c - 48)
     else if char_between CHR ''a'' CHR ''f'' c then Some (of_char c - 87)
     else if char_between CHR ''A'' CHR ''F'' c then Some (of_char c - 55)
     else None)"

subsection \<open>Conversions\<close>

definition compact_mac :: "string \<Rightarrow> string" where
  "compact_mac any = map c_toupper (filter (\<lambda>c. \<not> (c = CHR '':'' \<or> c = CHR ''-'')) any)"

text \<open>The loop over \<open>i = 0, 2, .., 10\<close>: two characters per round, a colon unless \<open>out\<close> is empty.\<close>

fun pretty_loop :: "string \<Rightarrow> string \<Rightarrow> string" where
  "pretty_loop out (a # b # rest) =
    pretty_loop ((if out \<noteq> [] then out @ [CHR '':''] else out) @ [a, b]) rest"
| "pretty_loop out _ = out"

definition pretty_mac :: "string \<Rightarrow> string" where
  "pretty_mac raw =
    (let compact = compact_mac raw in
     if length compact \<noteq> 12 then raw else pretty_loop [] compact)"

definition upper_mac :: "string \<Rightarrow> string" where
  "upper_mac mac =
    map (\<lambda>c. if char_between CHR ''a'' CHR ''z'' c
             then char_of ((of_char c :: nat) - of_char CHR ''a'' + of_char CHR ''A'') else c) mac"

text \<open>One \<open>%2x\<close> conversion: the value stored into the \<open>unsigned\<close> and the input left.\<close>

definition scan_hex2 :: "string \<Rightarrow> (u32 \<times> string) option" where
  "scan_hex2 input =
    (case dropWhile c_isspace input of
       [] \<Rightarrow> None
     | c # rest \<Rightarrow>
         if c = CHR ''+'' \<or> c = CHR ''-''
         then (case rest of
                 [] \<Rightarrow> None
               | d # rest' \<Rightarrow> (case hex_value d of
                   None \<Rightarrow> None
                 | Some v \<Rightarrow> Some (if c = CHR ''-'' then - of_nat v else of_nat v, rest')))
         else (case hex_value c of
                 None \<Rightarrow> None
               | Some v \<Rightarrow> (case rest of
                   [] \<Rightarrow> Some (of_nat v, [])
                 | d # rest' \<Rightarrow> (case hex_value d of
                     Some w \<Rightarrow> Some (of_nat (16 * v + w), rest')
                   | None \<Rightarrow> if v = 0 \<and> (d = CHR ''x'' \<or> d = CHR ''X'') then None
                              else Some (of_nat v, rest)))))"

text \<open>The remaining \<open>n + 1\<close> conversions of the format, with the colons between them.\<close>

fun scan_fields :: "nat \<Rightarrow> string \<Rightarrow> u32 list option" where
  "scan_fields n input =
    (case scan_hex2 input of
       None \<Rightarrow> None
     | Some (b, rest) \<Rightarrow>
         (case n of
            0 \<Rightarrow> Some [b]
          | Suc m \<Rightarrow> (case rest of
              c # rest' \<Rightarrow> if c = CHR '':'' then map_option ((#) b) (scan_fields m rest') else None
            | [] \<Rightarrow> None)))"

declare scan_fields.simps [simp del]

text \<open>\<open>c_str()\<close> cuts the string at an embedded NUL.\<close>

definition c_str :: "string \<Rightarrow> string" where
  "c_str s = takeWhile (\<lambda>c. c \<noteq> CHR 0x00) s"

definition parse_mac_pretty :: "string \<Rightarrow> byte list option" where
  "parse_mac_pretty mac = map_option (map ucast) (scan_fields 5 (c_str mac))"

definition hex_digit :: "nat \<Rightarrow> char" where
  "hex_digit n = (if n < 10 then char_of (48 + n) else char_of (55 + n))"

definition hex_byte :: "byte \<Rightarrow> string" where
  "hex_byte b = [hex_digit (unat b div 16), hex_digit (unat b mod 16)]"

fun format_mac :: "byte list \<Rightarrow> string" where
  "format_mac [] = []"
| "format_mac [b] = hex_byte b"
| "format_mac (b # c # bs) = hex_byte b @ CHR '':'' # format_mac (c # bs)"

subsection \<open>Facts about characters\<close>

lemma of_char_literals [simp]:
  "(of_char CHR ''a'' :: nat) = 97" "(of_char CHR ''z'' :: nat) = 122" "(of_char CHR ''f'' :: nat) = 102"
  "(of_char CHR ''A'' :: nat) = 65" "(of_char CHR ''F'' :: nat) = 70" "(of_char CHR ''0'' :: nat) = 48"
  "(of_char CHR ''9'' :: nat) = 57" "(of_char CHR '':'' :: nat) = 58" "(of_char CHR ''-'' :: nat) = 45"
  "(of_char CHR ''+'' :: nat) = 43" "(of_char CHR ''x'' :: nat) = 120" "(of_char CHR ''X'' :: nat) = 88"
  "(of_char CHR 0x00 :: nat) = 0"
  by simp_all

lemma of_char_less: "(of_char c :: nat) < 256"
  by (metis of_char_mod_256 mod_less_divisor zero_less_numeral)

lemma char_eqI: "(of_char c :: nat) = of_char d \<Longrightarrow> c = d"
  by (simp add: of_char_eq_iff)

lemma char_eq_of_char: "c = d \<longleftrightarrow> (of_char c :: nat) = of_char d"
  by (auto intro: char_eqI)

lemma of_char_c_toupper [simp]:
  "(of_char (c_toupper c) :: nat) =
    (if 97 \<le> (of_char c :: nat) \<and> (of_char c :: nat) \<le> 122 then of_char c - 32 else of_char c)"
  using of_char_less [of c] by (auto simp: c_toupper_def char_between_def intro!: mod_less)

lemma upper_mac_eq: "upper_mac s = map c_toupper s"
  by (auto simp: upper_mac_def c_toupper_def char_between_def)

lemma c_toupper_idem [simp]: "c_toupper (c_toupper c) = c_toupper c"
  by (rule char_eqI) auto

lemma c_toupper_separator [simp]:
  "c_toupper c = CHR '':'' \<longleftrightarrow> c = CHR '':''" "c_toupper c = CHR ''-'' \<longleftrightarrow> c = CHR ''-''"
  by (auto simp: char_eq_of_char)

lemma hex_value_toupper [simp]: "hex_value (c_toupper c) = hex_value c"
  by (auto simp: hex_value_def char_between_def)

lemma hex_value_less: "hex_value c = Some v \<Longrightarrow> v < 16"
  by (auto simp: hex_value_def char_between_def split: if_splits)

lemma hex_value_plain:
  "hex_value c = Some v \<Longrightarrow> \<not> c_isspace c \<and> c \<noteq> CHR ''+'' \<and> c \<noteq> CHR ''-'' \<and> c \<noteq> CHR '':'' \<and> c \<noteq> CHR 0x00"
  by (auto simp: hex_value_def char_between_def c_isspace_def char_eq_of_char split: if_splits)

lemma of_char_hex_digit: "n < 16 \<Longrightarrow> (of_char (hex_digit n) :: nat) = (if n < 10 then 48 + n else 55 + n)"
  by (simp add: hex_digit_def)

lemma hex_value_digit [simp]: "n < 16 \<Longrightarrow> hex_value (hex_digit n) = Some n"
  by (simp add: hex_value_def char_between_def of_char_hex_digit)

lemma c_toupper_fixed: "c_toupper c = c \<Longrightarrow> \<not> (97 \<le> (of_char c :: nat) \<and> (of_char c :: nat) \<le> 122)"
  using of_char_c_toupper [of c] by (auto split: if_splits)

lemma hex_digit_value:
  assumes "hex_value c = Some v" "c_toupper c = c"
  shows "hex_digit v = c"
proof (rule char_eqI)
  have "v < 16" using assms(1) by (rule hex_value_less)
  then show "(of_char (hex_digit v) :: nat) = of_char c"
    using assms(1) c_toupper_fixed [OF assms(2)]
    by (auto simp: of_char_hex_digit hex_value_def char_between_def split: if_splits)
qed

lemma unat_byte_less: "unat (b :: byte) < 256"
  using unsigned_less [of b, where 'a = nat] by simp

subsection \<open>Scanning\<close>

lemma scan_hex2_digits:
  assumes "hex_value c = Some v" "hex_value d = Some w"
  shows "scan_hex2 (c # d # rest) = Some (of_nat (16 * v + w), rest)"
  using assms hex_value_plain [OF assms(1)] by (simp add: scan_hex2_def)

lemma scan_hex2_byte [simp]: "scan_hex2 (hex_byte b @ rest) = Some (ucast b, rest)"
proof -
  have "unat b < 256" by (rule unat_byte_less)
  then have lt: "unat b div 16 < 16" "unat b mod 16 < 16" by simp_all
  have "16 * (unat b div 16) + unat b mod 16 = unat b" by simp
  then have "of_nat (16 * (unat b div 16) + unat b mod 16) = (ucast b :: u32)"
    by (simp only: of_nat_unat)
  with scan_hex2_digits [OF hex_value_digit [OF lt(1)] hex_value_digit [OF lt(2)], of rest]
  show ?thesis by (simp add: hex_byte_def)
qed

lemma scan_fields_format:
  "length bs = Suc n \<Longrightarrow> scan_fields n (format_mac bs @ rest) = Some (map ucast bs)"
proof (induction bs arbitrary: n rule: format_mac.induct)
  case (2 b)
  then show ?case by (simp add: scan_fields.simps)
next
  case (3 b c bs)
  then obtain m where "n = Suc m" "length (c # bs) = Suc m" by auto
  with 3 show ?case by (simp add: scan_fields.simps [of "Suc m"])
qed simp

lemma scan_fields_length: "scan_fields n s = Some bs \<Longrightarrow> length bs = Suc n"
  by (induction n arbitrary: s bs)
    (auto simp: scan_fields.simps [of 0] scan_fields.simps [of "Suc _"]
      split: option.splits list.splits if_splits)

lemma format_mac_no_nul: "c_str (format_mac bs) = format_mac bs"
proof -
  have digit: "hex_digit n \<noteq> CHR 0x00" if "n < 16" for n
    using hex_value_plain [OF hex_value_digit [OF that]] by simp
  have "c \<noteq> CHR 0x00" if "c \<in> set (hex_byte b)" for b c
  proof -
    have "unat b < 256" by (rule unat_byte_less)
    then have "unat b div 16 < 16" "unat b mod 16 < 16" by simp_all
    then have "hex_digit (unat b div 16) \<noteq> CHR 0x00" "hex_digit (unat b mod 16) \<noteq> CHR 0x00"
      by (simp_all only: digit not_False_eq_True)
    then show ?thesis using that by (auto simp: hex_byte_def)
  qed
  then have "\<forall>c \<in> set (format_mac bs). c \<noteq> CHR 0x00"
    by (induction bs rule: format_mac.induct) auto
  then show ?thesis by (simp add: c_str_def)
qed

lemma ucast_back: "ucast (ucast (b :: byte) :: u32) = b"
  by (rule bit_word_eqI) (simp add: bit_simps)

lemma parse_format_mac: "length bs = 6 \<Longrightarrow> parse_mac_pretty (format_mac bs) = Some bs"
  using scan_fields_format [of bs 5 "[]"]
  by (simp add: parse_mac_pretty_def format_mac_no_nul comp_def ucast_back)

lemma parse_mac_length: "parse_mac_pretty s = Some bs \<Longrightarrow> length bs = 6"
  by (auto simp: parse_mac_pretty_def dest: scan_fields_length)

subsection \<open>Normal forms\<close>

lemma filter_pretty_loop:
  assumes "\<not> P CHR '':''"
  shows "even (length cs) \<Longrightarrow> filter P (pretty_loop out cs) = filter P out @ filter P cs"
  using assms by (induction out cs rule: pretty_loop.induct) auto

lemma compact_chars:
  "c \<in> set (compact_mac s) \<Longrightarrow> c \<noteq> CHR '':'' \<and> c \<noteq> CHR ''-'' \<and> c_toupper c = c"
  by (auto simp: compact_mac_def)

lemma compact_fixed:
  "(\<And>c. c \<in> set s \<Longrightarrow> c_toupper c = c) \<Longrightarrow> compact_mac s = filter (\<lambda>c. \<not> (c = CHR '':'' \<or> c = CHR ''-'')) s"
  unfolding compact_mac_def by (rule map_idI) simp

lemma set_pretty_loop: "set (pretty_loop out cs) \<subseteq> set out \<union> set cs \<union> {CHR '':''}"
  by (induction out cs rule: pretty_loop.induct) auto

lemma compact_pretty: "compact_mac (pretty_mac raw) = compact_mac raw"
proof (cases "length (compact_mac raw) = 12")
  case True
  let ?cs = "compact_mac raw"
  have up: "c_toupper c = c" if "c \<in> set (pretty_loop [] ?cs)" for c
  proof -
    from that set_pretty_loop [of "[]" ?cs] have "c \<in> set ?cs \<or> c = CHR '':''" by auto
    then show ?thesis using compact_chars [of c raw] by auto
  qed
  have "compact_mac (pretty_loop [] ?cs) = filter (\<lambda>c. \<not> (c = CHR '':'' \<or> c = CHR ''-'')) ?cs"
    using True by (subst compact_fixed) (simp_all add: up filter_pretty_loop)
  also have "\<dots> = ?cs" using compact_chars [of _ raw] by (auto intro: filter_True)
  finally show ?thesis using True by (simp add: pretty_mac_def Let_def)
next
  case False
  then show ?thesis by (simp add: pretty_mac_def Let_def)
qed

lemma unat_of_nat_byte: "n < 256 \<Longrightarrow> unat (of_nat n :: byte) = n"
  by (simp add: unat_of_nat take_bit_nat_eq_self_iff)

lemma hex_pair_byte:
  assumes "hex_value a \<noteq> None" "c_toupper a = a" "hex_value b \<noteq> None" "c_toupper b = b"
  shows "\<exists>x. hex_byte x = [a, b]"
proof -
  obtain v w where vw: "hex_value a = Some v" "hex_value b = Some w" using assms by auto
  then have "v < 16" "w < 16" by (simp_all add: hex_value_less)
  then have "unat (of_nat (16 * v + w) :: byte) = 16 * v + w" by (intro unat_of_nat_byte) simp
  with \<open>w < 16\<close> have "hex_byte (of_nat (16 * v + w)) = [hex_digit v, hex_digit w]"
    by (simp only: hex_byte_def) simp
  with vw assms show ?thesis by (metis hex_digit_value)
qed

lemma format_mac_pairs:
  assumes "list_all (\<lambda>c. hex_value c \<noteq> None \<and> c_toupper c = c) cs" "length cs = 2 * Suc n"
  shows "\<exists>bs. length bs = Suc n \<and>
    (\<forall>out. pretty_loop out cs = (if out = [] then [] else out @ [CHR '':'']) @ format_mac bs)"
  using assms
proof (induction n arbitrary: cs)
  case 0
  then obtain a b where cs: "cs = [a, b]" by (auto simp: length_Suc_conv numeral_2_eq_2)
  then obtain x where "hex_byte x = [a, b]" using 0 hex_pair_byte [of a b] by auto
  with cs show ?case by (intro exI [of _ "[x]"]) simp
next
  case (Suc n)
  then obtain a b rest where cs: "cs = a # b # rest" and rest: "length rest = 2 * Suc n"
    by (auto simp: length_Suc_conv numeral_2_eq_2)
  then obtain bs where bs: "length bs = Suc n"
      "\<And>out. pretty_loop out rest = (if out = [] then [] else out @ [CHR '':'']) @ format_mac bs"
    using Suc.IH [of rest] Suc.prems by auto
  obtain x where x: "hex_byte x = [a, b]" using Suc.prems cs hex_pair_byte [of a b] by auto
  obtain c bs' where "bs = c # bs'" using bs(1) by (cases bs) auto
  with bs x cs show ?case by (intro exI [of _ "x # bs"]) simp
qed

subsection \<open>Properties\<close>

text \<open>
  \<open>pretty_mac\<close> is idempotent, whatever its input, and never changes which device is meant:
  compacting its result gives what compacting the input gives.
\<close>

theorem pretty_mac_idempotent:
  "pretty_mac (pretty_mac raw) = pretty_mac raw \<and> compact_mac (pretty_mac raw) = compact_mac raw"
  by (simp add: pretty_mac_def [of "pretty_mac raw"] compact_pretty) (simp add: pretty_mac_def Let_def)

text \<open>
  Parsing the printed form of a stored address gives the address back, and every address the
  parser produces has six bytes.
\<close>

theorem mac_print_parse:
  assumes "length bs = 6"
  shows "parse_mac_pretty (format_mac bs) = Some bs"
  using assms by (rule parse_format_mac)

theorem mac_print_parse_witness:
  "parse_mac_pretty (format_mac [0xB0, 0xE9, 0xFE, 0x61, 0x2E, 0x75]) =
    Some [0xB0, 0xE9, 0xFE, 0x61, 0x2E, 0x75]"
  by (rule mac_print_parse) simp

text \<open>
  Every cloud address (twelve hexadecimal digits, in any case, with or without colons and dashes)
  becomes, through \<open>pretty_mac\<close>, a string that parses, and printing the parsed bytes gives exactly
  that string: the canonical spelling the rest of the firmware compares.
\<close>

theorem cloud_mac_parses:
  assumes "length (compact_mac raw) = 12" "list_all (\<lambda>c. hex_value c \<noteq> None) (compact_mac raw)"
  shows "\<exists>bs. parse_mac_pretty (pretty_mac raw) = Some bs \<and> length bs = 6 \<and>
    format_mac bs = pretty_mac raw"
proof -
  have "list_all (\<lambda>c. hex_value c \<noteq> None \<and> c_toupper c = c) (compact_mac raw)"
    using assms(2) compact_chars [of _ raw] by (auto simp: list_all_iff)
  then obtain bs where "length bs = 6" "pretty_loop [] (compact_mac raw) = format_mac bs"
    using format_mac_pairs [of "compact_mac raw" 5] assms(1) by auto
  then show ?thesis using assms(1) by (auto simp: pretty_mac_def Let_def parse_format_mac)
qed

theorem cloud_mac_parses_witness:
  "\<exists>bs. parse_mac_pretty (pretty_mac ''b0e9fe612e75'') = Some bs \<and> length bs = 6 \<and>
    format_mac bs = pretty_mac ''b0e9fe612e75''"
  by (rule cloud_mac_parses; code_simp)

text \<open>
  The header promises \<open>compact_mac\<close> for any separators; only colons and dashes are removed, so a
  dotted address keeps its dots and \<open>pretty_mac\<close> hands it back unchanged.
\<close>

theorem compact_mac_keeps_other_separators:
  "compact_mac ''b0e9.fe61.2e75'' = ''B0E9.FE61.2E75'' \<and>
    pretty_mac ''b0e9.fe61.2e75'' = ''b0e9.fe61.2e75'' \<and>
    parse_mac_pretty (pretty_mac ''b0e9.fe61.2e75'') = None"
  by code_simp

end
