(* ===== verification/Lock_Models.thy ===== *)
theory Lock_Models
  imports Mac_Utils
begin

text \<open>
  The model tables and the pure byte rules of the physical-lock client (\<open>physical_lock.h\<close>, the
  free functions of \<open>physical_lock.cpp\<close>). \<open>PhysicalLockModel\<close> is an enum over \<open>uint8_t\<close> that the
  bridge also fills from a stored byte, so its model wraps the byte.
\<close>

subsection \<open>Models\<close>

datatype physical_lock_model = PhysicalLockModel (model_byte: byte)

abbreviation MODEL_UNKNOWN :: physical_lock_model where "MODEL_UNKNOWN \<equiv> PhysicalLockModel 0"
abbreviation LOCK :: physical_lock_model where "LOCK \<equiv> PhysicalLockModel 1"
abbreviation LOCK_LITE :: physical_lock_model where "LOCK_LITE \<equiv> PhysicalLockModel 2"
abbreviation LOCK_PRO :: physical_lock_model where "LOCK_PRO \<equiv> PhysicalLockModel 3"
abbreviation LOCK_ULTRA :: physical_lock_model where "LOCK_ULTRA \<equiv> PhysicalLockModel 4"
abbreviation LOCK_VISION :: physical_lock_model where "LOCK_VISION \<equiv> PhysicalLockModel 5"
abbreviation LOCK_VISION_PRO :: physical_lock_model where "LOCK_VISION_PRO \<equiv> PhysicalLockModel 6"
abbreviation LOCK_PRO_WIFI :: physical_lock_model where "LOCK_PRO_WIFI \<equiv> PhysicalLockModel 7"

definition physical_lock_model_str :: "physical_lock_model \<Rightarrow> string" where
  "physical_lock_model_str model =
    (if model = LOCK then ''lock''
     else if model = LOCK_LITE then ''lock_lite''
     else if model = LOCK_PRO then ''lock_pro''
     else if model = LOCK_ULTRA then ''lock_ultra''
     else if model = LOCK_VISION then ''lock_vision''
     else if model = LOCK_VISION_PRO then ''lock_vision_pro''
     else if model = LOCK_PRO_WIFI then ''lock_pro_wifi''
     else ''unknown'')"

definition physical_lock_model_from_api_type :: "string \<Rightarrow> physical_lock_model" where
  "physical_lock_model_from_api_type device_type =
    (if device_type = ''WoLock'' then LOCK
     else if device_type = ''WoLockLite'' then LOCK_LITE
     else if device_type = ''WoLockPro'' then LOCK_PRO
     else if device_type = ''W1091000'' then LOCK_ULTRA
     else if device_type = ''W1141000'' then LOCK_VISION
     else if device_type = ''W1141001'' then LOCK_VISION_PRO
     else if device_type = ''W1114000'' then LOCK_PRO_WIFI
     else MODEL_UNKNOWN)"

definition is_supported_physical_lock_type :: "string \<Rightarrow> bool" where
  "is_supported_physical_lock_type device_type \<longleftrightarrow>
    physical_lock_model_from_api_type device_type \<noteq> MODEL_UNKNOWN"

text \<open>\<open>lock_info_plaintext\<close>: the command bytes, \<open>None\<close> for the null pointer of an unknown model.\<close>

definition lock_info_plaintext :: "physical_lock_model \<Rightarrow> byte list option" where
  "lock_info_plaintext model =
    (if model = LOCK \<or> model = LOCK_LITE then Some [0x0F, 0x4F, 0x81, 0x01]
     else if model = LOCK_PRO then Some [0x0F, 0x4F, 0x81, 0x04]
     else if model = LOCK_ULTRA then Some [0x0F, 0x4F, 0x81, 0x07]
     else if model = LOCK_VISION \<or> model = LOCK_VISION_PRO then Some [0x0F, 0x4F, 0x81, 0x02]
     else if model = LOCK_PRO_WIFI then Some [0x0F, 0x4F, 0x81, 0x0A]
     else None)"

subsection \<open>Lock-info replies\<close>

definition lock_status_byte_plausible :: "physical_lock_model \<Rightarrow> byte \<Rightarrow> bool" where
  "lock_status_byte_plausible model state =
    (if model = LOCK \<or> model = LOCK_LITE \<or> model = LOCK_VISION \<or> model = LOCK_VISION_PRO
     then drop_bit 4 (state AND 0x70) \<le> 6
     else if model = LOCK_PRO \<or> model = LOCK_ULTRA \<or> model = LOCK_PRO_WIFI
     then drop_bit 3 (state AND 0x78) \<le> 6
     else False)"

definition lock_info_response_plausible :: "physical_lock_model \<Rightarrow> byte list \<Rightarrow> bool" where
  "lock_info_response_plausible model response =
    (if response = [] then False
     else if length response = 14 \<and> response ! 1 = 0x08 \<and> response ! 3 = 0x41 \<and>
       response ! 8 = 0x80
     then lock_status_byte_plausible LOCK (response ! 0)
     else length response \<ge> 6 \<and> lock_status_byte_plausible model (response ! 0))"

subsection \<open>Session parameters\<close>

definition normalize_mode_byte :: "byte \<Rightarrow> byte" where
  "normalize_mode_byte mode_byte = mode_byte AND 0x01"

text \<open>The carry loop from the last byte down; it stops at the first byte that does not wrap.\<close>

fun increment_from :: "nat \<Rightarrow> byte list \<Rightarrow> byte list" where
  "increment_from 0 iv = iv"
| "increment_from (Suc i) iv =
    (let iv' = iv[i := iv ! i + 1] in if iv' ! i \<noteq> 0 then iv' else increment_from i iv')"

definition increment_gcm_iv :: "byte list \<Rightarrow> byte list" where
  "increment_gcm_iv iv = increment_from (length iv) iv"

subsection \<open>The counter\<close>

text \<open>The number a big-endian counter block stands for.\<close>

fun be_value :: "byte list \<Rightarrow> nat" where
  "be_value [] = 0"
| "be_value (b # bs) = unat b * 256 ^ length bs + be_value bs"

lemma be_value_less: "be_value bs < 256 ^ length bs"
proof (induction bs)
  case (Cons b bs)
  have "Suc (unat b) \<le> 256" using unat_byte_less [of b] by simp
  then have "Suc (unat b) * 256 ^ length bs \<le> 256 * 256 ^ length bs" by (rule mult_le_mono1)
  then have "256 ^ length bs + unat b * 256 ^ length bs \<le> 256 * 256 ^ length bs"
    by (simp only: mult_Suc)
  from this Cons.IH show ?case
    unfolding be_value.simps length_Cons power_Suc by linarith
qed simp

lemma be_value_append: "be_value (xs @ ys) = be_value xs * 256 ^ length ys + be_value ys"
  by (induction xs) (simp_all add: power_add algebra_simps)

lemma be_value_zeros: "be_value (replicate n 0) = 0"
  by (induction n) simp_all

lemma unat_byte_inc: "b + 1 \<noteq> 0 \<Longrightarrow> unat ((b :: byte) + 1) = Suc (unat b)"
  using unatSuc [of b] by (simp add: add.commute)

lemma unat_byte_wrap:
  assumes "(b :: byte) + 1 = 0"
  shows "unat b = 255"
proof -
  have "b = - 1" using assms by (simp add: eq_neg_iff_add_eq_0)
  moreover have "(- 1 :: byte) = 255" by simp
  ultimately show ?thesis by simp
qed

lemma increment_from_value:
  "n \<le> length iv \<Longrightarrow> \<exists>p. increment_from n iv = p @ drop n iv \<and> length p = n \<and>
    be_value p = (be_value (take n iv) + 1) mod 256 ^ n"
proof (induction n arbitrary: iv)
  case 0
  then show ?case by simp
next
  case (Suc n)
  then have n: "n < length iv" by simp
  define pre suf b where "pre = take n iv" and "suf = drop (Suc n) iv" and "b = iv ! n"
  have iv: "iv = pre @ b # suf" and len: "length pre = n"
    using n by (simp_all add: pre_def suf_def b_def id_take_nth_drop)
  have upd: "iv[n := iv ! n + 1] = pre @ (b + 1) # suf"
    by (simp add: iv len list_update_append nth_append flip: len)
  have val: "be_value (take (Suc n) iv) = be_value pre * 256 + unat b"
    by (simp add: iv len be_value_append)
  show ?case
  proof (cases "b + 1 = 0")
    case False
    have "be_value pre < 256 ^ n" using be_value_less [of pre] len by simp
    then have "Suc (be_value pre) * 256 \<le> 256 ^ n * 256" by (intro mult_le_mono1) simp
    moreover have "unat (b + 1) < 256" by (rule unat_byte_less)
    ultimately have "be_value pre * 256 + unat b + 1 < 256 ^ Suc n"
      using unat_byte_inc [OF False] by simp
    then have "be_value (pre @ [b + 1]) = (be_value (take (Suc n) iv) + 1) mod 256 ^ Suc n"
      unfolding val using unat_byte_inc [OF False] by (simp add: be_value_append)
    moreover have "increment_from (Suc n) iv = (pre @ [b + 1]) @ drop (Suc n) iv"
      using False upd len by (simp add: suf_def nth_append)
    ultimately show ?thesis using len by (intro exI [of _ "pre @ [b + 1]"]) simp
  next
    case True
    then have inc: "increment_from (Suc n) iv = increment_from n (pre @ 0 # suf)"
      using upd len by (simp add: nth_append)
    obtain p where p: "increment_from n (pre @ 0 # suf) = p @ 0 # suf" "length p = n"
        "be_value p = (be_value pre + 1) mod 256 ^ n"
      using Suc.IH [of "pre @ 0 # suf"] len by auto
    have "be_value (p @ [0]) = ((be_value pre + 1) mod 256 ^ n) * 256"
      by (simp add: be_value_append p(3))
    also have "\<dots> = ((be_value pre + 1) * 256) mod (256 ^ n * 256)"
      by (simp only: mult_mod_left)
    also have "(be_value pre + 1) * 256 = be_value (take (Suc n) iv) + 1"
      using unat_byte_wrap [OF True] by (simp add: val)
    also have "256 ^ n * 256 = (256 :: nat) ^ Suc n" by simp
    finally show ?thesis
      using inc p by (intro exI [of _ "p @ [0]"]) (simp add: suf_def)
  qed
qed

text \<open>
  C39. The nonce of a lock reply is the request nonce plus one, as a 96-bit big-endian counter: the
  carry loop keeps the length and adds one modulo the size of the counter, also across the wrap.
\<close>

theorem gcm_iv_is_counter:
  "length (increment_gcm_iv iv) = length iv \<and>
    be_value (increment_gcm_iv iv) = (be_value iv + 1) mod 256 ^ length iv"
  using increment_from_value [of "length iv" iv] by (auto simp: increment_gcm_iv_def)

text \<open>
  The model table is total on the supported cloud types: a supported type has a lock-info
  command of the state-poll shape and a model name other than unknown, and different supported types
  have different models; an unsupported type has neither command nor name.
\<close>

theorem supported_lock_types:
  "(is_supported_physical_lock_type t \<longleftrightarrow>
      t \<in> {''WoLock'', ''WoLockLite'', ''WoLockPro'', ''W1091000'', ''W1141000'', ''W1141001'', ''W1114000''}) \<and>
   (is_supported_physical_lock_type t \<longleftrightarrow>
      (\<exists>b. lock_info_plaintext (physical_lock_model_from_api_type t) = Some [0x0F, 0x4F, 0x81, b])) \<and>
   (is_supported_physical_lock_type t \<longleftrightarrow>
      physical_lock_model_str (physical_lock_model_from_api_type t) \<noteq> ''unknown'') \<and>
   (is_supported_physical_lock_type t \<longrightarrow>
      physical_lock_model_from_api_type t = physical_lock_model_from_api_type t' \<longrightarrow> t = t')"
  by (simp add: is_supported_physical_lock_type_def physical_lock_model_from_api_type_def
      lock_info_plaintext_def physical_lock_model_str_def split: if_splits)

theorem supported_lock_types_witness:
  "is_supported_physical_lock_type ''W1091000'' \<and> ''W1091000'' = ''W1091000''"
  using supported_lock_types [of "''W1091000''" "''W1091000''"]
  by (simp add: is_supported_physical_lock_type_def physical_lock_model_from_api_type_def)

end
