(* ===== verification/Adverts.thy ===== *)
theory Adverts
  imports Lock_Models
begin

text \<open>
  What the firmware reads from BLE advertisements: the keypad classifier and battery
  (\<open>keypad_advert.h\<close>, \<open>keypad_advert.cpp\<close>), the lock battery (\<open>lock_advert.h\<close>, \<open>lock_advert.cpp\<close>)
  and the extraction of the advertised bytes (\<open>ble_utils.cpp\<close>). A pointer with its length is a byte
  list, \<open>None\<close> for a null pointer. \<open>KeypadFamily\<close> wraps its byte, since stored bytes are cast to it.
\<close>

subsection \<open>Keypad family\<close>

datatype keypad_family = KeypadFamily (family_byte: byte)

abbreviation ORIGINAL :: keypad_family where "ORIGINAL \<equiv> KeypadFamily 0"
abbreviation VISION :: keypad_family where "VISION \<equiv> KeypadFamily 1"

definition keypad_family_str :: "keypad_family \<Rightarrow> string" where
  "keypad_family_str family = (if family = VISION then ''vision'' else ''original'')"

definition keypad_family_from_str :: "string option \<Rightarrow> keypad_family" where
  "keypad_family_from_str s = (if s \<noteq> None \<and> the s = ''vision'' then VISION else ORIGINAL)"

subsection \<open>Keypad identification\<close>

record keypad_ident =
  is_keypad :: bool
  ident_family :: keypad_family

definition default_ident :: keypad_ident where
  "default_ident = \<lparr>is_keypad = False, ident_family = ORIGINAL\<rparr>"

definition KEYPAD_TYPE_BYTE :: byte where "KEYPAD_TYPE_BYTE = 0x79"

definition suffix_is :: "byte list \<Rightarrow> byte \<Rightarrow> byte \<Rightarrow> byte \<Rightarrow> bool" where
  "suffix_is w b1 b2 b3 \<longleftrightarrow>
    (w ! 0 = 0x00 \<or> w ! 0 = 0x01) \<and> w ! 1 = b1 \<and> w ! 2 = b2 \<and> w ! 3 = b3"

definition vision_window :: "byte list \<Rightarrow> bool" where
  "vision_window w \<longleftrightarrow> suffix_is w 0x11 0x03 0x78 \<or> suffix_is w 0x11 0x51 0x98"

definition identify_keypad :: "byte list option \<Rightarrow> keypad_ident" where
  "identify_keypad svc_data =
    (let id = default_ident in
     case svc_data of
       None \<Rightarrow> id
     | Some d \<Rightarrow>
         let len = length d in
         if len = 0 then id
         else if (d ! 0) AND 0x7F = KEYPAD_TYPE_BYTE
         then id\<lparr>is_keypad := True, ident_family := ORIGINAL\<rparr>
         else if len > 5 \<and> list_ex vision_window [drop (len - 4) d, drop (len - 5) d]
         then id\<lparr>is_keypad := True, ident_family := VISION\<rparr>
         else id)"

subsection \<open>Battery levels\<close>

definition parse_keypad_battery ::
  "keypad_family \<Rightarrow> byte list option \<Rightarrow> byte list option \<Rightarrow> int" where
  "parse_keypad_battery family svc_data mfr_data =
    (if family = ORIGINAL
     then (case svc_data of
             None \<Rightarrow> -1
           | Some d \<Rightarrow> if length d < 3 then -1 else uint ((d ! 2) AND 0x7F))
     else (case mfr_data of
             None \<Rightarrow> -1
           | Some m \<Rightarrow>
               if length m < 10 then -1
               else if m ! 0 \<noteq> 0x69 \<or> m ! 1 \<noteq> 0x09 then -1
               else uint ((m ! 9) AND 0x7F)))"

definition valid_percent :: "byte \<Rightarrow> int" where
  "valid_percent raw = (let v = uint (raw AND 0x7F) in if v \<le> 100 then v else -1)"

definition parse_lock_battery ::
  "physical_lock_model \<Rightarrow> byte list option \<Rightarrow> byte list option \<Rightarrow> int" where
  "parse_lock_battery model service_data manufacturer_payload =
    (if model = LOCK \<or> model = LOCK_LITE \<or> model = LOCK_VISION
     then (case service_data of
             None \<Rightarrow> -1
           | Some d \<Rightarrow> if length d < 3 then -1 else valid_percent (d ! 2))
     else if model = LOCK_PRO \<or> model = LOCK_PRO_WIFI \<or> model = LOCK_ULTRA \<or> model = LOCK_VISION_PRO
     then (case manufacturer_payload of
             None \<Rightarrow> -1
           | Some m \<Rightarrow> if length m < 10 then -1 else valid_percent (m ! 9))
     else -1)"

subsection \<open>Advertised data\<close>

text \<open>
  A received advertisement: what \<open>NimBLEAdvertisedDevice\<close> returns for the calls the source makes.
  An absent service-data entry is the empty string; the address bytes are stored little-endian.
\<close>

record advertisement =
  adv_addr :: "byte list"
  adv_sd_fd3d :: "byte list"
  adv_sd_0d00 :: "byte list"
  adv_mfr :: "byte list option"

definition switchbot_service_data :: "advertisement \<Rightarrow> byte list" where
  "switchbot_service_data adv =
    (let sd = adv_sd_fd3d adv in if sd = [] then adv_sd_0d00 adv else sd)"

definition switchbot_manufacturer_payload :: "advertisement \<Rightarrow> byte list" where
  "switchbot_manufacturer_payload adv =
    (case adv_mfr adv of
       None \<Rightarrow> []
     | Some mfr \<Rightarrow>
         if length mfr < 2 then []
         else if mfr ! 0 \<noteq> 0x69 \<or> mfr ! 1 \<noteq> 0x09 then []
         else drop 2 mfr)"

definition addr_bytes :: "byte list \<Rightarrow> byte list" where
  "addr_bytes raw = map (\<lambda>i. raw ! (5 - i)) [0..<6]"

subsection \<open>Facts\<close>

lemma low7_range: "0 \<le> uint ((b :: byte) AND 0x7F) \<and> uint (b AND 0x7F) \<le> 127"
proof -
  have "b AND 0x7F \<le> 0x7F" by (rule word_and_le1)
  then show ?thesis by (simp add: word_le_def)
qed

lemma valid_percent_range: "-1 \<le> valid_percent b \<and> valid_percent b \<le> 100"
proof -
  have "-1 \<le> uint (b AND 0x7F)" using low7_range [of b] by linarith
  then show ?thesis by (simp add: valid_percent_def Let_def)
qed

lemma lock_battery_range:
  "-1 \<le> parse_lock_battery model sd mfr \<and> parse_lock_battery model sd mfr \<le> 100"
  using valid_percent_range by (simp add: parse_lock_battery_def split: option.split)

lemma keypad_battery_range:
  "-1 \<le> parse_keypad_battery family sd mfr \<and> parse_keypad_battery family sd mfr \<le> 127"
  using low7_range by (fastforce simp: parse_keypad_battery_def intro: order_trans [of _ 0] split: option.split)

lemma addr_bytes_rev: "length raw = 6 \<Longrightarrow> addr_bytes raw = rev raw"
  by (rule nth_equalityI) (simp_all add: addr_bytes_def rev_nth)

lemma type_byte_masked: "(b :: byte) AND 0x7F = KEYPAD_TYPE_BYTE \<longleftrightarrow> b = 0x79 \<or> b = 0xF9"
proof -
  have bits: "x = y \<longleftrightarrow> (\<forall>n < 8. bit x n = bit y n)" for x y :: byte
    by (auto intro: bit_word_eqI)
  have all_bits: "(\<forall>n < 8. P n) \<longleftrightarrow> P 0 \<and> P 1 \<and> P 2 \<and> P 3 \<and> P 4 \<and> P 5 \<and> P 6 \<and> P 7"
    for P :: "nat \<Rightarrow> bool"
    by (simp add: numeral_eq_Suc All_less_Suc) blast
  show ?thesis by (simp add: KEYPAD_TYPE_BYTE_def bits all_bits bit_simps) blast
qed

lemma suffix_is_list:
  assumes "length w = 4 + length t" "drop 4 w = t"
  shows "suffix_is w b1 b2 b3 \<longleftrightarrow> (\<exists>e \<in> {0x00, 0x01}. w = [e, b1, b2, b3] @ t)"
proof -
  obtain w0 w1 w2 w3 where "w = [w0, w1, w2, w3] @ t"
    using assms by (cases w; cases "tl w"; cases "tl (tl w)"; cases "tl (tl (tl w))") auto
  then show ?thesis by (auto simp: suffix_is_def)
qed

lemma vision_window_at:
  assumes "4 + k \<le> length d"
  shows "vision_window (drop (length d - (4 + k)) d) \<longleftrightarrow>
    (\<exists>pre t. \<exists>e \<in> {0x00, 0x01}. length t = k \<and>
      (d = pre @ [e, 0x11, 0x03, 0x78] @ t \<or> d = pre @ [e, 0x11, 0x51, 0x98] @ t))" (is "?l \<longleftrightarrow> ?r")
proof -
  let ?n = "length d - (4 + k)"
  let ?w = "drop ?n d" and ?t = "drop (length d - k) d"
  have w: "length ?w = 4 + length ?t" "drop 4 ?w = ?t" using assms by (simp_all add: add.commute)
  have d: "d = take ?n d @ ?w" by simp
  have cut: "take ?n d = pre \<and> ?w = u @ t"
    if "d = pre @ u @ t" "length u = 4" "length t = k" for pre u t
    using that by simp
  show ?thesis
  proof
    assume ?l
    then obtain e where "e \<in> {0x00, 0x01}"
        "?w = [e, 0x11, 0x03, 0x78] @ ?t \<or> ?w = [e, 0x11, 0x51, 0x98] @ ?t"
      by (auto simp: vision_window_def suffix_is_list [OF w])
    moreover from this(2) d have
      "d = take ?n d @ [e, 0x11, 0x03, 0x78] @ ?t \<or> d = take ?n d @ [e, 0x11, 0x51, 0x98] @ ?t"
      by metis
    moreover have "length ?t = k" using assms by simp
    ultimately show ?r by blast
  next
    assume ?r
    then show ?l
      by (elim exE bexE conjE disjE) (auto simp: vision_window_def suffix_is_def)
  qed
qed

subsection \<open>Properties\<close>

text \<open>
  The lock battery is a percentage or -1 for every advertisement and every model byte, and an
  unknown model never reports one; the keypad battery has seven bits and is not clamped, so it lies
  between -1 and 127.
\<close>

theorem battery_ranges:
  "-1 \<le> parse_lock_battery model sd mfr \<and> parse_lock_battery model sd mfr \<le> 100 \<and>
   (model_byte model = 0 \<or> 7 < model_byte model \<longrightarrow> parse_lock_battery model sd mfr = -1) \<and>
   -1 \<le> parse_keypad_battery family sd mfr \<and> parse_keypad_battery family sd mfr \<le> 127"
proof -
  have "model_byte model = 0 \<or> 7 < model_byte model \<Longrightarrow> parse_lock_battery model sd mfr = -1"
    by (cases model) (auto simp: parse_lock_battery_def)
  then show ?thesis using lock_battery_range keypad_battery_range by blast
qed

theorem battery_ranges_witness:
  "parse_lock_battery (PhysicalLockModel 9) (Some [0, 0, 0x64]) None = -1"
  using battery_ranges [of "PhysicalLockModel 9" "Some [0, 0, 0x64]" None] by simp

text \<open>
  The two readers of manufacturer data agree on the layout: byte 9 of the raw data of a Vision
  keypad is byte 7 of the payload behind the company id, and its battery is reported exactly when
  that payload exists and has eight bytes.
\<close>

theorem vision_battery_layout:
  "parse_keypad_battery VISION sd (adv_mfr adv) =
    (let p = switchbot_manufacturer_payload adv
     in if 8 \<le> length p then uint ((p ! 7) AND 0x7F) else -1)"
  by (auto simp: parse_keypad_battery_def switchbot_manufacturer_payload_def Let_def
      split: option.splits)

text \<open>
  The classifier: the first byte decides the Original family whatever its encryption bit, a Vision
  keypad is an advertisement of more than five bytes with one of the two signatures, under either
  encryption bit, at its end or one byte before it, and anything else is no keypad.
\<close>

theorem identify_keypad_cases:
  "(identify_keypad (Some d) = \<lparr>is_keypad = True, ident_family = ORIGINAL\<rparr> \<longleftrightarrow>
     (\<exists>rest. d = 0x79 # rest \<or> d = 0xF9 # rest)) \<and>
   (identify_keypad (Some d) = \<lparr>is_keypad = True, ident_family = VISION\<rparr> \<longleftrightarrow>
     5 < length d \<and> d ! 0 \<noteq> 0x79 \<and> d ! 0 \<noteq> 0xF9 \<and>
     (\<exists>pre t. \<exists>e \<in> {0x00, 0x01}. length t \<le> 1 \<and>
       (d = pre @ [e, 0x11, 0x03, 0x78] @ t \<or> d = pre @ [e, 0x11, 0x51, 0x98] @ t))) \<and>
   (is_keypad (identify_keypad (Some d)) = (identify_keypad (Some d) \<noteq> default_ident)) \<and>
   identify_keypad None = default_ident"
proof -
  have windows: "list_ex vision_window [drop (length d - 4) d, drop (length d - 5) d] \<longleftrightarrow>
      (\<exists>pre t. \<exists>e \<in> {0x00, 0x01}. length t \<le> 1 \<and>
        (d = pre @ [e, 0x11, 0x03, 0x78] @ t \<or> d = pre @ [e, 0x11, 0x51, 0x98] @ t))"
    if "5 < length d"
    using that vision_window_at [of 0 d] vision_window_at [of 1 d]
    by (simp add: le_Suc_eq del: append_Cons) blast
  have first: "d \<noteq> [] \<Longrightarrow> (d ! 0) AND 0x7F = KEYPAD_TYPE_BYTE \<longleftrightarrow>
      (\<exists>rest. d = 0x79 # rest \<or> d = 0xF9 # rest)"
    by (cases d) (auto simp: type_byte_masked)
  have first_nth: "d \<noteq> [] \<Longrightarrow> (\<exists>rest. d = 0x79 # rest \<or> d = 0xF9 # rest) \<longleftrightarrow> d ! 0 = 0x79 \<or> d ! 0 = 0xF9"
    by (cases d) auto
  have eq: "identify_keypad (Some d) =
      (if \<exists>rest. d = 0x79 # rest \<or> d = 0xF9 # rest then \<lparr>is_keypad = True, ident_family = ORIGINAL\<rparr>
       else if 5 < length d \<and> list_ex vision_window [drop (length d - 4) d, drop (length d - 5) d]
       then \<lparr>is_keypad = True, ident_family = VISION\<rparr> else default_ident)"
    by (cases "d = []") (auto simp: identify_keypad_def Let_def default_ident_def first)
  define first sig where "first \<longleftrightarrow> (\<exists>rest. d = 0x79 # rest \<or> d = 0xF9 # rest)"
    and "sig \<longleftrightarrow> (\<exists>pre t. \<exists>e \<in> {0x00, 0x01}. length t \<le> 1 \<and>
      (d = pre @ [e, 0x11, 0x03, 0x78] @ t \<or> d = pre @ [e, 0x11, 0x51, 0x98] @ t))"
  have eq': "identify_keypad (Some d) =
      (if first then \<lparr>is_keypad = True, ident_family = ORIGINAL\<rparr>
       else if 5 < length d \<and> sig then \<lparr>is_keypad = True, ident_family = VISION\<rparr> else default_ident)"
    unfolding eq first_def [symmetric] using windows [folded sig_def]
    by (simp only: cong: conj_cong)
  have nth: "5 < length d \<Longrightarrow> d ! 0 \<noteq> 0x79 \<and> d ! 0 \<noteq> 0xF9 \<longleftrightarrow> \<not> first"
    unfolding first_def using first_nth by fastforce
  have none: "identify_keypad None = default_ident" by (simp add: identify_keypad_def Let_def)
  show ?thesis
    unfolding eq' none first_def [symmetric] sig_def [symmetric]
    using nth by (simp add: default_ident_def) blast
qed

end
