(* ===== verification/Ble_Client.thy ===== *)
theory Ble_Client
  imports Adverts
begin

text \<open>
  The BLE central role as the firmware uses it (\<open>ble_utils.cpp\<close>, \<open>connect_switchbot_service\<close>, and the
  NimBLE and FreeRTOS calls of \<open>physical_lock.cpp\<close>). NimBLE, the radio and the peer are the
  environment: every call that can go either way asks a function of \<open>ble_env\<close>, given the history of
  everything that has happened, and every call is recorded in that history with its outcome. A fact
  proved for all environments therefore holds for every behaviour of the stack and the peer.

  A function with an \<open>error_out\<close> string and a \<open>bool\<close> result returns a sum, \<open>Inl\<close> the message of a
  failure.
\<close>

record ble_address =
  addr_text :: string
  addr_type :: nat

definition BLE_ADDR_PUBLIC :: nat where "BLE_ADDR_PUBLIC = 0"
definition BLE_ADDR_RANDOM :: nat where "BLE_ADDR_RANDOM = 1"

text \<open>\<open>NimBLEAddress{}\<close> and \<open>isNull\<close>.\<close>

definition null_address :: ble_address where
  "null_address = \<lparr>addr_text = ''00:00:00:00:00:00'', addr_type = BLE_ADDR_PUBLIC\<rparr>"

datatype lock_phase = PHASE_SCAN | PHASE_CONNECT | PHASE_DISCOVER | PHASE_SESSION | PHASE_COMMAND

text \<open>
  The events of a history. A flag or value is the outcome of the call. \<open>EvNotifications\<close> delivers
  notifications to a callback that only records them, \<open>EvTerminate\<close> drops a link in which the device
  is the peripheral; the last three are the callbacks of the caller.
\<close>

datatype ble_event =
    EvScan u32
  | EvCreateClient bool
  | EvConnect ble_address u32 bool
  | EvGetCharacteristics bool bool
  | EvDisconnect
  | EvDeleteClient
  | EvCreateSemaphore bool
  | EvSubscribe bool
  | EvUnsubscribe
  | EvDeleteSemaphore
  | EvWrite "byte list" bool
  | EvWait u32 "byte list option"
  | EvNotifications "byte list list"
  | EvTerminate
  | EvProgress lock_phase
  | EvCommandProgress nat
  | EvResponse "byte list"

type_synonym ble_log = "ble_event list"

text \<open>
  \<open>env_wait\<close> is \<open>wait_notify\<close>: the last notification stored when the semaphore is given within the
  timeout. A missing GATT service reads as two missing characteristics.
\<close>

record ble_env =
  env_scan :: "ble_log \<Rightarrow> ble_address list"
  env_create_client :: "ble_log \<Rightarrow> bool"
  env_connect :: "ble_log \<Rightarrow> ble_address \<Rightarrow> bool"
  env_characteristics :: "ble_log \<Rightarrow> bool \<times> bool"
  env_semaphore :: "ble_log \<Rightarrow> bool"
  env_subscribe :: "ble_log \<Rightarrow> bool"
  env_write :: "ble_log \<Rightarrow> byte list \<Rightarrow> bool"
  env_wait :: "ble_log \<Rightarrow> u32 \<Rightarrow> byte list option"

text \<open>
  The settings every scan of the firmware is made with, in the order they are set; an \<open>EvScan\<close> is a
  blocking scan of the given length with these settings.
\<close>

datatype scan_call = ClearResults | SetActiveScan bool | SetInterval nat | SetWindow nat

definition configure_switchbot_scan :: "scan_call list" where
  "configure_switchbot_scan = [ClearResults, SetActiveScan True, SetInterval 45, SetWindow 30]"

definition SWITCHBOT_SERVICE_UUID :: string where "SWITCHBOT_SERVICE_UUID = ''cba20d00-224d-11e6-9fb8-0002a5d5c51b''"
definition SWITCHBOT_RX_CHAR_UUID :: string where "SWITCHBOT_RX_CHAR_UUID = ''cba20002-224d-11e6-9fb8-0002a5d5c51b''"
definition SWITCHBOT_TX_CHAR_UUID :: string where "SWITCHBOT_TX_CHAR_UUID = ''cba20003-224d-11e6-9fb8-0002a5d5c51b''"

definition log_if :: "bool \<Rightarrow> ble_event \<Rightarrow> ble_log \<Rightarrow> ble_log" where
  "log_if present e log = (if present then log @ [e] else log)"

subsection \<open>Connecting\<close>

definition connect_switchbot_service ::
  "ble_env \<Rightarrow> ble_address \<Rightarrow> u32 \<Rightarrow> string \<Rightarrow> ble_log \<Rightarrow> (string + unit) \<times> ble_log" where
  "connect_switchbot_service env target timeout_ms device_label log =
    (let client = env_create_client env log;
         log1 = log @ [EvCreateClient client]
     in if \<not> client
        then (Inl (''Could not allocate a BLE client for the '' @ device_label @ ''.''), log1)
        else
          let connected = env_connect env log1 target;
              log2 = log1 @ [EvConnect target timeout_ms connected]
          in if \<not> connected
             then (Inl (''Could not connect to the '' @ device_label @ ''.''), log2 @ [EvDeleteClient])
             else
               let (rx, tx) = env_characteristics env log2;
                   log3 = log2 @ [EvGetCharacteristics rx tx]
               in if \<not> rx \<or> \<not> tx
                  then (Inl (''The '' @ device_label @ '' does not expose the SwitchBot GATT service.''),
                        log3 @ [EvDisconnect, EvDeleteClient])
                  else (Inr (), log3))"

subsection \<open>Addresses\<close>

text \<open>\<open>strtol(.., 16)\<close> on a short string: white space, sign, an optional prefix, digits.\<close>

definition has_hex_prefix :: "string \<Rightarrow> bool" where
  "has_hex_prefix s \<longleftrightarrow> 3 \<le> length s \<and> s ! 0 = CHR ''0'' \<and>
    (s ! 1 = CHR ''x'' \<or> s ! 1 = CHR ''X'') \<and> hex_value (s ! 2) \<noteq> None"

definition strtol_hex :: "string \<Rightarrow> int" where
  "strtol_hex s =
    (let s1 = dropWhile c_isspace s;
         neg = (s1 \<noteq> [] \<and> hd s1 = CHR ''-'');
         s2 = (if s1 \<noteq> [] \<and> (hd s1 = CHR ''-'' \<or> hd s1 = CHR ''+'') then tl s1 else s1);
         s3 = (if has_hex_prefix s2 then drop 2 s2 else s2);
         v = foldl (\<lambda>acc c. 16 * acc + int (the (hex_value c))) 0
               (takeWhile (\<lambda>c. hex_value c \<noteq> None) s3)
     in if neg then - v else v)"

definition address_from_mac :: "string \<Rightarrow> ble_address" where
  "address_from_mac mac_pretty =
    (let mac = upper_mac mac_pretty;
         msb = (of_int (strtol_hex (c_str (take 2 mac))) :: byte);
         type = (if msb AND 0xC0 = 0xC0 then BLE_ADDR_RANDOM else BLE_ADDR_PUBLIC)
     in \<lparr>addr_text = mac, addr_type = type\<rparr>)"

definition discover_target :: "ble_env \<Rightarrow> string \<Rightarrow> u32 \<Rightarrow> ble_log \<Rightarrow> ble_address \<times> ble_log" where
  "discover_target env mac_pretty timeout_ms log =
    (let target = upper_mac mac_pretty;
         log1 = log @ [EvScan timeout_ms]
     in (case find (\<lambda>a. upper_mac (addr_text a) = target) (env_scan env log1) of
           Some a \<Rightarrow> a
         | None \<Rightarrow> null_address,
         log1))"

subsection \<open>Resources in a history\<close>

text \<open>
  Clients and semaphores allocated but not yet released, connections not yet closed and
  subscriptions not yet cancelled, as signed counts over a history.
\<close>

fun client_delta :: "ble_event \<Rightarrow> int" where
  "client_delta (EvCreateClient True) = 1"
| "client_delta EvDeleteClient = -1"
| "client_delta _ = 0"

fun semaphore_delta :: "ble_event \<Rightarrow> int" where
  "semaphore_delta (EvCreateSemaphore True) = 1"
| "semaphore_delta EvDeleteSemaphore = -1"
| "semaphore_delta _ = 0"

fun link_delta :: "ble_event \<Rightarrow> int" where
  "link_delta (EvConnect _ _ True) = 1"
| "link_delta EvDisconnect = -1"
| "link_delta _ = 0"

fun subscription_delta :: "ble_event \<Rightarrow> int" where
  "subscription_delta (EvSubscribe True) = 1"
| "subscription_delta EvUnsubscribe = -1"
| "subscription_delta _ = 0"

record held =
  held_clients :: int
  held_semaphores :: int
  held_links :: int
  held_subscriptions :: int

definition held_after :: "ble_log \<Rightarrow> held" where
  "held_after log =
    \<lparr>held_clients = sum_list (map client_delta log),
     held_semaphores = sum_list (map semaphore_delta log),
     held_links = sum_list (map link_delta log),
     held_subscriptions = sum_list (map subscription_delta log)\<rparr>"

definition nothing_held :: held where
  "nothing_held = \<lparr>held_clients = 0, held_semaphores = 0, held_links = 0, held_subscriptions = 0\<rparr>"

text \<open>Events that allocate and release nothing.\<close>

definition neutral :: "ble_event \<Rightarrow> bool" where
  "neutral e \<longleftrightarrow> client_delta e = 0 \<and> semaphore_delta e = 0 \<and> link_delta e = 0 \<and>
    subscription_delta e = 0"

text \<open>The difference two histories make, one extending the other.\<close>

definition holds_more :: "int \<Rightarrow> int \<Rightarrow> int \<Rightarrow> int \<Rightarrow> held \<Rightarrow> held" where
  "holds_more c m l u h =
    \<lparr>held_clients = held_clients h + c, held_semaphores = held_semaphores h + m,
     held_links = held_links h + l, held_subscriptions = held_subscriptions h + u\<rparr>"

lemma held_snoc [simp]:
  "held_after (log @ es) =
    holds_more (sum_list (map client_delta es)) (sum_list (map semaphore_delta es))
      (sum_list (map link_delta es)) (sum_list (map subscription_delta es)) (held_after log)"
  by (simp add: held_after_def holds_more_def)

lemma holds_more_0 [simp]: "holds_more 0 0 0 0 h = h"
  by (simp add: holds_more_def)

lemma holds_more_twice [simp]:
  "holds_more c m l u (holds_more c' m' l' u' h) = holds_more (c' + c) (m' + m) (l' + l) (u' + u) h"
  by (simp add: holds_more_def)

lemma held_log_if [simp]: "neutral e \<Longrightarrow> held_after (log_if p e log) = held_after log"
  by (simp add: log_if_def neutral_def)

lemma neutral_events [simp]:
  "neutral (EvProgress p)" "neutral (EvCommandProgress i)" "neutral (EvResponse r)"
  "neutral (EvScan t)" "neutral (EvWrite b ok)" "neutral (EvWait t v)"
  "neutral (EvNotifications ns)" "neutral EvTerminate"
  by (simp_all add: neutral_def)

text \<open>A successful connection holds one client and one link, a failed one holds nothing.\<close>

lemma connect_service_held:
  assumes "connect_switchbot_service env target t label log = (res, log')"
  shows "held_after log' =
    (case res of Inl _ \<Rightarrow> held_after log | Inr _ \<Rightarrow> holds_more 1 0 1 0 (held_after log))"
  using assms
  by (auto simp: connect_switchbot_service_def Let_def split: if_splits prod.splits)

lemma discover_held: "discover_target env mac t log = (a, log') \<Longrightarrow> held_after log' = held_after log"
  by (auto simp: discover_target_def Let_def)

end
