(* ===== verification/Physical_Lock.thy ===== *)
theory Physical_Lock
  imports Ble_Client
begin

text \<open>
  The physical-lock client (\<open>PhysicalLockClient\<close> of \<open>physical_lock.h\<close> and \<open>physical_lock.cpp\<close>): the
  connection with its cached address, the encrypted session, command sequences, and provisioning
  with verification. The ciphers are parameters; the BLE stack and the lock are a \<open>ble_env\<close>. A
  callback argument that may be null is a flag; its calls are events of the history.
\<close>

definition LOCK_MAGIC :: byte where "LOCK_MAGIC = 0x57"
definition WIRE_HEADER_LEN :: nat where "WIRE_HEADER_LEN = 4"

lemmas lock_consts [layout_simps] = LOCK_MAGIC_def WIRE_HEADER_LEN_def

subsection \<open>Configuration, session and ciphers\<close>

record lock_config =
  cfg_mac :: string
  cfg_model :: physical_lock_model
  cfg_key_id :: byte
  cfg_key :: "byte list"

datatype crypto_mode = CTR | GCM

record wire_session =
  ws_mode :: crypto_mode
  ws_ctr_iv :: "byte list"
  ws_gcm_iv :: "byte list"

definition default_wire_session :: wire_session where
  "default_wire_session = \<lparr>ws_mode = CTR, ws_ctr_iv = replicate 16 0, ws_gcm_iv = replicate 12 0\<rparr>"

text \<open>
  The raw-key ciphers of \<open>aes_ctr.h\<close>: key, IV and input to the output (and the GCM tag), \<open>None\<close> when
  the operation fails.
\<close>

record lock_ciphers =
  ctr_raw_key :: "byte list \<Rightarrow> byte list \<Rightarrow> byte list \<Rightarrow> byte list option"
  gcm_encrypt_raw_key :: "byte list \<Rightarrow> byte list \<Rightarrow> byte list \<Rightarrow> (byte list \<times> byte list) option"
  gcm_decrypt_raw_key :: "byte list \<Rightarrow> byte list \<Rightarrow> byte list \<Rightarrow> byte list option"

subsection \<open>Wire format\<close>

definition parse_session_response :: "byte list \<Rightarrow> string + wire_session" where
  "parse_session_response wire =
    (if length wire < WIRE_HEADER_LEN \<or> wire ! 0 \<noteq> 0x01
     then Inl ''Lock returned a malformed encryption-session response.''
     else
       let mode = normalize_mode_byte (wire ! 2)
       in if mode = 1
          then if length wire < 20 then Inl ''Lock returned a short AES-GCM IV.''
               else Inr (default_wire_session\<lparr>ws_mode := GCM,
                 ws_gcm_iv := take 12 (drop WIRE_HEADER_LEN wire)\<rparr>)
          else if length wire < WIRE_HEADER_LEN + 16 then Inl ''Lock returned a short AES-CTR IV.''
          else Inr (default_wire_session\<lparr>ws_mode := CTR,
                 ws_ctr_iv := take 16 (drop WIRE_HEADER_LEN wire)\<rparr>))"

definition iv_request_for :: "byte \<Rightarrow> byte list" where
  "iv_request_for key_id = [LOCK_MAGIC, 0x00, 0x00, 0x00, 0x0F, 0x21, 0x03, key_id]"

text \<open>The frame \<open>send_encrypted_\<close> builds before it writes it.\<close>

definition encrypt_frame ::
  "lock_ciphers \<Rightarrow> lock_config \<Rightarrow> wire_session \<Rightarrow> byte list \<Rightarrow> string + byte list" where
  "encrypt_frame cr config session plaintext =
    (if ws_mode session = GCM
     then (case gcm_encrypt_raw_key cr (cfg_key config) (ws_gcm_iv session) plaintext of
             None \<Rightarrow> Inl ''Could not encrypt lock command with AES-GCM.''
           | Some (ct, tag) \<Rightarrow> Inr ([LOCK_MAGIC, cfg_key_id config, tag ! 0, tag ! 1] @ ct))
     else (case ctr_raw_key cr (cfg_key config) (ws_ctr_iv session) plaintext of
             None \<Rightarrow> Inl ''Could not encrypt lock command with AES-CTR.''
           | Some ct \<Rightarrow>
               Inr ([LOCK_MAGIC, cfg_key_id config, ws_ctr_iv session ! 0, ws_ctr_iv session ! 1] @ ct)))"

definition decrypt_notify ::
  "lock_ciphers \<Rightarrow> lock_config \<Rightarrow> wire_session \<Rightarrow> byte list \<Rightarrow> string + byte list" where
  "decrypt_notify cr config session wire =
    (if length wire < WIRE_HEADER_LEN then Inl ''Lock returned a malformed notification.''
     else
       let payload = drop WIRE_HEADER_LEN wire
       in if payload = [] then Inr []
          else if ws_mode session = GCM
          then (case gcm_decrypt_raw_key cr (cfg_key config) (increment_gcm_iv (ws_gcm_iv session)) payload of
                  None \<Rightarrow> Inl ''Could not decrypt lock response with AES-GCM.''
                | Some out \<Rightarrow> Inr out)
          else (case ctr_raw_key cr (cfg_key config) (ws_ctr_iv session) payload of
                  None \<Rightarrow> Inl ''Could not decrypt lock response with AES-CTR.''
                | Some out \<Rightarrow> Inr out))"

subsection \<open>The connection\<close>

record lock_client =
  cached_addr :: ble_address
  cached_mac :: string

definition initial_client :: lock_client where
  "initial_client = \<lparr>cached_addr = null_address, cached_mac = []\<rparr>"

text \<open>
  One iteration of the attempt loop of \<open>connect_\<close> from its target on; \<open>None\<close> is the \<open>continue\<close> of a
  failed first attempt.
\<close>

definition try_target ::
  "ble_env \<Rightarrow> bool \<Rightarrow> lock_config \<Rightarrow> nat \<Rightarrow> ble_address \<Rightarrow> lock_client \<Rightarrow> ble_log \<Rightarrow>
    (string + unit) option \<times> lock_client \<times> ble_log" where
  "try_target env progress config attempt target c log =
    (case connect_switchbot_service env target 5000 ''physical lock''
            (log_if progress (EvProgress PHASE_CONNECT) log) of
       (Inl e, log1) \<Rightarrow>
         if attempt = 0 then (None, c\<lparr>cached_mac := []\<rparr>, log1) else (Some (Inl e), c, log1)
     | (Inr _, log1) \<Rightarrow>
         (Some (Inr ()), c\<lparr>cached_addr := target, cached_mac := cfg_mac config\<rparr>,
          log_if progress (EvProgress PHASE_DISCOVER) log1))"

fun connect_attempts ::
  "ble_env \<Rightarrow> bool \<Rightarrow> lock_config \<Rightarrow> nat list \<Rightarrow> lock_client \<Rightarrow> ble_log \<Rightarrow>
    (string + unit) \<times> lock_client \<times> ble_log" where
  "connect_attempts env progress config [] c log =
    (Inl ''Could not connect to the physical lock.'', c, log)"
| "connect_attempts env progress config (attempt # rest) c log =
    (let (target, log1) =
           (if attempt = 0
            then (if cached_mac c \<noteq> [] \<and> cached_mac c = cfg_mac config then cached_addr c
                  else address_from_mac (cfg_mac config), log)
            else discover_target env (cfg_mac config) 2500
                   (log_if progress (EvProgress PHASE_SCAN) log))
     in if attempt \<noteq> 0 \<and> target = null_address
        then (Inl ''Could not see the lock over BLE. Keep it near the bridge and retry.'', c, log1)
        else (case try_target env progress config attempt target c log1 of
                (None, c', log2) \<Rightarrow> connect_attempts env progress config rest c' log2
              | (Some res, c', log2) \<Rightarrow> (res, c', log2)))"

definition connect_lock ::
  "ble_env \<Rightarrow> bool \<Rightarrow> lock_config \<Rightarrow> lock_client \<Rightarrow> ble_log \<Rightarrow> (string + unit) \<times> lock_client \<times> ble_log" where
  "connect_lock env progress config c log = connect_attempts env progress config [0..<2] c log"

text \<open>The notification semaphore and the subscription, with the clean-up of their error paths.\<close>

definition subscribe_notify :: "ble_env \<Rightarrow> ble_log \<Rightarrow> (string + unit) \<times> ble_log" where
  "subscribe_notify env log =
    (let sem = env_semaphore env log;
         log1 = log @ [EvCreateSemaphore sem]
     in if \<not> sem
        then (Inl ''Could not allocate lock notification semaphore.'',
              log1 @ [EvDisconnect, EvDeleteClient])
        else
          let ok = env_subscribe env log1;
              log2 = log1 @ [EvSubscribe ok]
          in if \<not> ok
             then (Inl ''Could not subscribe to lock notifications.'',
                   log2 @ [EvDeleteSemaphore, EvDisconnect, EvDeleteClient])
             else (Inr (), log2))"

definition teardown :: "ble_log \<Rightarrow> ble_log" where
  "teardown log = log @ [EvUnsubscribe, EvDeleteSemaphore, EvDisconnect, EvDeleteClient]"

subsection \<open>Encrypted exchanges\<close>

definition send_encrypted ::
  "ble_env \<Rightarrow> lock_ciphers \<Rightarrow> lock_config \<Rightarrow> wire_session \<Rightarrow> byte list \<Rightarrow> ble_log \<Rightarrow>
    (string + unit) \<times> ble_log" where
  "send_encrypted env cr config session plaintext log =
    (case encrypt_frame cr config session plaintext of
       Inl e \<Rightarrow> (Inl e, log)
     | Inr frame \<Rightarrow>
         let ok = env_write env log frame;
             log1 = log @ [EvWrite frame ok]
         in if \<not> ok then (Inl ''Could not write encrypted command to the lock.'', log1)
            else (Inr (), log1))"

text \<open>
  The command loop of both exchanges. \<open>announce i\<close> are the progress callbacks before command \<open>i\<close>;
  \<open>response_callback\<close> tells whether each response is also handed to a callback. The responses
  collected before a failure stay in the out-parameter, so they are part of the result.
\<close>

fun command_loop ::
  "ble_env \<Rightarrow> lock_ciphers \<Rightarrow> lock_config \<Rightarrow> wire_session \<Rightarrow> (nat \<Rightarrow> ble_event list) \<Rightarrow> bool \<Rightarrow> nat \<Rightarrow>
    byte list list \<Rightarrow> byte list list \<Rightarrow> ble_log \<Rightarrow> (string + unit) \<times> byte list list \<times> ble_log" where
  "command_loop env cr config session announce response_callback i [] responses log =
    (Inr (), responses, log)"
| "command_loop env cr config session announce response_callback i (cmd # cmds) responses log =
    (case send_encrypted env cr config session cmd (log @ announce i) of
       (Inl e, log1) \<Rightarrow> (Inl e, responses, log1)
     | (Inr _, log1) \<Rightarrow>
         let notify = env_wait env log1 2500;
             log2 = log1 @ [EvWait 2500 notify]
         in case notify of
              None \<Rightarrow> (Inl ''Lock did not answer the forwarded command.'', responses, log2)
            | Some wire \<Rightarrow>
                (case decrypt_notify cr config session wire of
                   Inl e \<Rightarrow> (Inl e, responses, log2)
                 | Inr response \<Rightarrow>
                     command_loop env cr config session announce response_callback (Suc i) cmds
                       (responses @ [response])
                       (log_if response_callback (EvResponse response) log2)))"

text \<open>
  Opening a session and running commands under it; \<open>no_request\<close> and \<open>no_session\<close> are the two
  messages that differ between the callers.
\<close>

definition run_session ::
  "ble_env \<Rightarrow> lock_ciphers \<Rightarrow> lock_config \<Rightarrow> string \<Rightarrow> string \<Rightarrow> bool \<Rightarrow> (nat \<Rightarrow> ble_event list) \<Rightarrow> bool \<Rightarrow>
    byte list list \<Rightarrow> ble_log \<Rightarrow> (string + unit) \<times> byte list list \<times> ble_log" where
  "run_session env cr config no_request no_session progress announce response_callback commands log =
    (let log1 = log_if progress (EvProgress PHASE_SESSION) log;
         iv_req = iv_request_for (cfg_key_id config);
         ok = env_write env log1 iv_req;
         log2 = log1 @ [EvWrite iv_req ok]
     in if \<not> ok then (Inl no_request, [], log2)
        else
          let notify = env_wait env log2 3000;
              log3 = log2 @ [EvWait 3000 notify]
          in case notify of
               None \<Rightarrow> (Inl no_session, [], log3)
             | Some wire \<Rightarrow>
                 (case parse_session_response wire of
                    Inl e \<Rightarrow> (Inl e, [], log3)
                  | Inr session \<Rightarrow>
                      command_loop env cr config session announce response_callback 0 commands [] log3))"

definition progress_command :: "bool \<Rightarrow> nat \<Rightarrow> ble_event list" where
  "progress_command progress i = (if progress then [EvProgress PHASE_COMMAND] else [])"

definition send_plaintext_sequence ::
  "ble_env \<Rightarrow> lock_ciphers \<Rightarrow> lock_config \<Rightarrow> byte list list \<Rightarrow> bool \<Rightarrow> bool \<Rightarrow> lock_client \<Rightarrow> ble_log \<Rightarrow>
    (string + unit) \<times> byte list list \<times> lock_client \<times> ble_log" where
  "send_plaintext_sequence env cr config commands progress response_callback c log =
    (if commands = [] then (Inl ''Empty lock command sequence.'', [], c, log)
     else if [] \<in> set commands then (Inl ''Empty lock command in sequence.'', [], c, log)
     else
       (case connect_lock env progress config c log of
          (Inl e, c1, log1) \<Rightarrow> (Inl e, [], c1, log1)
        | (Inr _, c1, log1) \<Rightarrow>
            (case subscribe_notify env log1 of
               (Inl e, log2) \<Rightarrow> (Inl e, [], c1, log2)
             | (Inr _, log2) \<Rightarrow>
                 let (res, responses, log3) =
                       run_session env cr config ''Could not request a lock encryption session.''
                         ''Lock did not open an encryption session.'' progress
                         (progress_command progress) response_callback commands log2
                 in (res, responses, c1, teardown log3))))"

definition send_plaintext ::
  "ble_env \<Rightarrow> lock_ciphers \<Rightarrow> lock_config \<Rightarrow> byte list \<Rightarrow> bool \<Rightarrow> bool \<Rightarrow> lock_client \<Rightarrow> ble_log \<Rightarrow>
    (string + byte list) \<times> lock_client \<times> ble_log" where
  "send_plaintext env cr config plaintext progress response_callback c log =
    (if plaintext = [] then (Inl ''Empty lock command.'', c, log)
     else
       let (res, responses, c1, log1) =
             send_plaintext_sequence env cr config [plaintext] progress response_callback c log
       in case res of
            Inl e \<Rightarrow> (Inl e, c1, log1)
          | Inr _ \<Rightarrow> (Inr (if responses \<noteq> [] then hd responses else []), c1, log1))"

definition verify_lock ::
  "ble_env \<Rightarrow> lock_ciphers \<Rightarrow> lock_config \<Rightarrow> bool \<Rightarrow> lock_client \<Rightarrow> ble_log \<Rightarrow>
    (string + unit) \<times> lock_client \<times> ble_log" where
  "verify_lock env cr config progress c log =
    (case lock_info_plaintext (cfg_model config) of
       None \<Rightarrow> (Inl ''Unsupported SwitchBot Lock model.'', c, log)
     | Some cmd \<Rightarrow>
         (case send_plaintext env cr config cmd progress False c log of
            (Inl e, c1, log1) \<Rightarrow> (Inl e, c1, log1)
          | (Inr response, c1, log1) \<Rightarrow>
              if response = []
              then (Inl ''Shared key verified but no lock-info payload was returned.'', c1, log1)
              else if \<not> lock_info_response_plausible (cfg_model config) response
              then (Inl ''The lock answered, but the shared-key lock-info payload was not valid.'', c1, log1)
              else (Inr (), c1, log1)))"

definition check_verify_responses :: "lock_config \<Rightarrow> byte list list \<Rightarrow> string + unit" where
  "check_verify_responses shared_config verify_responses =
    (if verify_responses = [] \<or> hd verify_responses = []
     then Inl ''Shared key verified but no lock-info payload was returned.''
     else if \<not> lock_info_response_plausible (cfg_model shared_config) (hd verify_responses)
     then Inl ''The lock answered, but the shared-key lock-info payload was not valid.''
     else Inr ())"

definition announce_commands :: "bool \<Rightarrow> bool \<Rightarrow> nat \<Rightarrow> ble_event list" where
  "announce_commands command_progress progress i =
    (if command_progress then [EvCommandProgress i] else progress_command progress i)"

definition provision_and_verify_shared_key ::
  "ble_env \<Rightarrow> lock_ciphers \<Rightarrow> lock_config \<Rightarrow> byte list list \<Rightarrow> lock_config \<Rightarrow> bool \<Rightarrow> bool \<Rightarrow> bool \<Rightarrow>
    lock_client \<Rightarrow> ble_log \<Rightarrow> (string + unit) \<times> byte list list \<times> lock_client \<times> ble_log" where
  "provision_and_verify_shared_key env cr provisioning_config provision_commands shared_config
     provision_progress provision_command_progress verify_progress c log =
    (if provision_commands = [] then (Inl ''Empty lock provisioning command sequence.'', [], c, log)
     else if [] \<in> set provision_commands then (Inl ''Empty lock provisioning command.'', [], c, log)
     else
       (case lock_info_plaintext (cfg_model shared_config) of
          None \<Rightarrow> (Inl ''Unsupported SwitchBot Lock model.'', [], c, log)
        | Some verify_cmd \<Rightarrow>
            (case connect_lock env provision_progress provisioning_config c log of
               (Inl e, c1, log1) \<Rightarrow> (Inl e, [], c1, log1)
             | (Inr _, c1, log1) \<Rightarrow>
                 (case subscribe_notify env log1 of
                    (Inl e, log2) \<Rightarrow> (Inl e, [], c1, log2)
                  | (Inr _, log2) \<Rightarrow>
                      (case run_session env cr provisioning_config
                              ''Could not request a lock provisioning encryption session.''
                              ''Lock did not open the lock provisioning encryption session.''
                              provision_progress
                              (announce_commands provision_command_progress provision_progress)
                              False provision_commands log2 of
                         (Inl e, responses, log3) \<Rightarrow> (Inl e, responses, c1, teardown log3)
                       | (Inr _, responses, log3) \<Rightarrow>
                           (case run_session env cr shared_config
                                   ''Could not request a shared-key verification encryption session.''
                                   ''Lock did not open the shared-key verification encryption session.''
                                   verify_progress (announce_commands False verify_progress)
                                   False [verify_cmd] log3 of
                              (Inl e, _, log4) \<Rightarrow> (Inl e, responses, c1, teardown log4)
                            | (Inr _, verify_responses, log4) \<Rightarrow>
                                (check_verify_responses shared_config verify_responses,
                                 responses, c1, teardown log4)))))))"

subsection \<open>What each step holds\<close>

lemma sum_list_neutral:
  assumes "\<forall>e \<in> set es. neutral e"
  shows "held_after (log @ es) = held_after log"
  using assms by (induction es arbitrary: log) (simp_all add: neutral_def)

lemma try_target_held:
  assumes "try_target env p config n target c log = (res, c', log')"
  shows "held_after log' =
    (case res of Some (Inr _) \<Rightarrow> holds_more 1 0 1 0 (held_after log) | _ \<Rightarrow> held_after log)"
  using assms
  by (auto simp: try_target_def dest!: connect_service_held split: prod.splits sum.splits if_splits)

lemma connect_attempts_held:
  "connect_attempts env p config ns c log = (res, c', log') \<Longrightarrow> held_after log' =
    (case res of Inl _ \<Rightarrow> held_after log | Inr _ \<Rightarrow> holds_more 1 0 1 0 (held_after log))"
proof (induction ns arbitrary: c log)
  case (Cons n ns)
  obtain target log1 where t: "(if n = 0
      then (if cached_mac c \<noteq> [] \<and> cached_mac c = cfg_mac config then cached_addr c
            else address_from_mac (cfg_mac config), log)
      else discover_target env (cfg_mac config) 2500 (log_if p (EvProgress PHASE_SCAN) log)) =
      (target, log1)"
    by (metis prod.exhaust)
  then have log1: "held_after log1 = held_after log"
    by (auto dest: discover_held split: if_splits)
  obtain r c2 log2 where tr: "try_target env p config n target c log1 = (r, c2, log2)"
    by (metis prod_cases3)
  note h = try_target_held [OF tr]
  have eq: "connect_attempts env p config (n # ns) c log =
      (if n \<noteq> 0 \<and> target = null_address
       then (Inl ''Could not see the lock over BLE. Keep it near the bridge and retry.'', c, log1)
       else (case r of None \<Rightarrow> connect_attempts env p config ns c2 log2
             | Some x \<Rightarrow> (x, c2, log2)))"
    by (simp only: connect_attempts.simps t tr Let_def prod.case)
  show ?case
  proof (cases "n \<noteq> 0 \<and> target = null_address")
    case True
    then show ?thesis using Cons.prems log1 unfolding eq if_P [OF True] by auto
  next
    case False
    show ?thesis
    proof (cases r)
      case None
      then have "connect_attempts env p config ns c2 log2 = (res, c', log')"
        using Cons.prems unfolding eq if_not_P [OF False] by simp
      from Cons.IH [OF this] h None log1 show ?thesis by (simp split: sum.splits)
    next
      case (Some x)
      then have "x = res" "log2 = log'"
        using Cons.prems unfolding eq if_not_P [OF False] by simp_all
      with h Some log1 show ?thesis by (simp split: sum.splits)
    qed
  qed
qed auto

lemma subscribe_held:
  assumes "subscribe_notify env log = (res, log')"
  shows "held_after log' = (case res of
    Inl _ \<Rightarrow> holds_more (-1) 0 (-1) 0 (held_after log) | Inr _ \<Rightarrow> holds_more 0 1 0 1 (held_after log))"
  using assms by (auto simp: subscribe_notify_def Let_def split: if_splits)

lemma teardown_held: "held_after (teardown log) = holds_more (-1) (-1) (-1) (-1) (held_after log)"
  by (simp add: teardown_def)

lemma send_encrypted_held:
  "send_encrypted env cr config s pt log = (res, log') \<Longrightarrow> held_after log' = held_after log"
  by (auto simp: send_encrypted_def Let_def split: sum.splits if_splits)

lemma command_loop_held:
  assumes "\<And>i. \<forall>e \<in> set (announce i). neutral e"
  shows "command_loop env cr config s announce cb i cmds rs log = (res, rs', log') \<Longrightarrow>
    held_after log' = held_after log"
proof (induction cmds arbitrary: i rs log)
  case (Cons cmd cmds)
  obtain r1 log1 where s: "send_encrypted env cr config s cmd (log @ announce i) = (r1, log1)"
    by (metis prod.exhaust)
  have h: "held_after log1 = held_after log"
    using send_encrypted_held [OF s] sum_list_neutral [OF assms [of i]] by simp
  have w: "held_after (log1 @ [EvWait 2500 v]) = held_after log1" for v
    by simp
  from Cons.prems s Cons.IH [of "Suc i"] h w show ?case
    by (auto simp: Let_def split: sum.splits option.splits)
qed simp

lemma announce_neutral:
  "\<forall>e \<in> set (progress_command p i). neutral e" "\<forall>e \<in> set (announce_commands b p i). neutral e"
  by (simp_all add: progress_command_def announce_commands_def)

lemma run_session_held:
  assumes "\<And>i. \<forall>e \<in> set (announce i). neutral e"
    and "run_session env cr config m1 m2 p announce cb cmds log = (res, rs, log')"
  shows "held_after log' = held_after log"
  using assms(2)
  by (auto simp: run_session_def Let_def dest!: command_loop_held [OF assms(1)]
      split: if_splits option.splits sum.splits)

subsection \<open>What an exchange writes and reads\<close>

definition writes_of :: "ble_log \<Rightarrow> (byte list \<times> bool) list" where
  "writes_of log = concat (map (\<lambda>e. case e of EvWrite b ok \<Rightarrow> [(b, ok)] | _ \<Rightarrow> []) log)"

definition notified :: "ble_log \<Rightarrow> byte list list" where
  "notified log = concat (map (\<lambda>e. case e of EvWait _ (Some w) \<Rightarrow> [w] | _ \<Rightarrow> []) log)"

lemma trace_append [simp]:
  "writes_of (log @ es) = writes_of log @ writes_of es" "notified (log @ es) = notified log @ notified es"
  by (simp_all add: writes_of_def notified_def)

lemma trace_single [simp]:
  "writes_of [] = []" "notified [] = []"
  "writes_of (EvWrite b ok # es) = (b, ok) # writes_of es" "notified (EvWrite b ok # es) = notified es"
  "writes_of (EvWait t v # es) = writes_of es"
  "notified (EvWait t v # es) = (case v of Some w \<Rightarrow> [w] | None \<Rightarrow> []) @ notified es"
  "writes_of (EvResponse b # es) = writes_of es" "notified (EvResponse b # es) = notified es"
  "writes_of (EvProgress p # es) = writes_of es" "notified (EvProgress p # es) = notified es"
  "writes_of (EvCommandProgress i # es) = writes_of es"
  "notified (EvCommandProgress i # es) = notified es"
  "writes_of (EvScan n # es) = writes_of es" "notified (EvScan n # es) = notified es"
  "writes_of (EvCreateClient ok # es) = writes_of es" "notified (EvCreateClient ok # es) = notified es"
  "writes_of (EvConnect a n ok # es) = writes_of es" "notified (EvConnect a n ok # es) = notified es"
  "writes_of (EvGetCharacteristics rx tx # es) = writes_of es"
  "notified (EvGetCharacteristics rx tx # es) = notified es"
  "writes_of (EvDisconnect # es) = writes_of es" "notified (EvDisconnect # es) = notified es"
  "writes_of (EvDeleteClient # es) = writes_of es" "notified (EvDeleteClient # es) = notified es"
  "writes_of (EvCreateSemaphore ok # es) = writes_of es" "notified (EvCreateSemaphore ok # es) = notified es"
  "writes_of (EvSubscribe ok # es) = writes_of es" "notified (EvSubscribe ok # es) = notified es"
  "writes_of (EvUnsubscribe # es) = writes_of es" "notified (EvUnsubscribe # es) = notified es"
  "writes_of (EvDeleteSemaphore # es) = writes_of es" "notified (EvDeleteSemaphore # es) = notified es"
  "writes_of (EvNotifications ns # es) = writes_of es" "writes_of (EvTerminate # es) = writes_of es"
  by (simp_all add: writes_of_def notified_def split: option.split)

lemma trace_log_if [simp]:
  "writes_of (log_if p (EvProgress q) log) = writes_of log"
  "notified (log_if p (EvProgress q) log) = notified log"
  "writes_of (log_if p (EvResponse b) log) = writes_of log"
  "notified (log_if p (EvResponse b) log) = notified log"
  by (simp_all add: log_if_def)

lemma announce_silent [simp]:
  "writes_of (progress_command p i) = []" "notified (progress_command p i) = []"
  "writes_of (announce_commands b p i) = []" "notified (announce_commands b p i) = []"
  by (simp_all add: progress_command_def announce_commands_def)

text \<open>
  \<open>exchanged\<close>: the frames of the commands under the session, all written, the notifications that
  answered them, and the responses decrypted from those.
\<close>

definition exchanged ::
  "lock_ciphers \<Rightarrow> lock_config \<Rightarrow> wire_session \<Rightarrow> byte list list \<Rightarrow> byte list list \<Rightarrow>
    (byte list \<times> bool) list \<Rightarrow> byte list list \<Rightarrow> bool" where
  "exchanged cr config s cmds responses written replies \<longleftrightarrow>
    list_all2 (\<lambda>cmd w. encrypt_frame cr config s cmd = Inr (fst w) \<and> snd w) cmds written \<and>
    list_all2 (\<lambda>w r. decrypt_notify cr config s w = Inr r) replies responses \<and>
    length responses = length cmds"

lemma command_loop_success:
  assumes "\<And>i. writes_of (announce i) = []" "\<And>i. notified (announce i) = []"
  shows "command_loop env cr config s announce cb i cmds rs log = (Inr (), rs', log') \<Longrightarrow>
    \<exists>new written replies. rs' = rs @ new \<and> writes_of log' = writes_of log @ written \<and>
      notified log' = notified log @ replies \<and> exchanged cr config s cmds new written replies"
proof (induction cmds arbitrary: i rs log)
  case Nil
  then show ?case by (simp add: exchanged_def)
next
  case (Cons cmd cmds)
  let ?log = "log @ announce i"
  from Cons.prems obtain frame where frame: "encrypt_frame cr config s cmd = Inr frame"
      "env_write env ?log frame"
    by (auto simp: send_encrypted_def Let_def split: sum.splits if_splits)
  let ?log1 = "?log @ [EvWrite frame True]"
  from Cons.prems frame obtain wire r where reply: "env_wait env ?log1 2500 = Some wire"
      "decrypt_notify cr config s wire = Inr r"
    by (auto simp: send_encrypted_def Let_def split: sum.splits option.splits)
  let ?log2 = "log_if cb (EvResponse r) (?log1 @ [EvWait 2500 (Some wire)])"
  have "command_loop env cr config s announce cb (Suc i) cmds (rs @ [r]) ?log2 = (Inr (), rs', log')"
    using Cons.prems frame reply by (simp add: send_encrypted_def Let_def)
  from Cons.IH [OF this] obtain new written replies where
    "rs' = (rs @ [r]) @ new" "writes_of log' = writes_of ?log2 @ written"
    "notified log' = notified ?log2 @ replies" "exchanged cr config s cmds new written replies"
    by blast
  with frame reply assms show ?case
    by (intro exI [of _ "r # new"] exI [of _ "(frame, True) # written"] exI [of _ "wire # replies"])
      (simp add: exchanged_def)
qed

text \<open>A session that failed has fewer responses than commands.\<close>

lemma command_loop_partial:
  "command_loop env cr config s announce cb i cmds rs log = (res, rs', log') \<Longrightarrow>
    \<exists>new. rs' = rs @ new \<and> length new \<le> length cmds \<and> (res \<noteq> Inr () \<longrightarrow> length new < length cmds)"
proof (induction cmds arbitrary: i rs log)
  case (Cons cmd cmds)
  show ?case
    using Cons.prems
    by (auto simp: Let_def split: sum.splits prod.splits option.splits dest!: Cons.IH)
qed simp

lemma run_session_success:
  assumes "\<And>i. writes_of (announce i) = []" "\<And>i. notified (announce i) = []"
    and "run_session env cr config m1 m2 p announce cb cmds log = (Inr (), rs, log')"
  shows "\<exists>s wire written replies. parse_session_response wire = Inr s \<and>
    writes_of log' = writes_of log @ (iv_request_for (cfg_key_id config), True) # written \<and>
    notified log' = notified log @ wire # replies \<and> exchanged cr config s cmds rs written replies"
proof -
  let ?log1 = "log_if p (EvProgress PHASE_SESSION) log" and ?req = "iv_request_for (cfg_key_id config)"
  let ?log2 = "?log1 @ [EvWrite ?req True]"
  from assms(3) obtain wire s where step: "env_write env ?log1 ?req"
      "env_wait env ?log2 3000 = Some wire" "parse_session_response wire = Inr s"
      "command_loop env cr config s announce cb 0 cmds [] (?log2 @ [EvWait 3000 (Some wire)]) =
        (Inr (), rs, log')"
    by (auto simp: run_session_def Let_def split: if_splits option.splits sum.splits)
  from command_loop_success [OF assms(1,2) step(4)] step(3) show ?thesis by fastforce
qed

subsection \<open>Connecting\<close>

definition count_connects :: "ble_log \<Rightarrow> nat" where
  "count_connects log = length (filter (\<lambda>e. case e of EvConnect _ _ _ \<Rightarrow> True | _ \<Rightarrow> False) log)"

definition count_scans :: "ble_log \<Rightarrow> nat" where
  "count_scans log = length (filter (\<lambda>e. case e of EvScan _ \<Rightarrow> True | _ \<Rightarrow> False) log)"

lemma count_append [simp]:
  "count_connects (log @ es) = count_connects log + count_connects es"
  "count_scans (log @ es) = count_scans log + count_scans es"
  by (simp_all add: count_connects_def count_scans_def)

lemma count_log_if [simp]:
  "count_connects (log_if p (EvProgress q) log) = count_connects log"
  "count_scans (log_if p (EvProgress q) log) = count_scans log"
  by (simp_all add: log_if_def count_connects_def count_scans_def)

lemma connect_service_trace:
  assumes "connect_switchbot_service env a t l log = (res, log')"
  shows "count_connects log' \<le> Suc (count_connects log) \<and> count_scans log' = count_scans log \<and>
    writes_of log' = writes_of log \<and> notified log' = notified log"
  using assms
  by (auto simp: connect_switchbot_service_def Let_def count_connects_def count_scans_def
      split: if_splits prod.splits)

lemma try_target_trace:
  assumes "try_target env p config n a c log = (res, c', log')"
  shows "count_connects log' \<le> Suc (count_connects log) \<and> count_scans log' = count_scans log \<and>
    writes_of log' = writes_of log \<and> notified log' = notified log \<and>
    (res = None \<longrightarrow> n = 0 \<and> cached_mac c' = []) \<and>
    (res = Some (Inr ()) \<longrightarrow> cached_mac c' = cfg_mac config \<and> cached_addr c' = a) \<and>
    (\<forall>e. res = Some (Inl e) \<longrightarrow> n \<noteq> 0 \<and> c' = c)"
  using assms
  by (auto simp: try_target_def dest!: connect_service_trace split: prod.splits sum.splits if_splits)

lemma discover_trace:
  assumes "discover_target env mac t log = (a, log')"
  shows "count_connects log' = count_connects log \<and> count_scans log' = Suc (count_scans log) \<and>
    writes_of log' = writes_of log \<and> notified log' = notified log \<and>
    (a \<noteq> null_address \<longrightarrow> upper_mac (addr_text a) = upper_mac mac)"
  using assms
  by (auto simp: discover_target_def Let_def count_connects_def count_scans_def find_Some_iff
      split: option.splits)

lemma connect_lock_unfold:
  "connect_lock env p config c log =
    (case try_target env p config 0
        (if cached_mac c \<noteq> [] \<and> cached_mac c = cfg_mac config then cached_addr c
         else address_from_mac (cfg_mac config)) c log of
      (Some res, c1, log1) \<Rightarrow> (res, c1, log1)
    | (None, c1, log1) \<Rightarrow>
        (case discover_target env (cfg_mac config) 2500 (log_if p (EvProgress PHASE_SCAN) log1) of
           (target, log2) \<Rightarrow>
             if target = null_address
             then (Inl ''Could not see the lock over BLE. Keep it near the bridge and retry.'', c1, log2)
             else (case try_target env p config 1 target c1 log2 of
                (None, c2, log3) \<Rightarrow> (Inl ''Could not connect to the physical lock.'', c2, log3)
              | (Some res, c2, log3) \<Rightarrow> (res, c2, log3))))"
  by (simp add: connect_lock_def upt_rec numeral_2_eq_2 split: prod.split option.split)

lemma connect_lock_trace:
  assumes "connect_lock env p config c log = (res, c', log')"
  shows "count_connects log' \<le> count_connects log + 2 \<and> count_scans log' \<le> count_scans log + 1 \<and>
    writes_of log' = writes_of log \<and> notified log' = notified log \<and>
    (res = Inr () \<longrightarrow> cached_mac c' = cfg_mac config) \<and> (res \<noteq> Inr () \<longrightarrow> cached_mac c' = [])"
proof -
  define target where "target = (if cached_mac c \<noteq> [] \<and> cached_mac c = cfg_mac config
    then cached_addr c else address_from_mac (cfg_mac config))"
  obtain r1 c1 log1 where t1: "try_target env p config 0 target c log = (r1, c1, log1)"
    by (metis prod_cases3)
  obtain a log2 where d: "discover_target env (cfg_mac config) 2500
      (log_if p (EvProgress PHASE_SCAN) log1) = (a, log2)"
    by (metis prod.exhaust)
  obtain r2 c2 log3 where t2: "try_target env p config 1 a c1 log2 = (r2, c2, log3)"
    by (metis prod_cases3)
  note facts = try_target_trace [OF t1] discover_trace [OF d] try_target_trace [OF t2]
  have eq: "connect_lock env p config c log =
      (case r1 of Some x \<Rightarrow> (x, c1, log1)
       | None \<Rightarrow> if a = null_address
           then (Inl ''Could not see the lock over BLE. Keep it near the bridge and retry.'', c1, log2)
           else (case r2 of None \<Rightarrow> (Inl ''Could not connect to the physical lock.'', c2, log3)
              | Some x \<Rightarrow> (x, c2, log3)))"
    unfolding connect_lock_unfold target_def [symmetric] t1 by (simp add: d t2 [unfolded One_nat_def] split: option.split)
  show ?thesis
  proof (cases r1)
    case (Some x)
    with eq assms have "x = res" "c1 = c'" "log1 = log'" by simp_all
    with facts(1) Some show ?thesis by (cases x) auto
  next
    case None
    show ?thesis
    proof (cases "a = null_address")
      case True
      with None eq assms facts(1,2) show ?thesis by auto
    next
      case False
      with None facts(3) obtain x where "r2 = Some x" by auto
      with False None eq assms have "x = res" "c2 = c'" "log3 = log'" by simp_all
      with \<open>r2 = Some x\<close> None facts show ?thesis by (cases x) auto
    qed
  qed
qed

lemma subscribe_trace:
  assumes "subscribe_notify env log = (res, log')"
  shows "writes_of log' = writes_of log \<and> notified log' = notified log"
  using assms by (auto simp: subscribe_notify_def Let_def split: if_splits)

lemma teardown_trace [simp]:
  "writes_of (teardown log) = writes_of log" "notified (teardown log) = notified log"
  by (simp_all add: teardown_def)

subsection \<open>Properties\<close>

lemma run_session_responses:
  assumes "run_session env cr config m1 m2 p announce cb cmds log = (res, rs, log')" "cmds \<noteq> []"
  shows "length rs \<le> length cmds \<and> (res \<noteq> Inr () \<longrightarrow> length rs < length cmds)"
  using assms
  by (auto simp: run_session_def Let_def dest!: command_loop_partial
      split: if_splits option.splits sum.splits)

lemma sequence_cases:
  assumes "send_plaintext_sequence env cr config cmds p cb c log = (res, rs, c', log')"
  obtains (refused) "rs = []" "log' = log" "c' = c" "res \<noteq> Inr ()" "cmds = [] \<or> [] \<in> set cmds"
    | (unconnected) "rs = []" "connect_lock env p config c log = (res, c', log')" "res \<noteq> Inr ()" "cmds \<noteq> []"
    | (unsubscribed) log1 where "rs = []" "connect_lock env p config c log = (Inr (), c', log1)"
        "subscribe_notify env log1 = (res, log')" "res \<noteq> Inr ()" "cmds \<noteq> []"
    | (session) log1 log2 log3 where "connect_lock env p config c log = (Inr (), c', log1)"
        "subscribe_notify env log1 = (Inr (), log2)" "cmds \<noteq> []"
        "run_session env cr config ''Could not request a lock encryption session.''
           ''Lock did not open an encryption session.'' p (progress_command p) cb cmds log2 = (res, rs, log3)"
        "log' = teardown log3"
  using assms unfolding send_plaintext_sequence_def
  by (auto simp: Let_def split: if_splits prod.splits sum.splits)

lemma sequence_held:
  assumes "send_plaintext_sequence env cr config cmds p cb c log = (res, rs, c', log')"
  shows "held_after log' = held_after log"
  using assms
proof (cases rule: sequence_cases)
  case unconnected
  with connect_attempts_held [of env p config "[0..<2]" c log res c' log'] show ?thesis
    by (auto simp: connect_lock_def split: sum.splits)
next
  case (unsubscribed log1)
  with connect_attempts_held [of env p config "[0..<2]" c log "Inr ()" c' log1]
    subscribe_held [OF unsubscribed(3)] show ?thesis
    by (auto simp: connect_lock_def split: sum.splits)
next
  case (session log1 log2 log3)
  with connect_attempts_held [of env p config "[0..<2]" c log "Inr ()" c' log1]
    subscribe_held [OF session(2)] run_session_held [OF announce_neutral(1) session(4)] show ?thesis
    by (simp add: connect_lock_def teardown_held)
qed simp

lemma case_sum_unit:
  "(case r of Inl e \<Rightarrow> Inl e | Inr (_ :: unit) \<Rightarrow> x) = Inr () \<Longrightarrow> r = Inr () \<and> x = Inr ()"
  by (cases r) simp_all

lemma provision_cases:
  assumes "provision_and_verify_shared_key env cr pc cmds sc pp pcp vp c log = (res, rs, c', log')"
  obtains (refused) "rs = []" "log' = log" "c' = c" "res \<noteq> Inr ()"
    | (unconnected) "rs = []" "connect_lock env pp pc c log = (res, c', log')" "res \<noteq> Inr ()"
    | (unsubscribed) log1 where "rs = []" "connect_lock env pp pc c log = (Inr (), c', log1)"
        "subscribe_notify env log1 = (res, log')" "res \<noteq> Inr ()"
    | (provisioning) log1 log2 log3 where "connect_lock env pp pc c log = (Inr (), c', log1)"
        "subscribe_notify env log1 = (Inr (), log2)" "cmds \<noteq> []" "res \<noteq> Inr ()"
        "run_session env cr pc ''Could not request a lock provisioning encryption session.''
           ''Lock did not open the lock provisioning encryption session.''
           pp (announce_commands pcp pp) False cmds log2 = (res, rs, log3)"
        "log' = teardown log3"
    | (verifying) log1 log2 log3 log4 res4 vrs cmd where
        "connect_lock env pp pc c log = (Inr (), c', log1)"
        "subscribe_notify env log1 = (Inr (), log2)" "cmds \<noteq> []"
        "run_session env cr pc ''Could not request a lock provisioning encryption session.''
           ''Lock did not open the lock provisioning encryption session.''
           pp (announce_commands pcp pp) False cmds log2 = (Inr (), rs, log3)"
        "lock_info_plaintext (cfg_model sc) = Some cmd"
        "run_session env cr sc ''Could not request a shared-key verification encryption session.''
           ''Lock did not open the shared-key verification encryption session.''
           vp (announce_commands False vp) False [cmd] log3 = (res4, vrs, log4)"
        "res = (case res4 of Inl e \<Rightarrow> Inl e | Inr _ \<Rightarrow> check_verify_responses sc vrs)"
        "log' = teardown log4"
  using assms unfolding provision_and_verify_shared_key_def
  by (auto simp: Let_def split: if_splits prod.splits sum.splits option.splits)

lemma provision_held:
  assumes "provision_and_verify_shared_key env cr pc cmds sc pp pcp vp c log = (res, rs, c', log')"
  shows "held_after log' = held_after log"
  using assms
proof (cases rule: provision_cases)
  case unconnected
  with connect_attempts_held [of env pp pc "[0..<2]" c log res c' log'] show ?thesis
    by (auto simp: connect_lock_def split: sum.splits)
next
  case (unsubscribed log1)
  with connect_attempts_held [of env pp pc "[0..<2]" c log "Inr ()" c' log1]
    subscribe_held [OF unsubscribed(3)] show ?thesis
    by (auto simp: connect_lock_def split: sum.splits)
next
  case (provisioning log1 log2 log3)
  with connect_attempts_held [of env pp pc "[0..<2]" c log "Inr ()" c' log1]
    subscribe_held [OF provisioning(2)] run_session_held [OF announce_neutral(2) provisioning(5)]
  show ?thesis by (simp add: connect_lock_def teardown_held)
next
  case (verifying log1 log2 log3 log4)
  with connect_attempts_held [of env pp pc "[0..<2]" c log "Inr ()" c' log1]
    subscribe_held [OF verifying(2)] run_session_held [OF announce_neutral(2) verifying(4)]
    run_session_held [OF announce_neutral(2) verifying(6)]
  show ?thesis by (simp add: connect_lock_def teardown_held)
qed simp

text \<open>
  C10. No leak on any path: whatever the BLE stack and the lock do, a command sequence and a
  provisioning leave exactly the BLE clients, links, semaphores and subscriptions behind that were
  there before, also when connecting, subscribing, writing, waiting, decrypting or verifying fails.
\<close>

theorem exchanges_release_everything:
  "(case send_plaintext_sequence env cr config cmds p cb c log of
      (_, _, _, log') \<Rightarrow> held_after log' = held_after log) \<and>
   (case provision_and_verify_shared_key env cr config cmds sc p pcp vp c log of
      (_, _, _, log') \<Rightarrow> held_after log' = held_after log)"
  using sequence_held provision_held by (auto split: prod.splits)


text \<open>
  What a failed sequence leaves: strictly fewer responses than commands, and none at all for a
  sequence that is refused because it or one of its commands is empty; nothing is then sent.
\<close>

theorem sequence_failure:
  assumes "send_plaintext_sequence env cr config cmds p cb c log = (Inl e, rs, c', log')"
  shows "(cmds = [] \<or> [] \<in> set cmds \<longrightarrow> rs = [] \<and> log' = log \<and> c' = c) \<and>
    (cmds \<noteq> [] \<longrightarrow> length rs < length cmds)"
proof -
  have "cmds = [] \<or> [] \<in> set cmds \<longrightarrow> rs = [] \<and> log' = log \<and> c' = c"
    using assms by (cases "cmds = []"; cases "[] \<in> set cmds"; simp add: send_plaintext_sequence_def)
  moreover have "cmds \<noteq> [] \<longrightarrow> length rs < length cmds"
    using assms by (cases rule: sequence_cases) (auto dest: run_session_responses)
  ultimately show ?thesis by blast
qed

text \<open>
  C35. Connecting is bounded: at most two connection attempts and one scan; afterwards the cache
  names the lock that was reached, or nothing, so that a failure forces a fresh address next time.
\<close>

theorem connect_lock_bounded:
  "case connect_lock env p config c log of (res, c', log') \<Rightarrow>
    count_connects log' \<le> count_connects log + 2 \<and> count_scans log' \<le> count_scans log + 1 \<and>
    cached_mac c' = (case res of Inr _ \<Rightarrow> cfg_mac config | Inl _ \<Rightarrow> [])"
  using connect_lock_trace [of env p config c log] by (auto split: prod.splits sum.splits)

text \<open>
  What a successful provisioning proves: on one connection, the provisioning commands were all
  written and answered under the cloud credential, then a second session was opened for the shared
  key slot, the lock-info command of the model was written under the shared key, and the lock's
  answer, decrypted with the shared key, is a plausible lock-info payload.
\<close>

lemma provisioning_is_verified:
  assumes "provision_and_verify_shared_key env cr pc cmds sc pp pcp vp c log = (Inr (), rs, c', log')"
  shows "\<exists>s s' wire wire' written w replies reply info cmd.
    parse_session_response wire = Inr s \<and> parse_session_response wire' = Inr s' \<and>
    lock_info_plaintext (cfg_model sc) = Some cmd \<and>
    writes_of log' = writes_of log @ (iv_request_for (cfg_key_id pc), True) # written @
      [(iv_request_for (cfg_key_id sc), True), w] \<and>
    notified log' = notified log @ wire # replies @ [wire', reply] \<and>
    exchanged cr pc s cmds rs written replies \<and> exchanged cr sc s' [cmd] [info] [w] [reply] \<and>
    lock_info_response_plausible (cfg_model sc) info"
  using assms
proof (cases rule: provision_cases)
  case (verifying log1 log2 log3 log4 res4 vrs cmd)
  note ok = case_sum_unit [OF verifying(7) [symmetric]]
  have "res4 = Inr ()" using ok by (rule conjunct1)
  note t = connect_lock_trace [OF verifying(1)] subscribe_trace [OF verifying(2)]
  obtain s wire written replies where first: "parse_session_response wire = Inr s"
      "writes_of log3 = writes_of log2 @ (iv_request_for (cfg_key_id pc), True) # written"
      "notified log3 = notified log2 @ wire # replies" "exchanged cr pc s cmds rs written replies"
    using run_session_success [OF announce_silent(3,4) verifying(4)] by blast
  obtain s' wire' written' replies' where second: "parse_session_response wire' = Inr s'"
      "writes_of log4 = writes_of log3 @ (iv_request_for (cfg_key_id sc), True) # written'"
      "notified log4 = notified log3 @ wire' # replies'" "exchanged cr sc s' [cmd] vrs written' replies'"
    using run_session_success [OF announce_silent(3,4) verifying(6) [unfolded \<open>res4 = Inr ()\<close>]] by blast
  from second(4) have "length written' = 1" "length replies' = 1" "length vrs = 1"
    by (auto simp: exchanged_def dest: list_all2_lengthD)
  then obtain w reply info where single: "written' = [w]" "replies' = [reply]" "vrs = [info]"
    by (auto simp: length_Suc_conv)
  with ok have "lock_info_response_plausible (cfg_model sc) info"
    by (simp add: check_verify_responses_def split: if_splits)
  moreover have "writes_of log' = writes_of log @ (iv_request_for (cfg_key_id pc), True) # written @
      [(iv_request_for (cfg_key_id sc), True), w]"
    using first(2) second(2) single t verifying(8) by simp
  moreover have "notified log' = notified log @ wire # replies @ [wire', reply]"
    using first(3) second(3) single t verifying(8) by simp
  ultimately show ?thesis
    using first(1,4) second(1,4) single verifying(5) by blast
qed simp_all

subsection \<open>A concrete lock\<close>

text \<open>
  A peer that accepts every connection and write, opens CTR sessions, and answers every command with
  the same payload; the cipher is the XOR stub of the session tests with the whole key.
\<close>

definition stub_ciphers :: lock_ciphers where
  "stub_ciphers =
    \<lparr>ctr_raw_key = (\<lambda>k iv x. Some (map (\<lambda>i. x ! i XOR iv ! (i mod 16) XOR k ! (i mod 16)) [0..<length x])),
     gcm_encrypt_raw_key = (\<lambda>k iv x. None), gcm_decrypt_raw_key = (\<lambda>k iv x. None)\<rparr>"

definition answering_lock :: ble_env where
  "answering_lock =
    \<lparr>env_scan = (\<lambda>_. []), env_create_client = (\<lambda>_. True), env_connect = (\<lambda>_ _. True),
     env_characteristics = (\<lambda>_. (True, True)), env_semaphore = (\<lambda>_. True), env_subscribe = (\<lambda>_. True),
     env_write = (\<lambda>_ _. True),
     env_wait = (\<lambda>_ t. if t = 3000 then Some ([0x01, 0x00, 0x00, 0x00] @ replicate 16 0x11)
                       else Some ([0x01, 0xC6, 0x11, 0x11] @ replicate 6 0x11))\<rparr>"

definition silent_lock :: ble_env where
  "silent_lock = answering_lock\<lparr>env_wait := (\<lambda>_ _. None)\<rparr>"

definition test_lock_config :: lock_config where
  "test_lock_config = \<lparr>cfg_mac = ''B0:E9:FE:61:2E:75'', cfg_model = LOCK_ULTRA, cfg_key_id = 0xC6,
    cfg_key = replicate 16 0\<rparr>"

lemma answering_lock_sequence:
  "case send_plaintext_sequence answering_lock stub_ciphers test_lock_config [[0x0F, 0x4E]] True True
      initial_client [] of (res, rs, _, _) \<Rightarrow> res = Inr () \<and> rs = [replicate 6 0]"
  by code_simp

lemma silent_lock_sequence:
  "case send_plaintext_sequence silent_lock stub_ciphers test_lock_config [[0x0F, 0x4E]] True True
      initial_client [] of (res, rs, _, _) \<Rightarrow> res = Inl ''Lock did not open an encryption session.''"
  by code_simp

lemma answering_lock_provisioning:
  "case provision_and_verify_shared_key answering_lock stub_ciphers test_lock_config [[0x0F, 0x20]]
      test_lock_config True True True initial_client [] of (res, rs, _, _) \<Rightarrow> res = Inr ()"
  by code_simp


theorem sequence_failure_witness:
  "case send_plaintext_sequence silent_lock stub_ciphers test_lock_config [[0x0F, 0x4E]] True True
      initial_client [] of (_, rs, _, _) \<Rightarrow> length rs < 1"
proof -
  obtain res rs c log where run: "send_plaintext_sequence silent_lock stub_ciphers test_lock_config
      [[0x0F, 0x4E]] True True initial_client [] = (res, rs, c, log)"
    by (metis prod_cases4)
  with silent_lock_sequence have "res = Inl ''Lock did not open an encryption session.''" by simp
  from sequence_failure [OF run [unfolded this]] show ?thesis by (simp add: run)
qed

lemma provisioning_is_verified_instance:
  "\<exists>s' info w reply cmd. exchanged stub_ciphers test_lock_config s' [cmd] [info] [w] [reply] \<and>
    lock_info_response_plausible (cfg_model test_lock_config) info"
proof -
  obtain res rs c log where run: "provision_and_verify_shared_key answering_lock stub_ciphers
      test_lock_config [[0x0F, 0x20]] test_lock_config True True True initial_client [] = (res, rs, c, log)"
    by (metis prod_cases4)
  with answering_lock_provisioning have "res = Inr ()" by simp
  from provisioning_is_verified [OF run [unfolded this]] show ?thesis by blast
qed

end
