(* ===== verification/Bridge_State.thy ===== *)
theory Bridge_State
  imports Session_Negotiation Physical_Lock
begin

text \<open>
  The state of the bridge component (\<open>SwitchbotKeypadBridge\<close>, \<open>switchbot_keypad_bridge.h\<close>), the
  preferences it persists and the effects it has. Everything here runs in the ESPHome main task; what
  other tasks hand over are fields of the state (the queues and \<open>pending_*\<close> flags of the source).
  Effects are appended to \<open>out\<close> in the order the calls are made. A sensor or event entity that may be
  absent is a flag of \<open>bridge_config\<close>. Logging is not modelled.
\<close>

definition KEYPAD_NAME_MAX :: nat where "KEYPAD_NAME_MAX = 48"
definition LOCK_NAME_MAX :: nat where "LOCK_NAME_MAX = 48"
definition SHARED_SLOT_ORIGINAL :: byte where "SHARED_SLOT_ORIGINAL = 0x88"
definition SHARED_SLOT_VISION :: byte where "SHARED_SLOT_VISION = 0xC6"
definition BATTERY_SCAN_DURATION_MS :: u32 where "BATTERY_SCAN_DURATION_MS = 5000"
definition BATTERY_SCAN_RETRY_MS :: u32 where "BATTERY_SCAN_RETRY_MS = 30000"

text \<open>The SwitchBot OUI the bridge puts in front of the chip-unique tail of its address.\<close>

definition SPOOFED_OUI :: "byte list" where "SPOOFED_OUI = [0xB0, 0xE9, 0xFE]"

definition RESPONSE_LOCK :: "byte list" where "RESPONSE_LOCK = [0x90, 0x0A, 0x7F, 0x7F, 0x00]"
definition RESPONSE_UNLOCK :: "byte list" where "RESPONSE_UNLOCK = [0x98, 0x08, 0x7F, 0x7F, 0x00]"
definition STATE_PAYLOAD_TAIL :: "byte list" where
  "STATE_PAYLOAD_TAIL =
    [0x08, 0x08, 0x41, 0x00, 0x00, 0x00, 0x00, 0x80, 0xF2, 0xFB, 0x00, 0x00, 0x00]"

lemmas bridge_consts [layout_simps] =
  KEYPAD_NAME_MAX_def LOCK_NAME_MAX_def SHARED_SLOT_ORIGINAL_def SHARED_SLOT_VISION_def
  BATTERY_SCAN_DURATION_MS_def BATTERY_SCAN_RETRY_MS_def RESPONSE_LOCK_def RESPONSE_UNLOCK_def
  STATE_PAYLOAD_TAIL_def

definition is_shared_slot :: "byte \<Rightarrow> bool" where
  "is_shared_slot slot \<longleftrightarrow> slot = SHARED_SLOT_ORIGINAL \<or> slot = SHARED_SLOT_VISION"

subsection \<open>Persisted records\<close>

record keypad_info =
  ki_mac :: "byte list"
  ki_family :: byte
  ki_valid :: byte

definition empty_keypad_info :: keypad_info where
  "empty_keypad_info = \<lparr>ki_mac = replicate 6 0, ki_family = 0, ki_valid = 0\<rparr>"

record linked_lock_info =
  ll_mac :: "byte list"
  ll_reserved :: "byte list"
  ll_slot_id :: byte
  ll_model :: byte
  ll_valid :: byte
  ll_name :: string

definition empty_linked_lock :: linked_lock_info where
  "empty_linked_lock = \<lparr>ll_mac = replicate 6 0, ll_reserved = replicate 16 0, ll_slot_id = 0,
    ll_model = 0, ll_valid = 0, ll_name = replicate LOCK_NAME_MAX (CHR 0x00)\<rparr>"

text \<open>
  \<open>name.copy(buf, n - 1)\<close> into a zeroed buffer of \<open>n\<close> bytes, and the preferences with their four
  keys; \<open>None\<close> is a preference that was never saved.
\<close>

definition name_buffer :: "nat \<Rightarrow> string \<Rightarrow> string" where
  "name_buffer n name = take (n - 1) name @ replicate (n - length (take (n - 1) name)) (CHR 0x00)"

record preferences =
  pref_shared_key :: "byte list option"
  pref_keypad_name :: "string option"
  pref_keypad_info :: "keypad_info option"
  pref_linked_lock :: "linked_lock_info option"

subsection \<open>Effects\<close>

text \<open>The calls that set up the BLE server the bridge pretends to be a lock with.\<close>

datatype gatt_property = GATT_NOTIFY | GATT_WRITE | GATT_WRITE_NR

datatype server_call =
    InitDevice string
  | SetPowerP9
  | CreateServer
  | SetServerCallbacks
  | CreateService string
  | CreateCharacteristic string "gatt_property list"
  | SetRxCallbacks
  | AddServiceUuid string
  | SetManufacturerData "byte list"

definition ADVERTISING_MFG_DATA :: "byte list" where
  "ADVERTISING_MFG_DATA = [0x27, 0x09, 0x00, 0x10, 0xA5, 0xB8, 0x00, 0x00, 0x00]"

definition server_setup :: "server_call list" where
  "server_setup =
    [InitDevice ''WoLock'', SetPowerP9, CreateServer, SetServerCallbacks, CreateService SWITCHBOT_SERVICE_UUID,
     CreateCharacteristic SWITCHBOT_TX_CHAR_UUID [GATT_NOTIFY],
     CreateCharacteristic SWITCHBOT_RX_CHAR_UUID [GATT_WRITE, GATT_WRITE_NR], SetRxCallbacks,
     AddServiceUuid SWITCHBOT_SERVICE_UUID, SetManufacturerData ADVERTISING_MFG_DATA]"

datatype effect =
    Notify "byte list"
  | TriggerEvent string
  | CallOnLock
  | CallOnUnlock string int
  | CallOnDoorbell
  | PublishKeypad string
  | PublishLinkedLock string
  | PublishKeypadBattery "int option"
  | PublishLockBattery "int option"
  | SyncPreferences
  | DestroyKey u32
  | StartRelay lock_config "byte list" decoded_command
  | SetUpServer "server_call list"
  | StartAdvertising
  | ConfigureScan "scan_call list"
  | StartScan u32
  | StopScan
  | ClearScanResults
  | StartSetupUi
  | SetBaseMac "byte list"

subsection \<open>The component\<close>

datatype lock_state = LOCKED | UNLOCKED

fun lock_state_byte :: "lock_state \<Rightarrow> byte" where
  "lock_state_byte LOCKED = 0x81"
| "lock_state_byte UNLOCKED = 0x91"

datatype queued_event = CONNECT | DISCONNECT | RX "byte list"

record bridge_config =
  has_keypad_sensor :: bool
  has_linked_lock_sensor :: bool
  has_keypad_battery :: bool
  has_lock_battery :: bool
  has_keypad_event :: bool
  battery_scan_interval_ms :: u32

text \<open>What the bridge has told the setup wizard (\<open>PairingUi::set_*\<close>).\<close>

record ui_settings =
  ui_keypad_paired :: bool
  ui_keypad_family :: keypad_family
  ui_lock_linked :: bool
  ui_shared_key :: "byte list"

record pending_pair =
  pp_name :: string
  pp_mac :: string
  pp_family :: keypad_family

record pending_lock =
  pl_name :: string
  pl_mac :: string
  pl_model :: physical_lock_model
  pl_slot_id :: byte

record battery_scan =
  next_battery_scan_at :: u32
  scan_active :: bool
  scan_wants_keypad :: bool
  scan_wants_lock :: bool
  keypad_scan_found :: bool
  lock_scan_found :: bool
  scan_keypad_known :: bool
  scan_keypad_mac :: "byte list"
  scan_keypad_family :: byte
  scan_lock_mac :: "byte list"
  scan_lock_model :: physical_lock_model

text \<open>
  The adverts queued for \<open>loop()\<close>: \<open>None\<close> when the pending flag is false. The pending pairing and
  lock link likewise; the pending relay outcome is \<open>relay_ok_\<close> with \<open>relay_command_\<close>.
\<close>

record keypad_advert =
  ka_value :: int
  ka_mac :: "byte list"
  ka_family :: byte

record bridge =
  config :: bridge_config
  prefs :: preferences
  session :: lock_session
  lock_state :: lock_state
  shared_key :: "byte list"
  aes_key_handle :: u32
  linked_lock :: linked_lock_info
  lock_linked :: bool
  lock_relay_busy :: bool
  relay_outcome :: "(decoded_command \<times> bool) option"
  keypad_info :: keypad_info
  keypad_paired :: bool
  pending_pair :: "pending_pair option"
  pending_lock :: "pending_lock option"
  scan :: battery_scan
  last_keypad_battery :: int
  last_lock_battery :: int
  keypad_advert :: "keypad_advert option"
  lock_advert :: "int option"
  rx_queue :: "queued_event list"
  ui :: ui_settings
  failed :: bool
  out :: "effect list"

definition emit :: "effect \<Rightarrow> bridge \<Rightarrow> bridge" where
  "emit e b = b\<lparr>out := out b @ [e]\<rparr>"

definition emit_if :: "bool \<Rightarrow> effect \<Rightarrow> bridge \<Rightarrow> bridge" where
  "emit_if present e b = (if present then emit e b else b)"

definition initial_scan :: battery_scan where
  "initial_scan = \<lparr>next_battery_scan_at = 0, scan_active = False, scan_wants_keypad = False,
    scan_wants_lock = False, keypad_scan_found = False, lock_scan_found = False,
    scan_keypad_known = False, scan_keypad_mac = replicate 6 0, scan_keypad_family = 0,
    scan_lock_mac = replicate 6 0, scan_lock_model = MODEL_UNKNOWN\<rparr>"

text \<open>A constructed component with its configuration and the preferences found in flash.\<close>

definition initial_bridge :: "bridge_config \<Rightarrow> preferences \<Rightarrow> bridge" where
  "initial_bridge cfg p =
    \<lparr>config = cfg, prefs = p, session = initial_session, lock_state = LOCKED,
     shared_key = replicate 16 0, aes_key_handle = PSA_KEY_ID_NULL, linked_lock = empty_linked_lock,
     lock_linked = False, lock_relay_busy = False, relay_outcome = None,
     keypad_info = empty_keypad_info, keypad_paired = False, pending_pair = None,
     pending_lock = None, scan = initial_scan, last_keypad_battery = -1, last_lock_battery = -1,
     keypad_advert = None, lock_advert = None, rx_queue = [],
     ui = \<lparr>ui_keypad_paired = False, ui_keypad_family = ORIGINAL, ui_lock_linked = False,
           ui_shared_key = replicate 16 0\<rparr>,
     failed = False, out = []\<rparr>"

subsection \<open>Publishing\<close>

text \<open>\<open>publish_text_or_unlinked_\<close>: a null or empty string publishes "Unlinked".\<close>

definition text_or_unlinked :: "string option \<Rightarrow> string" where
  "text_or_unlinked v = (case v of Some s \<Rightarrow> if c_str s \<noteq> [] then c_str s else ''Unlinked''
                         | None \<Rightarrow> ''Unlinked'')"

definition publish_keypad :: "string option \<Rightarrow> bridge \<Rightarrow> bridge" where
  "publish_keypad v b = emit_if (has_keypad_sensor (config b)) (PublishKeypad (text_or_unlinked v)) b"

definition publish_linked_lock :: "bridge \<Rightarrow> bridge" where
  "publish_linked_lock b =
    emit_if (has_linked_lock_sensor (config b))
      (PublishLinkedLock (text_or_unlinked
        (if lock_linked b \<and> ll_valid (linked_lock b) \<noteq> 0 \<and> ll_name (linked_lock b) ! 0 \<noteq> CHR 0x00
         then Some (ll_name (linked_lock b)) else None))) b"

definition publish_lock :: "bridge \<Rightarrow> bridge" where
  "publish_lock b = emit CallOnLock (emit_if (has_keypad_event (config b)) (TriggerEvent ''Lock'') b)"

definition publish_unlock :: "unlock_method \<Rightarrow> int \<Rightarrow> bridge \<Rightarrow> bridge" where
  "publish_unlock method index b =
    emit (CallOnUnlock (unlock_method_name method) index)
      (emit_if (has_keypad_event (config b)) (TriggerEvent ''Unlock'') b)"

definition publish_doorbell :: "bridge \<Rightarrow> bridge" where
  "publish_doorbell b =
    emit CallOnDoorbell (emit_if (has_keypad_event (config b)) (TriggerEvent ''Doorbell'') b)"

text \<open>
  \<open>publish_battery_if_changed_\<close> and \<open>reset_battery_sensor_\<close> for the two sensors; \<open>NAN\<close> is \<open>None\<close>.
\<close>

definition publish_keypad_battery_if_changed :: "int \<Rightarrow> bridge \<Rightarrow> bridge" where
  "publish_keypad_battery_if_changed v b =
    (if has_keypad_battery (config b) \<and> v \<noteq> last_keypad_battery b
     then emit (PublishKeypadBattery (Some v)) (b\<lparr>last_keypad_battery := v\<rparr>) else b)"

definition publish_lock_battery_if_changed :: "int \<Rightarrow> bridge \<Rightarrow> bridge" where
  "publish_lock_battery_if_changed v b =
    (if has_lock_battery (config b) \<and> v \<noteq> last_lock_battery b
     then emit (PublishLockBattery (Some v)) (b\<lparr>last_lock_battery := v\<rparr>) else b)"

definition reset_keypad_battery_sensor :: "bridge \<Rightarrow> bridge" where
  "reset_keypad_battery_sensor b =
    emit_if (has_keypad_battery (config b)) (PublishKeypadBattery None) (b\<lparr>last_keypad_battery := -1\<rparr>)"

definition clear_lock_battery :: "bridge \<Rightarrow> bridge" where
  "clear_lock_battery b =
    emit_if (has_lock_battery (config b)) (PublishLockBattery None) (b\<lparr>last_lock_battery := -1\<rparr>)"

definition save_keypad_info :: "bridge \<Rightarrow> bridge" where
  "save_keypad_info b = b\<lparr>prefs := (prefs b)\<lparr>pref_keypad_info := Some (keypad_info b)\<rparr>\<rparr>"

definition save_linked_lock :: "bridge \<Rightarrow> bridge" where
  "save_linked_lock b = b\<lparr>prefs := (prefs b)\<lparr>pref_linked_lock := Some (linked_lock b)\<rparr>\<rparr>"

definition sync :: "bridge \<Rightarrow> bridge" where
  "sync b = emit SyncPreferences b"

end
