(* ===== verification/Bridge_Battery.thy ===== *)
theory Bridge_Battery
  imports Bridge_State
begin

text \<open>
  The battery refresh of the bridge (\<open>maybe_start_battery_scan_\<close> to \<open>clear_lock_battery_\<close> of
  \<open>switchbot_keypad_bridge.cpp\<close>): a short advertisement scan on a 32-bit millisecond deadline, the
  scan callback that runs on the NimBLE task and queues what it parsed, and the appliers that run in
  \<open>loop()\<close>. What the calls read from the platform at that moment is a \<open>radio\<close> record.
\<close>

record radio =
  millis :: u32
  is_scanning :: bool
  scan_starts :: bool
  ui_running :: bool
  connected_count :: nat

abbreviation set_scan :: "(battery_scan \<Rightarrow> battery_scan) \<Rightarrow> bridge \<Rightarrow> bridge" where
  "set_scan f b \<equiv> b\<lparr>scan := f (scan b)\<rparr>"

definition stop_battery_scan :: "radio \<Rightarrow> bridge \<Rightarrow> bridge" where
  "stop_battery_scan env b =
    (let b1 = (if scan_active (scan b)
               then emit ClearScanResults
                      (emit_if (is_scanning env) StopScan
                        (set_scan (\<lambda>s. s\<lparr>scan_active := False\<rparr>) b))
               else b)
     in set_scan (\<lambda>s. s\<lparr>scan_wants_keypad := False, scan_wants_lock := False,
                        keypad_scan_found := False, lock_scan_found := False,
                        scan_keypad_known := False, scan_lock_model := MODEL_UNKNOWN\<rparr>) b1)"

definition set_deadline :: "u32 \<Rightarrow> bridge \<Rightarrow> bridge" where
  "set_deadline t b = set_scan (\<lambda>s. s\<lparr>next_battery_scan_at := t\<rparr>) b"

definition background_ble_busy :: "radio \<Rightarrow> bridge \<Rightarrow> bool" where
  "background_ble_busy env b \<longleftrightarrow> ui_running env \<or> lock_relay_busy b \<or> connected_count env > 0"

definition wants_keypad_battery :: "bridge \<Rightarrow> bool" where
  "wants_keypad_battery b \<longleftrightarrow> has_keypad_battery (config b) \<and> keypad_paired b"

definition wants_lock_battery :: "bridge \<Rightarrow> bool" where
  "wants_lock_battery b \<longleftrightarrow>
    has_lock_battery (config b) \<and> lock_linked b \<and> ll_valid (linked_lock b) \<noteq> 0"

text \<open>The targets of a window are copied when it opens.\<close>

definition prepare_scan :: "bridge \<Rightarrow> bridge" where
  "prepare_scan b =
    (let known = (ki_valid (keypad_info b) \<noteq> 0);
         b1 = set_scan (\<lambda>s. s\<lparr>scan_wants_keypad := wants_keypad_battery b,
                              scan_wants_lock := wants_lock_battery b,
                              keypad_scan_found := False, lock_scan_found := False,
                              scan_keypad_known := known\<rparr>) b;
         b2 = (if known
               then set_scan (\<lambda>s. s\<lparr>scan_keypad_mac := ki_mac (keypad_info b),
                                    scan_keypad_family := ki_family (keypad_info b)\<rparr>) b1
               else b1)
     in if wants_lock_battery b
        then set_scan (\<lambda>s. s\<lparr>scan_lock_mac := ll_mac (linked_lock b),
                             scan_lock_model := PhysicalLockModel (ll_model (linked_lock b))\<rparr>) b2
        else set_scan (\<lambda>s. s\<lparr>scan_lock_model := MODEL_UNKNOWN\<rparr>) b2)"

definition maybe_start_battery_scan :: "radio \<Rightarrow> bridge \<Rightarrow> bridge" where
  "maybe_start_battery_scan env b =
    (let now = millis env in
     if scan_active (scan b)
     then if \<not> is_scanning env
          then set_deadline (now + battery_scan_interval_ms (config b)) (stop_battery_scan env b)
          else b
     else if sint (now - next_battery_scan_at (scan b)) < 0 then b
     else if \<not> wants_keypad_battery b \<and> \<not> wants_lock_battery b
     then set_deadline (now + BATTERY_SCAN_RETRY_MS) b
     else if background_ble_busy env b \<or> is_scanning env
     then set_deadline (now + BATTERY_SCAN_RETRY_MS) b
     else
       let b1 = emit (StartScan BATTERY_SCAN_DURATION_MS)
                  (set_scan (\<lambda>s. s\<lparr>scan_active := True\<rparr>)
                    (emit (ConfigureScan configure_switchbot_scan) (prepare_scan b)))
       in if scan_starts env then b1
          else set_deadline (now + BATTERY_SCAN_RETRY_MS) (stop_battery_scan env b1))"

subsection \<open>The scan callback\<close>

definition handle_battery_advert :: "advertisement \<Rightarrow> bridge \<Rightarrow> bridge" where
  "handle_battery_advert adv b =
    (if \<not> scan_active (scan b) then b
     else
       let mac = addr_bytes (adv_addr adv);
           sd = switchbot_service_data adv;
           mfr = (case adv_mfr adv of Some m \<Rightarrow> m | None \<Rightarrow> []);
           b1 = (if scan_wants_keypad (scan b) \<and> \<not> keypad_scan_found (scan b)
                 then
                   let ident = identify_keypad (Some sd);
                       (keypad_match, family) =
                         (if scan_keypad_known (scan b)
                          then (memcmp_eq 6 mac (scan_keypad_mac (scan b)),
                                KeypadFamily (scan_keypad_family (scan b)))
                          else (is_keypad ident, ident_family ident))
                   in if keypad_match
                      then let battery = parse_keypad_battery family (Some sd) (Some mfr)
                           in if battery \<ge> 0
                              then b\<lparr>keypad_advert := Some \<lparr>ka_value = battery, ka_mac = mac,
                                       ka_family = family_byte family\<rparr>\<rparr>
                              else b
                      else b
                 else b)
       in if scan_wants_lock (scan b1) \<and> \<not> lock_scan_found (scan b1) \<and>
             memcmp_eq 6 mac (scan_lock_mac (scan b1))
          then let battery = parse_lock_battery (scan_lock_model (scan b1)) (Some sd)
                               (Some (switchbot_manufacturer_payload adv))
               in if battery \<ge> 0 then b1\<lparr>lock_advert := Some battery\<rparr> else b1
          else b1)"

text \<open>The scan callback only fills the two slots the main loop reads.\<close>

definition advert_slots_only :: "bridge \<Rightarrow> bridge \<Rightarrow> bool" where
  "advert_slots_only b b' \<longleftrightarrow> (\<exists>ka la. b' = b\<lparr>bridge.keypad_advert := ka, lock_advert := la\<rparr>)"

lemma advert_slots_onlyI [simp]:
  "advert_slots_only b b" "advert_slots_only b (b\<lparr>bridge.keypad_advert := ka\<rparr>)"
  "advert_slots_only b (b\<lparr>lock_advert := la\<rparr>)"
  "advert_slots_only b (b\<lparr>bridge.keypad_advert := ka, lock_advert := la\<rparr>)"
  unfolding advert_slots_only_def
  by (rule exI [of _ "bridge.keypad_advert b"], rule exI [of _ "lock_advert b"], simp)
    (rule exI [of _ ka], rule exI [of _ "lock_advert b"], simp, rule exI [of _ "bridge.keypad_advert b"],
     rule exI [of _ la], simp, blast)

lemma advert_fills_slots: "advert_slots_only b (handle_battery_advert adv b)"
  unfolding handle_battery_advert_def Let_def by (simp split: prod.split)

subsection \<open>Applying in the main loop\<close>

definition apply_pending_keypad_battery :: "bridge \<Rightarrow> bridge" where
  "apply_pending_keypad_battery b =
    (case keypad_advert b of
       None \<Rightarrow> b
     | Some ka \<Rightarrow>
         let b1 = b\<lparr>keypad_advert := None\<rparr>;
             b2 = (if ki_valid (keypad_info b1) = 0
                   then sync (save_keypad_info
                          (b1\<lparr>keypad_info := \<lparr>ki_mac = ka_mac ka, ki_family = ka_family ka,
                                              ki_valid = 1\<rparr>\<rparr>))
                   else b1)
         in publish_keypad_battery_if_changed (ka_value ka)
              (set_scan (\<lambda>s. s\<lparr>keypad_scan_found := True\<rparr>) b2))"

definition apply_pending_lock_battery :: "bridge \<Rightarrow> bridge" where
  "apply_pending_lock_battery b =
    (case lock_advert b of
       None \<Rightarrow> b
     | Some v \<Rightarrow>
         publish_lock_battery_if_changed v
           (set_scan (\<lambda>s. s\<lparr>lock_scan_found := True\<rparr>) (b\<lparr>lock_advert := None\<rparr>)))"

definition maybe_finish_battery_scan :: "radio \<Rightarrow> bridge \<Rightarrow> bridge" where
  "maybe_finish_battery_scan env b =
    (if \<not> scan_active (scan b) then b
     else if scan_wants_keypad (scan b) \<and> \<not> keypad_scan_found (scan b) then b
     else if scan_wants_lock (scan b) \<and> \<not> lock_scan_found (scan b) then b
     else set_deadline (millis env + battery_scan_interval_ms (config b)) (stop_battery_scan env b))"

subsection \<open>Projections\<close>

lemma emit_fields [simp]:
  "config (emit e b) = config b" "prefs (emit e b) = prefs b" "session (emit e b) = session b"
  "bridge.lock_state (emit e b) = bridge.lock_state b" "shared_key (emit e b) = shared_key b"
  "aes_key_handle (emit e b) = aes_key_handle b" "linked_lock (emit e b) = linked_lock b"
  "lock_linked (emit e b) = lock_linked b" "lock_relay_busy (emit e b) = lock_relay_busy b"
  "relay_outcome (emit e b) = relay_outcome b" "bridge.keypad_info (emit e b) = bridge.keypad_info b"
  "keypad_paired (emit e b) = keypad_paired b" "bridge.pending_pair (emit e b) = bridge.pending_pair b"
  "bridge.pending_lock (emit e b) = bridge.pending_lock b" "scan (emit e b) = scan b"
  "last_keypad_battery (emit e b) = last_keypad_battery b"
  "last_lock_battery (emit e b) = last_lock_battery b"
  "bridge.keypad_advert (emit e b) = bridge.keypad_advert b" "lock_advert (emit e b) = lock_advert b"
  "rx_queue (emit e b) = rx_queue b" "ui (emit e b) = ui b" "failed (emit e b) = failed b" "out (emit e b) = out b @ [e]"
  by (simp_all add: emit_def)

lemma emit_if_fields [simp]:
  "config (emit_if p e b) = config b" "prefs (emit_if p e b) = prefs b"
  "session (emit_if p e b) = session b" "bridge.lock_state (emit_if p e b) = bridge.lock_state b"
  "shared_key (emit_if p e b) = shared_key b" "aes_key_handle (emit_if p e b) = aes_key_handle b"
  "linked_lock (emit_if p e b) = linked_lock b" "lock_linked (emit_if p e b) = lock_linked b"
  "lock_relay_busy (emit_if p e b) = lock_relay_busy b" "relay_outcome (emit_if p e b) = relay_outcome b"
  "bridge.keypad_info (emit_if p e b) = bridge.keypad_info b"
  "keypad_paired (emit_if p e b) = keypad_paired b"
  "bridge.pending_pair (emit_if p e b) = bridge.pending_pair b"
  "bridge.pending_lock (emit_if p e b) = bridge.pending_lock b" "scan (emit_if p e b) = scan b"
  "last_keypad_battery (emit_if p e b) = last_keypad_battery b"
  "last_lock_battery (emit_if p e b) = last_lock_battery b"
  "bridge.keypad_advert (emit_if p e b) = bridge.keypad_advert b"
  "lock_advert (emit_if p e b) = lock_advert b"
  "rx_queue (emit_if p e b) = rx_queue b" "ui (emit_if p e b) = ui b" "failed (emit_if p e b) = failed b"
  "out (emit_if p e b) = out b @ (if p then [e] else [])"
  by (simp_all add: emit_if_def)

lemma stop_scan_fields [simp]:
  "config (stop_battery_scan env b) = config b" "prefs (stop_battery_scan env b) = prefs b"
  "session (stop_battery_scan env b) = session b"
  "bridge.lock_state (stop_battery_scan env b) = bridge.lock_state b"
  "shared_key (stop_battery_scan env b) = shared_key b"
  "aes_key_handle (stop_battery_scan env b) = aes_key_handle b"
  "linked_lock (stop_battery_scan env b) = linked_lock b"
  "lock_linked (stop_battery_scan env b) = lock_linked b"
  "lock_relay_busy (stop_battery_scan env b) = lock_relay_busy b"
  "relay_outcome (stop_battery_scan env b) = relay_outcome b"
  "bridge.keypad_info (stop_battery_scan env b) = bridge.keypad_info b"
  "keypad_paired (stop_battery_scan env b) = keypad_paired b"
  "bridge.keypad_advert (stop_battery_scan env b) = bridge.keypad_advert b"
  "lock_advert (stop_battery_scan env b) = lock_advert b"
  "rx_queue (stop_battery_scan env b) = rx_queue b" "ui (stop_battery_scan env b) = ui b"
  "last_keypad_battery (stop_battery_scan env b) = last_keypad_battery b"
  "last_lock_battery (stop_battery_scan env b) = last_lock_battery b"
  by (simp_all add: stop_battery_scan_def Let_def)

subsection \<open>Deadlines on the wrapping clock\<close>

lemma sint_small:
  assumes "- (2 ^ 31) \<le> k" "k < 2 ^ 31"
  shows "sint (of_int k :: u32) = k"
  using assms by (simp add: signed_of_int signed_take_bit_int_eq_self)

lemma sint_clock:
  assumes "d < 2 ^ 31" "e < d + 2 ^ 31"
  shows "sint ((t0 + of_nat e) - (t0 + of_nat d) :: u32) = int e - int d"
proof -
  have "(t0 + of_nat e) - (t0 + of_nat d) = (of_int (int e - int d) :: u32)" by simp
  moreover have "- (2 ^ 31) \<le> int e - int d" "int e - int d < 2 ^ 31"
    using assms by simp_all
  ultimately show ?thesis by (simp only: sint_small)
qed

definition scan_idle :: "radio \<Rightarrow> bridge \<Rightarrow> bool" where
  "scan_idle env b \<longleftrightarrow> \<not> scan_active (scan b) \<and> \<not> is_scanning env \<and> \<not> background_ble_busy env b"

lemma maybe_start_waits:
  "\<not> scan_active (scan b) \<Longrightarrow> sint (millis env - next_battery_scan_at (scan b)) < 0 \<Longrightarrow>
    maybe_start_battery_scan env b = b"
  by (simp add: maybe_start_battery_scan_def Let_def)

lemma maybe_start_opens:
  assumes "scan_idle env b" "\<not> sint (millis env - next_battery_scan_at (scan b)) < 0"
    and "wants_keypad_battery b \<or> wants_lock_battery b" "scan_starts env"
  shows "scan_active (scan (maybe_start_battery_scan env b)) \<and>
    scan_wants_keypad (scan (maybe_start_battery_scan env b)) = wants_keypad_battery b \<and>
    scan_wants_lock (scan (maybe_start_battery_scan env b)) = wants_lock_battery b \<and>
    out (maybe_start_battery_scan env b) = out b @ [ConfigureScan configure_switchbot_scan, StartScan BATTERY_SCAN_DURATION_MS]"
  using assms by (auto simp: maybe_start_battery_scan_def scan_idle_def prepare_scan_def Let_def)


subsection \<open>The battery invariant\<close>

definition battery_inv :: "bridge \<Rightarrow> bool" where
  "battery_inv b \<longleftrightarrow>
    (\<not> scan_active (scan b) \<longrightarrow> \<not> scan_wants_keypad (scan b) \<and> \<not> scan_wants_lock (scan b) \<and>
       \<not> scan_keypad_known (scan b) \<and> scan_lock_model (scan b) = MODEL_UNKNOWN) \<and>
    (case bridge.keypad_advert b of None \<Rightarrow> True
     | Some ka \<Rightarrow> 0 \<le> ka_value ka \<and> ka_value ka \<le> 127 \<and> length (ka_mac ka) = 6) \<and>
    (case lock_advert b of None \<Rightarrow> True | Some v \<Rightarrow> 0 \<le> v \<and> v \<le> 100) \<and>
    -1 \<le> last_keypad_battery b \<and> last_keypad_battery b \<le> 127 \<and>
    -1 \<le> last_lock_battery b \<and> last_lock_battery b \<le> 100"

lemma battery_inv_emit [simp]:
  "battery_inv (emit e b) = battery_inv b" "battery_inv (emit_if p e b) = battery_inv b"
  by (simp_all add: battery_inv_def)

lemma battery_inv_stop: "battery_inv b \<Longrightarrow> battery_inv (stop_battery_scan env b)"
  by (simp add: battery_inv_def stop_battery_scan_def Let_def)

lemma battery_inv_deadline [simp]: "battery_inv (set_deadline t b) = battery_inv b"
  by (simp add: battery_inv_def set_deadline_def)

lemma battery_inv_open:
  "battery_inv b \<Longrightarrow> battery_inv ((emit e (prepare_scan b))\<lparr>scan := (scan (prepare_scan b))\<lparr>scan_active := True\<rparr>\<rparr>)"
  by (simp add: battery_inv_def prepare_scan_def Let_def)

lemma battery_inv_maybe_start: "battery_inv b \<Longrightarrow> battery_inv (maybe_start_battery_scan env b)"
  by (simp add: maybe_start_battery_scan_def Let_def battery_inv_stop battery_inv_open)

lemma battery_inv_maybe_finish: "battery_inv b \<Longrightarrow> battery_inv (maybe_finish_battery_scan env b)"
  by (simp add: maybe_finish_battery_scan_def battery_inv_stop)

lemma length_addr_bytes [simp]: "length (addr_bytes raw) = 6"
  by (simp add: addr_bytes_def)

lemma battery_inv_keypad_advert:
  "battery_inv b \<Longrightarrow> 0 \<le> v \<Longrightarrow> v \<le> 127 \<Longrightarrow> length m = 6 \<Longrightarrow>
    battery_inv (b\<lparr>bridge.keypad_advert := Some \<lparr>ka_value = v, ka_mac = m, ka_family = f\<rparr>\<rparr>)"
  by (simp add: battery_inv_def)

lemma battery_inv_lock_advert:
  "battery_inv b \<Longrightarrow> 0 \<le> v \<Longrightarrow> v \<le> 100 \<Longrightarrow> battery_inv (b\<lparr>lock_advert := Some v\<rparr>)"
  by (simp add: battery_inv_def)

lemma battery_inv_advert: "battery_inv b \<Longrightarrow> battery_inv (handle_battery_advert adv b)"
  using keypad_battery_range lock_battery_range
  by (simp add: handle_battery_advert_def Let_def battery_inv_keypad_advert battery_inv_lock_advert
      split: prod.split)

lemma battery_inv_apply_keypad: "battery_inv b \<Longrightarrow> battery_inv (apply_pending_keypad_battery b)"
  by (auto simp: battery_inv_def apply_pending_keypad_battery_def publish_keypad_battery_if_changed_def
      sync_def save_keypad_info_def Let_def split: option.splits)

lemma battery_inv_apply_lock: "battery_inv b \<Longrightarrow> battery_inv (apply_pending_lock_battery b)"
  by (auto simp: battery_inv_def apply_pending_lock_battery_def publish_lock_battery_if_changed_def
      split: option.splits)

lemma battery_inv_initial: "battery_inv (initial_bridge cfg p)"
  by (simp add: battery_inv_def initial_bridge_def initial_scan_def)

text \<open>The operations of the battery refresh, from the callback to the appliers, in any order.\<close>

datatype battery_op = OpAdvert advertisement | OpApplyKeypad | OpApplyLock | OpFinish radio | OpStart radio

fun battery_step :: "battery_op \<Rightarrow> bridge \<Rightarrow> bridge" where
  "battery_step (OpAdvert adv) b = handle_battery_advert adv b"
| "battery_step OpApplyKeypad b = apply_pending_keypad_battery b"
| "battery_step OpApplyLock b = apply_pending_lock_battery b"
| "battery_step (OpFinish env) b = maybe_finish_battery_scan env b"
| "battery_step (OpStart env) b = maybe_start_battery_scan env b"

lemma battery_inv_step: "battery_inv b \<Longrightarrow> battery_inv (battery_step op b)"
  by (cases op) (simp_all add: battery_inv_advert battery_inv_apply_keypad battery_inv_apply_lock
      battery_inv_maybe_finish battery_inv_maybe_start)

text \<open>A bridge with a paired keypad, a battery sensor and a deadline just behind the clock's wrap.\<close>

definition wrap_bridge :: bridge where
  "wrap_bridge = set_deadline (0xFFFFFFF0 + 32)
    (initial_bridge \<lparr>has_keypad_sensor = True, has_linked_lock_sensor = False, has_keypad_battery = True,
        has_lock_battery = False, has_keypad_event = False, battery_scan_interval_ms = 900000\<rparr>
      \<lparr>pref_shared_key = None, pref_keypad_name = None, pref_keypad_info = None, pref_linked_lock = None\<rparr>)
    \<lparr>keypad_paired := True\<rparr>"

definition idle_radio :: "u32 \<Rightarrow> radio" where
  "idle_radio t = \<lparr>millis = t, is_scanning = False, scan_starts = True, ui_running = False,
    connected_count = 0\<rparr>"


subsection \<open>What is published\<close>

fun battery_effect_ok :: "effect \<Rightarrow> bool" where
  "battery_effect_ok (PublishKeypadBattery (Some v)) \<longleftrightarrow> 0 \<le> v \<and> v \<le> 127"
| "battery_effect_ok (PublishLockBattery (Some v)) \<longleftrightarrow> 0 \<le> v \<and> v \<le> 100"
| "battery_effect_ok (PublishKeypadBattery None) \<longleftrightarrow> False"
| "battery_effect_ok (PublishLockBattery None) \<longleftrightarrow> False"
| "battery_effect_ok (StartScan t) \<longleftrightarrow> t = BATTERY_SCAN_DURATION_MS"
| "battery_effect_ok (ConfigureScan calls) \<longleftrightarrow> calls = configure_switchbot_scan"
| "battery_effect_ok e \<longleftrightarrow> e \<in> {StopScan, ClearScanResults, SyncPreferences}"

definition adds_ok :: "bridge \<Rightarrow> bridge \<Rightarrow> bool" where
  "adds_ok b b' \<longleftrightarrow> (\<exists>es. out b' = out b @ es \<and> list_all battery_effect_ok es)"

lemma adds_okI: "out b' = out b @ es \<Longrightarrow> list_all battery_effect_ok es \<Longrightarrow> adds_ok b b'"
  unfolding adds_ok_def by blast

lemma adds_ok_refl: "out b' = out b \<Longrightarrow> adds_ok b b'"
  by (rule adds_okI [of _ _ "[]"]) simp_all

lemma adds_ok_trans: "adds_ok a b \<Longrightarrow> adds_ok b c \<Longrightarrow> adds_ok a c"
  unfolding adds_ok_def by fastforce

lemma out_stop_scan:
  "out (stop_battery_scan env b) = out b @
    (if scan_active (scan b) then (if is_scanning env then [StopScan] else []) @ [ClearScanResults] else [])"
  by (simp add: stop_battery_scan_def Let_def)

lemma out_set_deadline [simp]: "out (set_deadline t b) = out b"
  by (simp add: set_deadline_def)

lemma adds_ok_stop: "adds_ok b (stop_battery_scan env b)"
  by (rule adds_okI [OF out_stop_scan]) simp

lemma adds_ok_finish: "adds_ok b (maybe_finish_battery_scan env b)"
  using adds_ok_stop [of b env] by (simp add: maybe_finish_battery_scan_def adds_ok_refl adds_ok_def)

lemma out_prepare [simp]: "out (prepare_scan b) = out b"
  by (simp add: prepare_scan_def Let_def)

lemma adds_ok_start: "adds_ok b (maybe_start_battery_scan env b)"
proof -
  have deadline: "adds_ok b (set_deadline t c) = adds_ok b c" for t c
    by (simp add: adds_ok_def)
  have self: "adds_ok b b" by (rule adds_ok_refl) simp
  define b1 where "b1 = emit (StartScan BATTERY_SCAN_DURATION_MS)
    (set_scan (\<lambda>s. s\<lparr>scan_active := True\<rparr>) (emit (ConfigureScan configure_switchbot_scan) (prepare_scan b)))"
  have opened: "adds_ok b b1"
    unfolding b1_def by (rule adds_okI [of _ _ "[ConfigureScan configure_switchbot_scan, StartScan BATTERY_SCAN_DURATION_MS]"]) simp_all
  have closed: "adds_ok b (stop_battery_scan env b1)"
    by (rule adds_ok_trans [OF opened adds_ok_stop])
  show ?thesis
    unfolding maybe_start_battery_scan_def Let_def b1_def [symmetric]
    by (simp add: deadline self opened closed adds_ok_stop)
qed

lemma adds_ok_step: "battery_inv b \<Longrightarrow> adds_ok b (battery_step op b)"
proof (cases op)
  case (OpAdvert adv)
  then show ?thesis
    by (intro adds_ok_refl) (simp add: handle_battery_advert_def Let_def split: prod.split)
next
  case OpApplyKeypad
  moreover assume "battery_inv b"
  ultimately show ?thesis
    by (cases "bridge.keypad_advert b")
      (auto simp: apply_pending_keypad_battery_def battery_inv_def adds_ok_def Let_def sync_def
        save_keypad_info_def publish_keypad_battery_if_changed_def)
next
  case OpApplyLock
  moreover assume "battery_inv b"
  ultimately show ?thesis
    by (cases "lock_advert b")
      (auto simp: apply_pending_lock_battery_def battery_inv_def adds_ok_def
        publish_lock_battery_if_changed_def)
qed (simp_all add: adds_ok_finish adds_ok_start)

definition battery_run :: "battery_op list \<Rightarrow> bridge \<Rightarrow> bridge" where
  "battery_run ops b = foldl (\<lambda>b op. battery_step op b) b ops"

text \<open>
  C38. Battery publishing along any run of adverts, appliers and scan steps, from any state that
  satisfies the battery invariant: the invariant is kept, every published keypad level is a seven-bit
  value, every published lock level a percentage, no level is withdrawn, and the only other effects
  are the scan's own calls and the preference sync of a learned keypad address.
\<close>

theorem battery_run_publishes_levels:
  assumes "battery_inv b"
  shows "battery_inv (battery_run ops b) \<and>
    (\<exists>es. out (battery_run ops b) = out b @ es \<and> list_all battery_effect_ok es)"
proof -
  have "battery_inv (battery_run ops b) \<and> adds_ok b (battery_run ops b)"
    using assms unfolding battery_run_def
  proof (induction ops arbitrary: b)
    case Nil
    then show ?case by (simp add: adds_ok_refl)
  next
    case (Cons op ops)
    from Cons.IH [OF battery_inv_step [OF Cons.prems]] adds_ok_trans [OF adds_ok_step [OF Cons.prems]]
    show ?case by auto
  qed
  then show ?thesis by (simp add: adds_ok_def)
qed

theorem battery_run_publishes_levels_witness:
  "\<exists>es. out (battery_run [OpStart (idle_radio 40), OpApplyKeypad] wrap_bridge) = out wrap_bridge @ es \<and>
    list_all battery_effect_ok es"
proof -
  have "battery_inv wrap_bridge"
    unfolding wrap_bridge_def by (simp add: battery_inv_def initial_bridge_def initial_scan_def set_deadline_def)
  then show ?thesis using battery_run_publishes_levels by blast
qed

end
