(* ===== verification/Bridge_Rx.thy ===== *)
theory Bridge_Rx
  imports Bridge_Battery
begin

text \<open>
  The keypad side of the bridge (\<open>switchbot_keypad_bridge.cpp\<close>, the event queue, the RX path, the
  transport and the relay): a received frame goes through the session, its command is published and
  answered locally, and a copy of its plaintext is handed to the relay task when a lock is linked.
  \<open>task_ok\<close> tells whether FreeRTOS could create the relay task.
\<close>

subsection \<open>Transport\<close>

definition notify :: "byte list \<Rightarrow> bridge \<Rightarrow> bridge" where
  "notify data b = emit (Notify data) b"

definition send_ack :: "frame_header \<Rightarrow> bridge \<Rightarrow> bridge" where
  "send_ack h b = notify [0x01, hdr_key_id h, hdr_seq_a h, hdr_seq_b h] b"

definition send_encrypted_response :: "aes_ctr \<Rightarrow> frame_header \<Rightarrow> byte list \<Rightarrow> bridge \<Rightarrow> bridge" where
  "send_encrypted_response xc h plaintext b =
    (case encrypt_response xc h plaintext (session b) of
       None \<Rightarrow> b
     | Some packet \<Rightarrow> notify packet b)"

definition handle_state_poll :: "aes_ctr \<Rightarrow> frame_header \<Rightarrow> bridge \<Rightarrow> bridge" where
  "handle_state_poll xc h b =
    send_encrypted_response xc h (lock_state_byte (bridge.lock_state b) # STATE_PAYLOAD_TAIL) b"

definition send_local_response :: "aes_ctr \<Rightarrow> frame_header \<Rightarrow> decoded_command \<Rightarrow> bridge \<Rightarrow> bridge" where
  "send_local_response xc h cmd b =
    (case cmd_type cmd of
       CMD_LOCK \<Rightarrow> send_encrypted_response xc h RESPONSE_LOCK b
     | CMD_UNLOCK \<Rightarrow> send_encrypted_response xc h RESPONSE_UNLOCK b
     | CMD_STATE_POLL \<Rightarrow> handle_state_poll xc h b
     | CMD_DOORBELL \<Rightarrow> send_ack h b
     | CMD_UNKNOWN \<Rightarrow> send_ack h b)"

subsection \<open>The relay\<close>

definition physical_lock_config :: "byte \<Rightarrow> bridge \<Rightarrow> lock_config" where
  "physical_lock_config slot b =
    (if ll_valid (linked_lock b) \<noteq> 0
     then \<lparr>cfg_mac = format_mac (ll_mac (linked_lock b)),
           cfg_model = PhysicalLockModel (ll_model (linked_lock b)),
           cfg_key_id = slot, cfg_key = shared_key b\<rparr>
     else \<lparr>cfg_mac = '''', cfg_model = MODEL_UNKNOWN, cfg_key_id = 0, cfg_key = replicate 16 0\<rparr>)"

definition relay_to_lock_async ::
  "radio \<Rightarrow> bool \<Rightarrow> frame_header \<Rightarrow> decoded_command \<Rightarrow> bridge \<Rightarrow> bool \<times> bridge" where
  "relay_to_lock_async env task_ok h cmd b =
    (if plaintext_size (session b) = 0 then (False, b)
     else if lock_relay_busy b then (False, b)
     else
       let b1 = stop_battery_scan env (b\<lparr>lock_relay_busy := True\<rparr>)
       in if task_ok
          then (True, emit (StartRelay (physical_lock_config (hdr_key_id h) b1)
                              (session_plaintext (session b1)) cmd) b1)
          else (False, b1\<lparr>lock_relay_busy := False\<rparr>))"

text \<open>
  The relay task posts its outcome (a reply of the lock, or the final result) and then releases the
  radio; \<open>loop()\<close> consumes the outcome, which it only logs.
\<close>

definition post_relay_result :: "decoded_command \<Rightarrow> bool \<Rightarrow> bridge \<Rightarrow> bridge" where
  "post_relay_result cmd ok b = b\<lparr>relay_outcome := Some (cmd, ok)\<rparr>"

definition relay_task_ends :: "bridge \<Rightarrow> bridge" where
  "relay_task_ends b = b\<lparr>lock_relay_busy := False\<rparr>"

definition apply_pending_lock_relay :: "bridge \<Rightarrow> bridge" where
  "apply_pending_lock_relay b = b\<lparr>relay_outcome := None\<rparr>"

subsection \<open>Commands\<close>

definition publish_command :: "decoded_command \<Rightarrow> bridge \<Rightarrow> bridge" where
  "publish_command cmd b =
    (case cmd_type cmd of
       CMD_LOCK \<Rightarrow> publish_lock (b\<lparr>bridge.lock_state := LOCKED\<rparr>)
     | CMD_UNLOCK \<Rightarrow>
         publish_unlock (cmd_method cmd) (credential_index cmd) (b\<lparr>bridge.lock_state := UNLOCKED\<rparr>)
     | CMD_STATE_POLL \<Rightarrow> b
     | CMD_DOORBELL \<Rightarrow> publish_doorbell b
     | CMD_UNKNOWN \<Rightarrow> b)"

definition handle_command ::
  "aes_ctr \<Rightarrow> radio \<Rightarrow> bool \<Rightarrow> frame_header \<Rightarrow> decoded_command \<Rightarrow> bridge \<Rightarrow> bridge" where
  "handle_command xc env task_ok h cmd b =
    (let b1 = publish_command cmd b
     in if lock_linked b1
        then
          let b2 = send_local_response xc h cmd b1
          in (case cmd_type cmd of
                CMD_LOCK \<Rightarrow> snd (relay_to_lock_async env task_ok h cmd b2)
              | CMD_UNLOCK \<Rightarrow> snd (relay_to_lock_async env task_ok h cmd b2)
              | CMD_UNKNOWN \<Rightarrow> snd (relay_to_lock_async env task_ok h cmd b2)
              | CMD_STATE_POLL \<Rightarrow> b2
              | CMD_DOORBELL \<Rightarrow> b2)
        else send_local_response xc h cmd b1)"

definition on_rx_frame ::
  "aes_ctr \<Rightarrow> radio \<Rightarrow> bool \<Rightarrow> byte list \<Rightarrow> bridge \<times> rng \<Rightarrow> bridge \<times> rng" where
  "on_rx_frame xc env task_ok frame c =
    (let (a, s', r') = process_frame xc frame (session (fst c)) (snd c);
         b1 = (fst c)\<lparr>session := s'\<rparr>
     in case a of
          SEND_IV \<Rightarrow> (notify (iv_response s') b1, r')
        | COMMAND \<Rightarrow> (handle_command xc env task_ok (header s') (command s') b1, r')
        | ACTION_NONE \<Rightarrow> (b1, r'))"

subsection \<open>The event queue\<close>

definition push_connect :: "bridge \<Rightarrow> bridge" where
  "push_connect b = b\<lparr>rx_queue := rx_queue b @ [CONNECT]\<rparr>"

definition push_disconnect :: "bridge \<Rightarrow> bridge" where
  "push_disconnect b = b\<lparr>rx_queue := rx_queue b @ [DISCONNECT]\<rparr>"

definition push_rx :: "byte list \<Rightarrow> bridge \<Rightarrow> bridge" where
  "push_rx frame b = b\<lparr>rx_queue := rx_queue b @ [RX frame]\<rparr>"

text \<open>
  The callbacks NimBLE runs on the radio task: a link comes or goes, the keypad writes the RX
  characteristic (an empty write is not queued).
\<close>

datatype server_callback = OnConnect | OnDisconnect | OnWrite "byte list"

definition server_event :: "server_callback \<Rightarrow> bridge \<Rightarrow> bridge" where
  "server_event callback b =
    (case callback of
       OnConnect \<Rightarrow> push_connect b
     | OnDisconnect \<Rightarrow> push_disconnect b
     | OnWrite value \<Rightarrow> if value = [] then b else push_rx value b)"

text \<open>One iteration of the drain loop of \<open>loop()\<close>, with what the platform answers at that moment.\<close>

definition process_event ::
  "aes_ctr \<Rightarrow> queued_event \<times> radio \<times> bool \<Rightarrow> bridge \<times> rng \<Rightarrow> bridge \<times> rng" where
  "process_event xc ev c =
    (case ev of
       (CONNECT, env, task_ok) \<Rightarrow> ((fst c)\<lparr>session := reset_transport (session (fst c))\<rparr>, snd c)
     | (DISCONNECT, env, task_ok) \<Rightarrow>
         (emit StartAdvertising ((fst c)\<lparr>session := reset_transport (session (fst c))\<rparr>), snd c)
     | (RX frame, env, task_ok) \<Rightarrow> on_rx_frame xc env task_ok frame c)"

definition process_events ::
  "aes_ctr \<Rightarrow> (queued_event \<times> radio \<times> bool) list \<Rightarrow> bridge \<times> rng \<Rightarrow> bridge \<times> rng" where
  "process_events xc evs c = foldl (\<lambda>c ev. process_event xc ev c) c evs"

subsection \<open>The answer, the events and the relay of one command\<close>

text \<open>
  What the keypad is promised: the reply depends on the command, the session and the emulated lock
  state only.
\<close>

definition reply_payload :: "decoded_command \<Rightarrow> lock_state \<Rightarrow> byte list option" where
  "reply_payload cmd ls =
    (case cmd_type cmd of
       CMD_LOCK \<Rightarrow> Some RESPONSE_LOCK
     | CMD_UNLOCK \<Rightarrow> Some RESPONSE_UNLOCK
     | CMD_STATE_POLL \<Rightarrow> Some (lock_state_byte ls # STATE_PAYLOAD_TAIL)
     | _ \<Rightarrow> None)"

definition command_reply :: "aes_ctr \<Rightarrow> lock_session \<Rightarrow> lock_state \<Rightarrow> byte list list" where
  "command_reply xc s ls =
    (case reply_payload (command s) ls of
       None \<Rightarrow> [[0x01, hdr_key_id (header s), hdr_seq_a (header s), hdr_seq_b (header s)]]
     | Some p \<Rightarrow> (case encrypt_response xc (header s) p s of None \<Rightarrow> [] | Some packet \<Rightarrow> [packet]))"

definition next_lock_state :: "decoded_command \<Rightarrow> lock_state \<Rightarrow> lock_state" where
  "next_lock_state cmd ls =
    (if cmd_type cmd = CMD_LOCK then LOCKED else if cmd_type cmd = CMD_UNLOCK then UNLOCKED else ls)"

definition keypad_replies :: "aes_ctr \<Rightarrow> action \<times> lock_session \<Rightarrow> lock_state \<Rightarrow> byte list list" where
  "keypad_replies xc outcome ls =
    (case outcome of
       (ACTION_NONE, s) \<Rightarrow> []
     | (SEND_IV, s) \<Rightarrow> [iv_response s]
     | (COMMAND, s) \<Rightarrow> command_reply xc s (next_lock_state (command s) ls))"

definition command_events :: "decoded_command \<Rightarrow> effect list" where
  "command_events cmd =
    (case cmd_type cmd of
       CMD_LOCK \<Rightarrow> [CallOnLock]
     | CMD_UNLOCK \<Rightarrow> [CallOnUnlock (unlock_method_name (cmd_method cmd)) (credential_index cmd)]
     | CMD_DOORBELL \<Rightarrow> [CallOnDoorbell]
     | _ \<Rightarrow> [])"

definition outcome_events :: "action \<times> lock_session \<Rightarrow> effect list" where
  "outcome_events outcome = (if fst outcome = COMMAND then command_events (command (snd outcome)) else [])"

definition outcome_state :: "action \<times> lock_session \<Rightarrow> lock_state \<Rightarrow> lock_state" where
  "outcome_state outcome ls =
    (if fst outcome = COMMAND then next_lock_state (command (snd outcome)) ls else ls)"

fun is_callback :: "effect \<Rightarrow> bool" where
  "is_callback CallOnLock = True"
| "is_callback (CallOnUnlock m i) = True"
| "is_callback CallOnDoorbell = True"
| "is_callback _ = False"

definition callbacks :: "effect list \<Rightarrow> effect list" where
  "callbacks es = filter is_callback es"

definition notifications :: "effect list \<Rightarrow> byte list list" where
  "notifications es = concat (map (\<lambda>e. case e of Notify d \<Rightarrow> [d] | _ \<Rightarrow> []) es)"

fun is_relay_start :: "effect \<Rightarrow> bool" where
  "is_relay_start (StartRelay cfg pt cmd) = True"
| "is_relay_start _ = False"

definition relay_starts :: "effect list \<Rightarrow> effect list" where
  "relay_starts es = filter is_relay_start es"

lemma effect_views [simp]:
  "callbacks [] = []" "notifications [] = []" "relay_starts [] = []"
  "callbacks (es @ fs) = callbacks es @ callbacks fs"
  "notifications (es @ fs) = notifications es @ notifications fs"
  "relay_starts (es @ fs) = relay_starts es @ relay_starts fs"
  "callbacks [e] = (if is_callback e then [e] else [])"
  "relay_starts [e] = (if is_relay_start e then [e] else [])"
  "notifications [Notify d] = [d]"
  "is_callback e \<Longrightarrow> notifications [e] = []"
  "notifications [TriggerEvent t] = []" "notifications [StartRelay cfg pt cmd] = []"
  "notifications [StopScan] = []" "notifications [ClearScanResults] = []"
  "notifications [StartAdvertising] = []"
  by (simp_all add: callbacks_def notifications_def relay_starts_def)
    (cases e; simp)

text \<open>When a command is handed to the relay task, and what it is handed.\<close>

definition relay_wanted :: "bridge \<Rightarrow> action \<times> lock_session \<Rightarrow> bool" where
  "relay_wanted b outcome \<longleftrightarrow> fst outcome = COMMAND \<and> lock_linked b \<and> \<not> lock_relay_busy b \<and>
    cmd_type (command (snd outcome)) \<in> {CMD_LOCK, CMD_UNLOCK, CMD_UNKNOWN} \<and>
    plaintext_size (snd outcome) \<noteq> 0"

definition relay_of :: "bridge \<Rightarrow> lock_session \<Rightarrow> effect" where
  "relay_of b s = StartRelay (physical_lock_config (hdr_key_id (header s)) b) (session_plaintext s) (command s)"

text \<open>The links, the keys and the configuration, which the RX path never changes.\<close>

definition same_links :: "bridge \<Rightarrow> bridge \<Rightarrow> bool" where
  "same_links b b' \<longleftrightarrow> config b' = config b \<and> prefs b' = prefs b \<and> shared_key b' = shared_key b \<and>
    aes_key_handle b' = aes_key_handle b \<and> linked_lock b' = linked_lock b \<and>
    lock_linked b' = lock_linked b \<and> bridge.keypad_info b' = bridge.keypad_info b \<and>
    keypad_paired b' = keypad_paired b \<and> ui b' = ui b"

lemma same_links_refl [simp]: "same_links b b"
  by (simp add: same_links_def)

lemma same_links_trans: "same_links a b \<Longrightarrow> same_links b c \<Longrightarrow> same_links a c"
  by (simp add: same_links_def)

text \<open>\<open>adds b b' cs ns rs\<close>: from \<open>b\<close> to \<open>b'\<close> these callbacks, notifications and relay starts happened.\<close>

definition adds ::
  "bridge \<Rightarrow> bridge \<Rightarrow> effect list \<Rightarrow> byte list list \<Rightarrow> effect list \<Rightarrow> bool" where
  "adds b b' cs ns rs \<longleftrightarrow>
    (\<exists>es. out b' = out b @ es \<and> callbacks es = cs \<and> notifications es = ns \<and> relay_starts es = rs)"

lemma adds_trans:
  "adds a b cs ns rs \<Longrightarrow> adds b c cs' ns' rs' \<Longrightarrow> adds a c (cs @ cs') (ns @ ns') (rs @ rs')"
  unfolding adds_def by fastforce

lemma adds_refl: "out b' = out b \<Longrightarrow> adds b b' [] [] []"
  unfolding adds_def by (rule exI [of _ "[]"]) simp

subsubsection \<open>The pieces\<close>

lemma publish_command_facts:
  "session (publish_command cmd b) = session b"
  "bridge.lock_state (publish_command cmd b) = next_lock_state cmd (bridge.lock_state b)"
  "lock_relay_busy (publish_command cmd b) = lock_relay_busy b"
  "lock_linked (publish_command cmd b) = lock_linked b"
  "same_links b (publish_command cmd b)"
  "adds b (publish_command cmd b) (command_events cmd) [] []"
  by (simp_all add: adds_def publish_command_def next_lock_state_def publish_lock_def publish_unlock_def
      publish_doorbell_def same_links_def command_events_def split: command_type.split)

lemma send_local_facts:
  "session (send_local_response xc h cmd b) = session b"
  "bridge.lock_state (send_local_response xc h cmd b) = bridge.lock_state b"
  "lock_relay_busy (send_local_response xc h cmd b) = lock_relay_busy b"
  "lock_linked (send_local_response xc h cmd b) = lock_linked b"
  "same_links b (send_local_response xc h cmd b)"
  by (simp_all add: send_local_response_def send_encrypted_response_def handle_state_poll_def
      send_ack_def notify_def same_links_def split: command_type.split option.split)

lemma out_send_local:
  "out (send_local_response xc (header (session b)) (command (session b)) b) =
    out b @ map Notify (command_reply xc (session b) (bridge.lock_state b))"
  by (simp add: send_local_response_def send_encrypted_response_def handle_state_poll_def
      send_ack_def notify_def command_reply_def reply_payload_def split: command_type.split option.split)

lemma notify_views [simp]:
  "callbacks (map Notify ds) = []" "notifications (map Notify ds) = ds" "relay_starts (map Notify ds) = []"
  by (induction ds) (simp_all add: callbacks_def notifications_def relay_starts_def)

lemma physical_lock_config_cong:
  "linked_lock b' = linked_lock b \<Longrightarrow> shared_key b' = shared_key b \<Longrightarrow>
    physical_lock_config slot b' = physical_lock_config slot b"
  by (simp add: physical_lock_config_def)

lemma relay_facts:
  assumes "relay_to_lock_async env task_ok h cmd b = (started, b')"
  shows "session b' = session b" "bridge.lock_state b' = bridge.lock_state b" "same_links b b'"
    "started \<longleftrightarrow> plaintext_size (session b) \<noteq> 0 \<and> \<not> lock_relay_busy b \<and> task_ok"
    "lock_relay_busy b' \<longleftrightarrow> lock_relay_busy b \<or> started"
    "adds b b' [] []
      (if started then [StartRelay (physical_lock_config (hdr_key_id h) b) (session_plaintext (session b)) cmd]
       else [])"
  using assms
  by (auto simp: adds_def relay_to_lock_async_def Let_def out_stop_scan same_links_def
      intro!: physical_lock_config_cong split: if_splits)

lemma adds_send_local:
  "adds b (send_local_response xc (header (session b)) (command (session b)) b) []
    (command_reply xc (session b) (bridge.lock_state b)) []"
  unfolding adds_def out_send_local by simp

lemma handle_command_facts:
  assumes "handle_command xc env task_ok (header (session b)) (command (session b)) b = b'"
  defines "s \<equiv> session b"
  defines "started \<equiv> relay_wanted b (COMMAND, s) \<and> task_ok"
  shows "session b' = s" "bridge.lock_state b' = next_lock_state (command s) (bridge.lock_state b)"
    "same_links b b'" "lock_relay_busy b' \<longleftrightarrow> lock_relay_busy b \<or> started"
    "adds b b' (command_events (command s))
      (command_reply xc s (next_lock_state (command s) (bridge.lock_state b)))
      (if started then [relay_of b s] else [])"
proof -
  let ?h = "header s" and ?cmd = "command s"
  define b1 where "b1 = publish_command ?cmd b"
  define b2 where "b2 = send_local_response xc ?h ?cmd b1"
  note p = publish_command_facts [where cmd = ?cmd and b = b, folded b1_def s_def]
  note l = send_local_facts [where xc = xc and h = ?h and cmd = ?cmd and b = b1, folded b2_def]
  have a12: "adds b1 b2 [] (command_reply xc s (bridge.lock_state b1)) []"
    using adds_send_local [of b1 xc] p(1) by (simp add: b2_def)
  note a2 = adds_trans [OF p(6) a12, simplified]
  define relays where "relays \<longleftrightarrow> lock_linked b \<and> cmd_type ?cmd \<in> {CMD_LOCK, CMD_UNLOCK, CMD_UNKNOWN}"
  obtain st b3 where r: "relay_to_lock_async env task_ok ?h ?cmd b2 = (st, b3)" by (metis prod.exhaust)
  note rf = relay_facts [OF r]
  have b': "b' = (if relays then b3 else b2)"
    using assms(1) r unfolding handle_command_def s_def [symmetric] b1_def [symmetric] Let_def
      b2_def [symmetric] relays_def p(4)
    by (cases "lock_linked b"; cases "cmd_type ?cmd"; simp)
  have links: "same_links b b2" using p(5) l(5) by (rule same_links_trans)
  have sess: "session b2 = s" and busy: "lock_relay_busy b2 = lock_relay_busy b"
    using l p by simp_all
  have st: "relays \<Longrightarrow> st = started"
    using rf(4) sess busy by (auto simp: relays_def started_def relay_wanted_def)
  have not_started: "\<not> relays \<Longrightarrow> \<not> started"
    by (auto simp: relays_def started_def relay_wanted_def)
  show "session b' = s" using b' rf(1) sess by simp
  show "bridge.lock_state b' = next_lock_state ?cmd (bridge.lock_state b)"
    using b' rf(2) l(2) p(2) by simp
  show "same_links b b'" using b' links rf(3) by (auto intro: same_links_trans)
  show "lock_relay_busy b' \<longleftrightarrow> lock_relay_busy b \<or> started"
    using b' rf(5) busy st not_started by auto
  have cfg: "physical_lock_config (hdr_key_id ?h) b2 = physical_lock_config (hdr_key_id ?h) b"
    using links by (intro physical_lock_config_cong) (simp_all add: same_links_def)
  show "adds b b' (command_events ?cmd)
      (command_reply xc s (next_lock_state ?cmd (bridge.lock_state b)))
      (if started then [relay_of b s] else [])"
  proof (cases relays)
    case True
    with adds_trans [OF a2 rf(6)] b' st cfg sess p(2) show ?thesis by (simp add: relay_of_def cong: if_cong)
  next
    case False
    with a2 b' not_started p(2) show ?thesis by simp
  qed
qed

text \<open>One frame: the bridge does with it what the session decided, and nothing else.\<close>

lemma on_rx_frame_facts:
  assumes "process_frame xc f (session b) r = (a, s', r')"
    and "on_rx_frame xc env task_ok f (b, r) = (b', r'')"
  shows "r'' = r'" "session b' = s'"
    "bridge.lock_state b' = outcome_state (a, s') (bridge.lock_state b)" "same_links b b'"
    "lock_relay_busy b' \<longleftrightarrow> lock_relay_busy b \<or> relay_wanted b (a, s') \<and> task_ok"
    "adds b b' (outcome_events (a, s')) (keypad_replies xc (a, s') (bridge.lock_state b))
      (if relay_wanted b (a, s') \<and> task_ok then [relay_of b s'] else [])"
proof -
  let ?b1 = "b\<lparr>session := s'\<rparr>"
  have "r'' = r' \<and> session b' = s' \<and>
    bridge.lock_state b' = outcome_state (a, s') (bridge.lock_state b) \<and> same_links b b' \<and>
    (lock_relay_busy b' \<longleftrightarrow> lock_relay_busy b \<or> relay_wanted b (a, s') \<and> task_ok) \<and>
    adds b b' (outcome_events (a, s')) (keypad_replies xc (a, s') (bridge.lock_state b))
      (if relay_wanted b (a, s') \<and> task_ok then [relay_of b s'] else [])"
  proof (cases a)
    case ACTION_NONE
    with assms show ?thesis
      by (simp add: on_rx_frame_def outcome_state_def same_links_def relay_wanted_def outcome_events_def
          keypad_replies_def adds_def) (auto intro!: adds_refl simp: adds_def)
  next
    case SEND_IV
    with assms show ?thesis
      by (auto simp: on_rx_frame_def outcome_state_def same_links_def relay_wanted_def outcome_events_def
          keypad_replies_def adds_def notify_def)
  next
    case COMMAND
    then have h: "handle_command xc env task_ok (header (session ?b1)) (command (session ?b1)) ?b1 = b'"
      and r: "r'' = r'"
      using assms by (simp_all add: on_rx_frame_def)
    have eq: "relay_wanted ?b1 x = relay_wanted b x" "relay_of ?b1 s' = relay_of b s'"
        "same_links ?b1 c = same_links b c" "adds ?b1 c cs ns rs = adds b c cs ns rs" for x c cs ns rs
      by (simp_all add: relay_wanted_def relay_of_def same_links_def adds_def physical_lock_config_def)
    from handle_command_facts [OF h] show ?thesis
      using r COMMAND by (simp add: eq outcome_state_def outcome_events_def keypad_replies_def cong: if_cong)
  qed
  then show "r'' = r'" "session b' = s'"
    "bridge.lock_state b' = outcome_state (a, s') (bridge.lock_state b)" "same_links b b'"
    "lock_relay_busy b' \<longleftrightarrow> lock_relay_busy b \<or> relay_wanted b (a, s') \<and> task_ok"
    "adds b b' (outcome_events (a, s')) (keypad_replies xc (a, s') (bridge.lock_state b))
      (if relay_wanted b (a, s') \<and> task_ok then [relay_of b s'] else [])"
    by blast+
qed

subsection \<open>Runs of the queue\<close>

fun event_input :: "queued_event \<Rightarrow> session_input" where
  "event_input CONNECT = TransportReset"
| "event_input DISCONNECT = TransportReset"
| "event_input (RX f) = RxFrame f"

text \<open>The replies and lock states a sequence of session outcomes stands for.\<close>

fun replies_along :: "aes_ctr \<Rightarrow> (action \<times> lock_session) list \<Rightarrow> lock_state \<Rightarrow> byte list list" where
  "replies_along xc [] ls = []"
| "replies_along xc (x # xs) ls = keypad_replies xc x ls @ replies_along xc xs (outcome_state x ls)"

definition state_along :: "(action \<times> lock_session) list \<Rightarrow> lock_state \<Rightarrow> lock_state" where
  "state_along xs ls = foldl (\<lambda>ls x. outcome_state x ls) ls xs"

lemma process_event_facts:
  assumes "process_event xc (ev, env, task_ok) (b, r) = (b', r')"
    and "apply_input xc (event_input ev) (session b, r) = (a, s', r1)"
  shows "r' = r1 \<and> session b' = s' \<and>
    bridge.lock_state b' = outcome_state (a, s') (bridge.lock_state b) \<and> same_links b b' \<and>
    (\<exists>rs. adds b b' (outcome_events (a, s')) (keypad_replies xc (a, s') (bridge.lock_state b)) rs \<and>
      rs = (if relay_wanted b (a, s') \<and> task_ok then [relay_of b s'] else []) \<and>
      (lock_relay_busy b' \<longleftrightarrow> lock_relay_busy b \<or> rs \<noteq> []))"
proof (cases ev)
  case (RX f)
  with assms have "on_rx_frame xc env task_ok f (b, r) = (b', r')"
      "process_frame xc f (session b) r = (a, s', r1)"
    by (simp_all add: process_event_def)
  from on_rx_frame_facts [OF this(2,1)] show ?thesis by auto
qed (use assms in \<open>auto simp: process_event_def outcome_state_def outcome_events_def keypad_replies_def
    relay_wanted_def same_links_def adds_def\<close>)

lemma relay_of_same_links: "same_links b b' \<Longrightarrow> relay_of b' s = relay_of b s"
  by (simp add: relay_of_def same_links_def physical_lock_config_def)

definition relay_justified ::
  "bridge \<Rightarrow> (action \<times> lock_session) list \<Rightarrow> effect \<Rightarrow> bool" where
  "relay_justified b trace e \<longleftrightarrow> lock_linked b \<and> (\<exists>s. (COMMAND, s) \<in> set trace \<and>
    cmd_type (command s) \<in> {CMD_LOCK, CMD_UNLOCK, CMD_UNKNOWN} \<and> plaintext_size s \<noteq> 0 \<and>
    e = relay_of b s)"

lemma relay_justified_mono:
  "relay_justified b1 trace e \<Longrightarrow> same_links b b1 \<Longrightarrow> set trace \<subseteq> set trace' \<Longrightarrow> relay_justified b trace' e"
  unfolding relay_justified_def using relay_of_same_links [of b b1] by (auto simp: same_links_def)

text \<open>The run of the queue, event by event, against the run of the session.\<close>

definition follows_session ::
  "aes_ctr \<Rightarrow> queued_event list \<Rightarrow> bridge \<Rightarrow> rng \<Rightarrow> bridge \<Rightarrow> rng \<Rightarrow> effect list \<Rightarrow> bool" where
  "follows_session xc evs b r b' r' rs \<longleftrightarrow>
    (let ins = map event_input evs; trace = session_trace xc ins (session b, r) in
     (session b', r') = session_run xc ins (session b, r) \<and>
     bridge.lock_state b' = state_along trace (bridge.lock_state b) \<and> same_links b b' \<and>
     adds b b' (concat (map outcome_events trace)) (replies_along xc trace (bridge.lock_state b)) rs \<and>
     list_all (relay_justified b trace) rs \<and>
     length rs + of_bool (lock_relay_busy b) = (of_bool (lock_relay_busy b') :: nat))"

lemma follows_session_Cons:
  assumes step: "process_event xc (ev, env, task_ok) (b, r) = (b1, r1)"
    and rest: "follows_session xc evs b1 r1 b' r' rs"
  shows "\<exists>rs'. follows_session xc (ev # evs) b r b' r' rs'"
proof -
  obtain a s1 r2 where i: "apply_input xc (event_input ev) (session b, r) = (a, s1, r2)"
    by (metis prod_cases3)
  from process_event_facts [OF step i] obtain rs1 where
    f: "r1 = r2" "session b1 = s1" "bridge.lock_state b1 = outcome_state (a, s1) (bridge.lock_state b)"
      "same_links b b1"
      "adds b b1 (outcome_events (a, s1)) (keypad_replies xc (a, s1) (bridge.lock_state b)) rs1"
      "rs1 = (if relay_wanted b (a, s1) \<and> task_ok then [relay_of b s1] else [])"
      "lock_relay_busy b1 \<longleftrightarrow> lock_relay_busy b \<or> rs1 \<noteq> []"
    by blast
  let ?ins = "map event_input evs"
  let ?trace = "session_trace xc ?ins (s1, r2)"
  have trace: "session_trace xc (map event_input (ev # evs)) (session b, r) = (a, s1) # ?trace"
    using i by simp
  have g: "(session b', r') = session_run xc ?ins (s1, r2)"
      "bridge.lock_state b' = state_along ?trace (bridge.lock_state b1)" "same_links b1 b'"
      "adds b1 b' (concat (map outcome_events ?trace)) (replies_along xc ?trace (bridge.lock_state b1)) rs"
      "list_all (relay_justified b1 ?trace) rs"
      "length rs + of_bool (lock_relay_busy b1) = (of_bool (lock_relay_busy b') :: nat)"
    using rest f(1,2) by (simp_all add: follows_session_def Let_def)
  have just: "list_all (relay_justified b ((a, s1) # ?trace)) (rs1 @ rs)"
  proof -
    have "list_all (relay_justified b ((a, s1) # ?trace)) rs1"
      using f(6) by (auto simp: relay_justified_def relay_wanted_def)
    moreover have "list_all (relay_justified b ((a, s1) # ?trace)) rs"
      using g(5) f(4) by (auto simp: list_all_iff intro: relay_justified_mono)
    ultimately show ?thesis by simp
  qed
  have "length (rs1 @ rs) + of_bool (lock_relay_busy b) = (of_bool (lock_relay_busy b') :: nat)"
  proof -
    have "rs1 \<noteq> [] \<Longrightarrow> \<not> lock_relay_busy b \<and> length rs1 = 1"
      using f(6) by (auto simp: relay_wanted_def split: if_splits)
    then show ?thesis using f(7) g(6) by (cases "rs1 = []"; cases "lock_relay_busy b") auto
  qed
  moreover have "adds b b' (concat (map outcome_events ((a, s1) # ?trace)))
      (replies_along xc ((a, s1) # ?trace) (bridge.lock_state b)) (rs1 @ rs)"
    using adds_trans [OF f(5) g(4)] f(3) by simp
  moreover have "same_links b b'" using f(4) g(3) by (rule same_links_trans)
  moreover have "bridge.lock_state b' = state_along ((a, s1) # ?trace) (bridge.lock_state b)"
    using g(2) f(3) by (simp add: state_along_def)
  ultimately have "follows_session xc (ev # evs) b r b' r' (rs1 @ rs)"
    using g(1) just i unfolding follows_session_def Let_def trace by simp
  then show ?thesis by blast
qed

lemma process_events_follow:
  "process_events xc evs (b, r) = (b', r') \<Longrightarrow> \<exists>rs. follows_session xc (map fst evs) b r b' r' rs"
proof (induction evs arbitrary: b r)
  case Nil
  then show ?case
    by (auto simp: process_events_def follows_session_def state_along_def intro!: adds_refl)
next
  case (Cons e evs)
  obtain ev env task_ok where e: "e = (ev, env, task_ok)" by (metis prod_cases3)
  obtain b1 r1 where step: "process_event xc (ev, env, task_ok) (b, r) = (b1, r1)"
    by (metis prod.exhaust)
  with Cons.prems e have "process_events xc evs (b1, r1) = (b', r')"
    by (simp add: process_events_def)
  with Cons.IH obtain rs where "follows_session xc (map fst evs) b1 r1 b' r' rs" by blast
  from follows_session_Cons [OF step this] show ?case using e by simp
qed

lemma out_of_adds:
  "adds b b' cs ns rs \<Longrightarrow> callbacks (drop (length (out b)) (out b')) = cs \<and>
    notifications (drop (length (out b)) (out b')) = ns \<and>
    relay_starts (drop (length (out b)) (out b')) = rs"
  by (auto simp: adds_def)

subsection \<open>Properties\<close>

text \<open>What happened on the outside between two states of a run.\<close>

definition happened :: "bridge \<Rightarrow> bridge \<Rightarrow> effect list" where
  "happened b b' = drop (length (out b)) (out b')"

text \<open>
  C9. The bridge refines the session: draining the event queue is the session run over the frames and
  transport resets in it; the automations are called exactly once, in order, for the commands that
  run accepts and for nothing else; the keypad receives exactly the replies of that run; and the
  emulated lock state is that of the last accepted LOCK or UNLOCK.
\<close>

theorem bridge_follows_session:
  "case process_events xc evs (b, r) of (b', r') \<Rightarrow>
    let ins = map (event_input \<circ> fst) evs; trace = session_trace xc ins (session b, r) in
    (session b', r') = session_run xc ins (session b, r) \<and>
    callbacks (happened b b') = concat (map outcome_events trace) \<and>
    notifications (happened b b') = replies_along xc trace (bridge.lock_state b) \<and>
    bridge.lock_state b' = state_along trace (bridge.lock_state b)"
proof -
  obtain b' r' where run: "process_events xc evs (b, r) = (b', r')" by (metis prod.exhaust)
  obtain rs where "follows_session xc (map fst evs) b r b' r' rs"
    using process_events_follow [OF run] by blast
  then show ?thesis
    by (auto simp: run follows_session_def Let_def happened_def comp_def dest: out_of_adds)
qed

text \<open>
  C29. The keypad never waits for the physical lock: two runs over the same frames that differ in which
  lock is linked, whether one is, whether a relay is in flight, and in every answer of the platform,
  end in the same session, send the keypad the same bytes and call the same automations.
\<close>

theorem keypad_side_ignores_linked_lock:
  assumes "map fst evs' = map fst evs"
    and "process_events xc evs (b, r) = (b1, r1)"
    and "process_events xc evs' (b\<lparr>linked_lock := info, lock_linked := linked, lock_relay_busy := busy\<rparr>, r)
      = (b2, r2)"
  shows "session b2 = session b1 \<and> r2 = r1 \<and> bridge.lock_state b2 = bridge.lock_state b1 \<and>
    notifications (happened b b2) = notifications (happened b b1) \<and>
    callbacks (happened b b2) = callbacks (happened b b1)"
proof -
  let ?b = "b\<lparr>linked_lock := info, lock_linked := linked, lock_relay_busy := busy\<rparr>"
  obtain rs rs' where f: "follows_session xc (map fst evs) b r b1 r1 rs"
      "follows_session xc (map fst evs) ?b r b2 r2 rs'"
    using process_events_follow [OF assms(2)] process_events_follow [OF assms(3)] assms(1) by auto
  have "session b2 = session b1 \<and> r2 = r1"
    using f by (auto simp: follows_session_def Let_def simp flip: prod.inject)
  then show ?thesis
    using f by (auto simp: follows_session_def Let_def happened_def dest!: out_of_adds)
qed

text \<open>A bridge around the Vision session of the session tests, with a linked lock.\<close>

definition test_bridge :: "lock_session \<Rightarrow> bridge" where
  "test_bridge s = (initial_bridge \<lparr>has_keypad_sensor = True, has_linked_lock_sensor = True,
      has_keypad_battery = True, has_lock_battery = True, has_keypad_event = True,
      battery_scan_interval_ms = 900000\<rparr>
    \<lparr>pref_shared_key = None, pref_keypad_name = None, pref_keypad_info = None, pref_linked_lock = None\<rparr>)
    \<lparr>session := s, shared_key := replicate 16 7, lock_linked := True,
     linked_lock := empty_linked_lock\<lparr>ll_valid := 1, ll_mac := [0xB0, 0xE9, 0xFE, 1, 2, 3], ll_model := 4\<rparr>\<rparr>"

definition bridge_start :: "rng \<Rightarrow> bridge \<times> rng" where
  "bridge_start r = (test_bridge (fst (vision_session r)), snd (vision_session r))"

definition unlock_event :: "bool \<Rightarrow> queued_event \<times> radio \<times> bool" where
  "unlock_event task_ok = (RX (pin_frame 0x10), idle_radio 5, task_ok)"

lemma bridge_unlock_run:
  "case process_events stub_xcrypt [unlock_event True] (bridge_start r) of (b, _) \<Rightarrow>
    bridge.lock_state b = UNLOCKED \<and> lock_relay_busy b \<and>
    callbacks (out b) = [CallOnUnlock ''pin'' 0] \<and> length (relay_starts (out b)) = 1 \<and>
    length (notifications (out b)) = 1"
  by code_simp

theorem keypad_side_ignores_linked_lock_witness:
  "case process_events stub_xcrypt [unlock_event False] (fst (bridge_start (sconst 0))
      \<lparr>linked_lock := empty_linked_lock, lock_linked := False, lock_relay_busy := True\<rparr>,
      snd (bridge_start (sconst 0))) of (b2, _) \<Rightarrow>
    bridge.lock_state b2 = UNLOCKED \<and>
    callbacks (happened (fst (bridge_start (sconst 0))) b2) = [CallOnUnlock ''pin'' 0]"
proof -
  define r :: rng where "r = sconst 0"
  let ?b = "fst (bridge_start r)"
  obtain b1 r1 where run: "process_events stub_xcrypt [unlock_event True] (?b, snd (bridge_start r)) = (b1, r1)"
    by (metis prod.exhaust)
  obtain b2 r2 where run2: "process_events stub_xcrypt [unlock_event False]
      (?b\<lparr>linked_lock := empty_linked_lock, lock_linked := False, lock_relay_busy := True\<rparr>,
        snd (bridge_start r)) = (b2, r2)"
    by (metis prod.exhaust)
  have "map fst [unlock_event False] = map fst [unlock_event True]" by (simp add: unlock_event_def)
  note same = keypad_side_ignores_linked_lock [OF this run run2]
  have "out ?b = []" by (simp add: bridge_start_def test_bridge_def initial_bridge_def)
  then have "bridge.lock_state b1 = UNLOCKED" "callbacks (happened ?b b1) = [CallOnUnlock ''pin'' 0]"
    using bridge_unlock_run [of r] run by (simp_all add: happened_def)
  with same show ?thesis unfolding r_def [symmetric] by (simp add: run2)
qed

text \<open>
  C14. At most one relay in flight: while no relay task ends, a run starts at most one relay, and none
  if one is in flight or no lock is linked; and every relay carries the plaintext, the key slot and
  the command of a LOCK, UNLOCK or unknown frame that the session accepted in this run, the current
  shared key, and the address of the linked lock.
\<close>

theorem one_relay_in_flight:
  "case process_events xc evs (b, r) of (b', r') \<Rightarrow>
    let relays = relay_starts (happened b b') in
    length relays + of_bool (lock_relay_busy b) = (of_bool (lock_relay_busy b') :: nat) \<and>
    list_all (relay_justified b (session_trace xc (map (event_input \<circ> fst) evs) (session b, r))) relays"
proof -
  obtain b' r' where run: "process_events xc evs (b, r) = (b', r')" by (metis prod.exhaust)
  obtain rs where f: "follows_session xc (map fst evs) b r b' r' rs"
    using process_events_follow [OF run] by blast
  then have "relay_starts (happened b b') = rs"
    unfolding follows_session_def Let_def happened_def by (blast dest: out_of_adds)
  with f show ?thesis by (simp add: run follows_session_def Let_def comp_def)
qed

text \<open>
  C30. A state poll reports the last action: after any run of the queue from a reachable session, the
  reply to an accepted poll is one notification, encrypted under the key and IV the poll was decrypted
  with, that carries the state of the last LOCK or UNLOCK accepted in the run (the previous state if
  there was none).
\<close>

theorem state_poll_reports_last_action:
  assumes "session_reachable xc (session b)" "ctr_cipher xc"
    and "process_events xc evs (b, r) = (b', r')"
    and "process_frame xc f (session b') r' = (COMMAND, s', r1)" "cmd_type (command s') = CMD_STATE_POLL"
    and "on_rx_frame xc env task_ok f (b', r') = (b2, r2)"
  shows "\<exists>iv ct. notifications (happened b' b2) = [[0x01, f ! 1, f ! 2, f ! 3] @ ct] \<and>
    xc (aes_key (session b')) iv (drop HEADER_LEN f) = Some (session_plaintext s') \<and>
    xc (aes_key (session b')) iv ct = Some (lock_state_byte
      (state_along (session_trace xc (map (event_input \<circ> fst) evs) (session b, r)) (bridge.lock_state b))
        # STATE_PAYLOAD_TAIL)"
proof -
  obtain rs where "follows_session xc (map fst evs) b r b' r' rs"
    using process_events_follow [OF assms(3)] by blast
  then have run: "(session b', r') = session_run xc (map (event_input \<circ> fst) evs) (session b, r)"
      "bridge.lock_state b' = state_along
        (session_trace xc (map (event_input \<circ> fst) evs) (session b, r)) (bridge.lock_state b)"
    by (simp_all add: follows_session_def Let_def comp_def)
  let ?ls = "bridge.lock_state b'"
  have reach: "session_reachable xc (session b')"
    using session_reachable_run [of xc "(session b, r)"] assms(1) run(1) by (metis fst_conv)
  let ?p = "lock_state_byte ?ls # STATE_PAYLOAD_TAIL"
  have "length ?p \<le> MAX_PAYLOAD" by (simp add: STATE_PAYLOAD_TAIL_def MAX_PAYLOAD_def)
  from response_round_trip [OF reach assms(2,4) this] obtain iv ct where
    enc: "encrypt_response xc (header s') ?p s' = Some ([0x01, f ! 1, f ! 2, f ! 3] @ ct)"
      "xc (aes_key (session b')) iv (drop HEADER_LEN f) = Some (session_plaintext s')"
      "xc (aes_key (session b')) iv ct = Some ?p"
    by blast
  from on_rx_frame_facts(6) [OF assms(4,6)]
  have "notifications (happened b' b2) = keypad_replies xc (COMMAND, s') ?ls"
    by (auto simp: happened_def dest: out_of_adds)
  also have "\<dots> = [[0x01, f ! 1, f ! 2, f ! 3] @ ct]"
    using enc(1) assms(5) by (simp add: keypad_replies_def command_reply_def reply_payload_def next_lock_state_def)
  finally show ?thesis using enc(2,3) run(2) by metis
qed

definition poll_frame :: "byte \<Rightarrow> byte list" where
  "poll_frame seed = encrypted_frame (make_iv seed) TEST_STATE_POLL 0xC6"

lemma bridge_poll_run:
  "case process_events stub_xcrypt [unlock_event True] (bridge_start r) of (b, r1) \<Rightarrow>
    case process_frame stub_xcrypt (poll_frame 0x10) (session b) r1 of (a, s, _) \<Rightarrow>
      a = COMMAND \<and> cmd_type (command s) = CMD_STATE_POLL \<and> aes_key (session b) = TEST_KEY"
  by code_simp

lemma state_along_unlock:
  "state_along (session_trace stub_xcrypt (map (event_input \<circ> fst) [unlock_event True])
    (session (fst (bridge_start r)), snd (bridge_start r))) (bridge.lock_state (fst (bridge_start r))) = UNLOCKED"
  by code_simp

theorem state_poll_reports_last_action_witness:
  "\<exists>iv ct. stub_xcrypt TEST_KEY iv ct = Some (0x91 # STATE_PAYLOAD_TAIL)"
proof -
  define r :: rng where "r = sconst 0"
  let ?c = "bridge_start r"
  have reach: "session_reachable stub_xcrypt (session (fst ?c))"
    using vision_session_reachable [of r] by (simp add: bridge_start_def test_bridge_def)
  obtain b' r' where run: "process_events stub_xcrypt [unlock_event True] (fst ?c, snd ?c) = (b', r')"
    by (metis prod.exhaust)
  obtain a s' r1 where frame: "process_frame stub_xcrypt (poll_frame 0x10) (session b') r' = (a, s', r1)"
    by (metis prod_cases3)
  from bridge_poll_run [of r] run frame
  have cmd: "a = COMMAND" "cmd_type (command s') = CMD_STATE_POLL" "aes_key (session b') = TEST_KEY"
    by simp_all
  obtain b2 r2 where rx: "on_rx_frame stub_xcrypt (idle_radio 9) True (poll_frame 0x10) (b', r') = (b2, r2)"
    by (metis prod.exhaust)
  from state_poll_reports_last_action [OF reach stub_is_ctr_cipher run frame [unfolded cmd(1)] cmd(2) rx]
  show ?thesis unfolding state_along_unlock cmd(3) by auto
qed

end
