(* ===== verification/Bridge_Links.thy ===== *)
theory Bridge_Links
  imports Bridge_Rx
begin

text \<open>
  The links of the bridge (\<open>setup\<close>, \<open>apply_pending_pairing_\<close>, \<open>apply_pending_lock_link_\<close>,
  \<open>reset_pairing\<close> and the key handling of \<open>switchbot_keypad_bridge.cpp\<close>): what is persisted, what is
  restored at boot, and what a reset forgets. Random bytes, the PSA handle of an import and the
  outcome of the platform calls are arguments.
\<close>

subsection \<open>Keys\<close>

definition create_shared_key :: "byte list \<Rightarrow> bridge \<Rightarrow> bridge" where
  "create_shared_key random b =
    sync (b\<lparr>shared_key := random, prefs := (prefs b)\<lparr>pref_shared_key := Some random\<rparr>\<rparr>)"

definition import_aes_key :: "u32 option \<Rightarrow> bridge \<Rightarrow> bool \<times> bridge" where
  "import_aes_key imported b =
    (let b1 = (if aes_key_handle b \<noteq> PSA_KEY_ID_NULL
               then emit (DestroyKey (aes_key_handle b)) (b\<lparr>aes_key_handle := PSA_KEY_ID_NULL\<rparr>)
               else b)
     in case imported of
          None \<Rightarrow> (False, b1)
        | Some handle \<Rightarrow>
            (True, b1\<lparr>aes_key_handle := handle, session := set_aes_key handle (session b1)\<rparr>))"

subsection \<open>Boot\<close>

record boot =
  bt_random :: "byte list"
  bt_millis :: u32
  bt_crypto_init :: bool
  bt_imported :: "u32 option"
  bt_efuse_mac :: "byte list option"
  bt_set_mac :: bool

definition prepare_keys :: "boot \<Rightarrow> bridge \<Rightarrow> bool \<times> bridge" where
  "prepare_keys bt b = (if \<not> bt_crypto_init bt then (False, b) else import_aes_key (bt_imported bt) b)"

definition prepare_ble :: "boot \<Rightarrow> bridge \<Rightarrow> bool \<times> bridge" where
  "prepare_ble bt b =
    (case bt_efuse_mac bt of
       None \<Rightarrow> (False, b)
     | Some base \<Rightarrow>
         let b1 = emit (SetBaseMac (memcpy_at 0 SPOOFED_OUI 3 base)) b
         in if \<not> bt_set_mac bt then (False, b1) else (True, emit StartAdvertising (emit (SetUpServer server_setup) b1)))"

definition restore_key :: "boot \<Rightarrow> bridge \<Rightarrow> bridge" where
  "restore_key bt b =
    (case pref_shared_key (prefs b) of
       Some k \<Rightarrow> b\<lparr>shared_key := k\<rparr>
     | None \<Rightarrow> create_shared_key (bt_random bt) b)"

definition restore_keypad_name :: "bridge \<Rightarrow> bridge" where
  "restore_keypad_name b =
    (let stored = pref_keypad_name (prefs b);
         have_keypad = (stored \<noteq> None \<and> the stored ! 0 \<noteq> CHR 0x00);
         b1 = emit_if (has_keypad_sensor (config b))
                (PublishKeypad (if have_keypad
                                then c_str ((the stored)[KEYPAD_NAME_MAX - 1 := CHR 0x00])
                                else ''Unlinked'')) b
     in b1\<lparr>keypad_paired := have_keypad, ui := (ui b1)\<lparr>ui_keypad_paired := have_keypad\<rparr>\<rparr>)"

definition restore_keypad_info :: "bridge \<Rightarrow> bridge" where
  "restore_keypad_info b =
    (let info = (case pref_keypad_info (prefs b) of Some i \<Rightarrow> i | None \<Rightarrow> empty_keypad_info);
         b1 = b\<lparr>keypad_info := info\<rparr>
     in if ki_valid info \<noteq> 0
        then b1\<lparr>ui := (ui b1)\<lparr>ui_keypad_family := KeypadFamily (ki_family info)\<rparr>\<rparr>
        else b1)"

definition is_legacy_record :: "linked_lock_info \<Rightarrow> bool" where
  "is_legacy_record info \<longleftrightarrow> ll_valid info \<noteq> 0 \<and>
    (list_ex (\<lambda>x. x \<noteq> 0) (ll_reserved info) \<or> \<not> is_shared_slot (ll_slot_id info))"

definition restore_linked_lock :: "bridge \<Rightarrow> bridge" where
  "restore_linked_lock b =
    (let b1 = (case pref_linked_lock (prefs b) of
                 None \<Rightarrow> b\<lparr>linked_lock := empty_linked_lock\<rparr>
               | Some info \<Rightarrow>
                   if is_legacy_record info
                   then sync (save_linked_lock (b\<lparr>linked_lock := empty_linked_lock\<rparr>))
                   else b\<lparr>linked_lock := info\<rparr>);
         linked = (ll_valid (linked_lock b1) \<noteq> 0)
     in publish_linked_lock (b1\<lparr>lock_linked := linked, ui := (ui b1)\<lparr>ui_lock_linked := linked\<rparr>\<rparr>))"

definition bridge_setup :: "boot \<Rightarrow> bridge \<Rightarrow> bridge" where
  "bridge_setup bt b =
    (let b1 = restore_keypad_info (restore_keypad_name (restore_key bt b));
         b2 = set_deadline (bt_millis bt + BATTERY_SCAN_RETRY_MS) (restore_linked_lock b1);
         b3 = (if \<not> lock_linked b2 then clear_lock_battery b2 else b2);
         (keys_ok, b4) = prepare_keys bt b3
     in if \<not> keys_ok then b4\<lparr>failed := True\<rparr>
        else
          let (ble_ok, b5) = prepare_ble bt b4
          in if \<not> ble_ok then b5\<lparr>failed := True\<rparr>
             else
               let b6 = b5\<lparr>ui := (ui b5)\<lparr>ui_shared_key := shared_key b5\<rparr>\<rparr>
               in emit_if (\<not> keypad_paired b6) StartSetupUi b6)"

subsection \<open>Finished wizard jobs\<close>

definition apply_pending_pairing :: "u32 \<Rightarrow> bridge \<Rightarrow> bridge" where
  "apply_pending_pairing now b =
    (case bridge.pending_pair b of
       None \<Rightarrow> b
     | Some pp \<Rightarrow>
         let b1 = b\<lparr>pending_pair := None,
                    prefs := (prefs b)\<lparr>pref_keypad_name := Some (name_buffer KEYPAD_NAME_MAX (pp_name pp))\<rparr>\<rparr>;
             info = (case parse_mac_pretty (pp_mac pp) of
                       Some mac \<Rightarrow> \<lparr>ki_mac = mac, ki_family = family_byte (pp_family pp), ki_valid = 1\<rparr>
                     | None \<Rightarrow> empty_keypad_info);
             b2 = sync (save_keypad_info (b1\<lparr>keypad_info := info\<rparr>));
             b3 = b2\<lparr>keypad_paired := True,
                     ui := (ui b2)\<lparr>ui_keypad_paired := True, ui_keypad_family := pp_family pp\<rparr>,
                     last_keypad_battery := -1\<rparr>
         in publish_keypad (Some (pp_name pp)) (set_deadline (now + 10000) b3))"

definition apply_pending_lock_link :: "u32 \<Rightarrow> bridge \<Rightarrow> bridge" where
  "apply_pending_lock_link now b =
    (case bridge.pending_lock b of
       None \<Rightarrow> b
     | Some pl \<Rightarrow>
         let info = (case parse_mac_pretty (pl_mac pl) of
                       Some mac \<Rightarrow> empty_linked_lock\<lparr>ll_mac := mac, ll_valid := 1,
                         ll_model := model_byte (pl_model pl), ll_slot_id := pl_slot_id pl,
                         ll_name := name_buffer LOCK_NAME_MAX (pl_name pl)\<rparr>
                     | None \<Rightarrow> empty_linked_lock);
             linked = (ll_valid info \<noteq> 0);
             b1 = b\<lparr>pending_lock := None, linked_lock := info, lock_linked := linked,
                    ui := (ui b)\<lparr>ui_lock_linked := linked\<rparr>\<rparr>
         in set_deadline (now + 5000)
              (clear_lock_battery (publish_linked_lock (sync (save_linked_lock b1)))))"

subsection \<open>Reset\<close>

definition reset_pairing :: "byte list \<Rightarrow> u32 option \<Rightarrow> radio \<Rightarrow> bridge \<Rightarrow> bridge" where
  "reset_pairing random imported env b =
    (let (ok, b1) = import_aes_key imported (create_shared_key random b)
     in if \<not> ok then b1
        else
          let b2 = stop_battery_scan env b1;
              b3 = b2\<lparr>prefs := (prefs b2)\<lparr>pref_keypad_name := Some (replicate KEYPAD_NAME_MAX (CHR 0x00))\<rparr>\<rparr>;
              b4 = save_keypad_info (b3\<lparr>keypad_info := empty_keypad_info\<rparr>);
              b5 = sync (save_linked_lock (b4\<lparr>linked_lock := empty_linked_lock\<rparr>));
              b6 = publish_keypad None b5;
              b7 = publish_linked_lock (b6\<lparr>lock_linked := False, ui := (ui b6)\<lparr>ui_lock_linked := False\<rparr>\<rparr>);
              b8 = clear_lock_battery b7;
              b9 = reset_keypad_battery_sensor
                     (b8\<lparr>keypad_paired := False,
                         ui := (ui b8)\<lparr>ui_keypad_paired := False, ui_keypad_family := ORIGINAL\<rparr>\<rparr>);
              b10 = b9\<lparr>session := forget_slot (reset_session (session b9)),
                       ui := (ui b9)\<lparr>ui_shared_key := shared_key b9\<rparr>\<rparr>
          in emit StartSetupUi b10)"

definition press_reset :: "byte list \<Rightarrow> u32 option \<Rightarrow> radio \<Rightarrow> bridge \<Rightarrow> bridge" where
  "press_reset random imported env b =
    (if ui_running env then b else reset_pairing random imported env b)"

subsection \<open>Facts\<close>

lemmas publish_defs = publish_keypad_def publish_linked_lock_def clear_lock_battery_def
  reset_keypad_battery_sensor_def save_keypad_info_def save_linked_lock_def sync_def set_deadline_def
  create_shared_key_def

lemma import_ok:
  "import_aes_key (Some k) b = (ok, b') \<Longrightarrow> ok \<and> aes_key_handle b' = k \<and> aes_key (session b') = k \<and>
    active (session b') = active (session b) \<and> prefs b' = prefs b \<and> shared_key b' = shared_key b \<and>
    bridge.keypad_advert b' = bridge.keypad_advert b \<and> config b' = config b"
  by (auto simp: import_aes_key_def Let_def set_aes_key_def)

lemma name_buffer_length [simp]: "0 < n \<Longrightarrow> length (name_buffer n s) = n"
  by (simp add: name_buffer_def)

lemma c_str_name_buffer:
  "0 < n \<Longrightarrow> CHR 0x00 \<notin> set s \<Longrightarrow> c_str ((name_buffer n s)[n - 1 := CHR 0x00]) = take (n - 1) s"
proof -
  assume n: "0 < n" and s: "CHR 0x00 \<notin> set s"
  let ?p = "take (n - 1) s"
  have "(name_buffer n s)[n - 1 := CHR 0x00] = ?p @ replicate (n - length ?p) (CHR 0x00)"
    using n by (intro nth_equalityI) (auto simp: name_buffer_def nth_append nth_list_update)
  moreover have "n - length ?p = Suc (n - length ?p - 1)" using n by (cases n) (auto simp: min_def)
  ultimately have "(name_buffer n s)[n - 1 := CHR 0x00] = ?p @ CHR 0x00 # replicate (n - length ?p - 1) (CHR 0x00)"
    by (metis replicate_Suc)
  moreover have "CHR 0x00 \<notin> set ?p" using s by (auto dest: in_set_takeD)
  then have "\<And>c. c \<in> set ?p \<Longrightarrow> c \<noteq> CHR 0x00" by blast
  ultimately show ?thesis by (simp add: c_str_def takeWhile_append2)
qed

lemma setup_facts:
  assumes "b' = bridge_setup bt b"
  shows "bridge.keypad_info b' =
      (case pref_keypad_info (prefs b) of Some i \<Rightarrow> i | None \<Rightarrow> empty_keypad_info)"
    "keypad_paired b' \<longleftrightarrow> (\<exists>n. pref_keypad_name (prefs b) = Some n \<and> n ! 0 \<noteq> CHR 0x00)"
    "linked_lock b' = (case pref_linked_lock (prefs b) of None \<Rightarrow> empty_linked_lock
       | Some i \<Rightarrow> if is_legacy_record i then empty_linked_lock else i)"
    "lock_linked b' \<longleftrightarrow> ll_valid (linked_lock b') \<noteq> 0"
    "shared_key b' = (case pref_shared_key (prefs b) of Some k \<Rightarrow> k | None \<Rightarrow> bt_random bt)"
    "pref_shared_key (prefs b') = Some (shared_key b')"
    "pref_keypad_name (prefs b') = pref_keypad_name (prefs b)"
    "pref_keypad_info (prefs b') = pref_keypad_info (prefs b)"
    "pref_linked_lock (prefs b') = (case pref_linked_lock (prefs b) of None \<Rightarrow> None
       | Some i \<Rightarrow> Some (if is_legacy_record i then empty_linked_lock else i))"
proof -
  define b1 where "b1 = restore_keypad_info (restore_keypad_name (restore_key bt b))"
  define b2 where "b2 = set_deadline (bt_millis bt + BATTERY_SCAN_RETRY_MS) (restore_linked_lock b1)"
  define b3 where "b3 = (if \<not> lock_linked b2 then clear_lock_battery b2 else b2)"
  obtain ok b4 where k: "prepare_keys bt b3 = (ok, b4)" by (metis prod.exhaust)
  obtain ok' b5 where m: "prepare_ble bt b4 = (ok', b5)" by (metis prod.exhaust)
  have b1: "bridge.keypad_info b1 =
      (case pref_keypad_info (prefs b) of Some i \<Rightarrow> i | None \<Rightarrow> empty_keypad_info)"
    "keypad_paired b1 \<longleftrightarrow> (\<exists>n. pref_keypad_name (prefs b) = Some n \<and> n ! 0 \<noteq> CHR 0x00)"
    "shared_key b1 = (case pref_shared_key (prefs b) of Some k \<Rightarrow> k | None \<Rightarrow> bt_random bt)"
    "prefs b1 = (prefs b)\<lparr>pref_shared_key := Some (shared_key b1)\<rparr>"
    by (auto simp: b1_def restore_keypad_info_def restore_keypad_name_def restore_key_def
        create_shared_key_def sync_def Let_def split: option.splits)
  have b2: "linked_lock b2 = (case pref_linked_lock (prefs b) of None \<Rightarrow> empty_linked_lock
       | Some i \<Rightarrow> if is_legacy_record i then empty_linked_lock else i)"
    "lock_linked b2 \<longleftrightarrow> ll_valid (linked_lock b2) \<noteq> 0"
    "bridge.keypad_info b2 = bridge.keypad_info b1" "keypad_paired b2 = keypad_paired b1"
    "shared_key b2 = shared_key b1"
    "prefs b2 = (prefs b1)\<lparr>pref_linked_lock := (case pref_linked_lock (prefs b) of None \<Rightarrow> None
       | Some i \<Rightarrow> Some (if is_legacy_record i then empty_linked_lock else i))\<rparr>"
    using b1(4) by (auto simp: b2_def restore_linked_lock_def publish_defs Let_def split: option.splits)
  have same: "bridge.keypad_info b' = bridge.keypad_info b2 \<and> keypad_paired b' = keypad_paired b2 \<and>
      linked_lock b' = linked_lock b2 \<and> lock_linked b' = lock_linked b2 \<and>
      shared_key b' = shared_key b2 \<and> prefs b' = prefs b2"
  proof -
    have "bridge.keypad_info b3 = bridge.keypad_info b2 \<and> keypad_paired b3 = keypad_paired b2 \<and>
        linked_lock b3 = linked_lock b2 \<and> lock_linked b3 = lock_linked b2 \<and>
        shared_key b3 = shared_key b2 \<and> prefs b3 = prefs b2"
      by (simp add: b3_def publish_defs)
    moreover have "bridge.keypad_info b4 = bridge.keypad_info b3 \<and> keypad_paired b4 = keypad_paired b3 \<and>
        linked_lock b4 = linked_lock b3 \<and> lock_linked b4 = lock_linked b3 \<and>
        shared_key b4 = shared_key b3 \<and> prefs b4 = prefs b3"
      using k by (auto simp: prepare_keys_def import_aes_key_def Let_def split: if_splits option.splits)
    moreover have "bridge.keypad_info b5 = bridge.keypad_info b4 \<and> keypad_paired b5 = keypad_paired b4 \<and>
        linked_lock b5 = linked_lock b4 \<and> lock_linked b5 = lock_linked b4 \<and>
        shared_key b5 = shared_key b4 \<and> prefs b5 = prefs b4"
      using m by (auto simp: prepare_ble_def Let_def split: if_splits option.splits)
    ultimately show ?thesis
      unfolding assms bridge_setup_def b1_def [symmetric] b2_def [symmetric] b3_def [symmetric] Let_def k m
        prod.case
      by simp
  qed
  show "bridge.keypad_info b' =
      (case pref_keypad_info (prefs b) of Some i \<Rightarrow> i | None \<Rightarrow> empty_keypad_info)"
    "keypad_paired b' \<longleftrightarrow> (\<exists>n. pref_keypad_name (prefs b) = Some n \<and> n ! 0 \<noteq> CHR 0x00)"
    "linked_lock b' = (case pref_linked_lock (prefs b) of None \<Rightarrow> empty_linked_lock
       | Some i \<Rightarrow> if is_legacy_record i then empty_linked_lock else i)"
    "lock_linked b' \<longleftrightarrow> ll_valid (linked_lock b') \<noteq> 0"
    "shared_key b' = (case pref_shared_key (prefs b) of Some k \<Rightarrow> k | None \<Rightarrow> bt_random bt)"
    "pref_shared_key (prefs b') = Some (shared_key b')"
    "pref_keypad_name (prefs b') = pref_keypad_name (prefs b)"
    "pref_keypad_info (prefs b') = pref_keypad_info (prefs b)"
    "pref_linked_lock (prefs b') = (case pref_linked_lock (prefs b) of None \<Rightarrow> None
       | Some i \<Rightarrow> Some (if is_legacy_record i then empty_linked_lock else i))"
    using same b1 b2 by simp_all
qed

subsection \<open>Properties\<close>

text \<open>
  Boot never relays with anything but a shared-key record: whatever is found in flash, a linked
  lock after \<open>setup()\<close> has no private key bytes and one of the two shared slots; a legacy record is
  forgotten and overwritten, so the next boot does not find it again.
\<close>

theorem setup_rejects_legacy_records:
  "lock_linked (bridge_setup bt b) \<longrightarrow>
     is_shared_slot (ll_slot_id (linked_lock (bridge_setup bt b))) \<and>
     list_all (\<lambda>x. x = 0) (ll_reserved (linked_lock (bridge_setup bt b))) \<and>
     pref_linked_lock (prefs (bridge_setup bt b)) = Some (linked_lock (bridge_setup bt b))"
  using setup_facts [of "bridge_setup bt b" bt b]
  by (auto simp: is_legacy_record_def empty_linked_lock_def list_all_iff list_ex_iff
      split: option.splits if_splits)

text \<open>
  A pairing survives the reboot: when a finished job's name is not empty and its address parses,
  applying it and booting from the preferences it wrote restores the keypad as paired, with the same
  address and family, under the key that was in use.
\<close>

theorem pairing_survives_reboot:
  assumes "bridge.pending_pair b = Some pp" "parse_mac_pretty (pp_mac pp) = Some mac"
    and "pp_name pp \<noteq> []" "CHR 0x00 \<notin> set (pp_name pp)"
    and b1: "b1 = apply_pending_pairing now b"
    and b2: "b2 = bridge_setup bt (initial_bridge (config b) (prefs b1))"
  shows "keypad_paired b1 \<and> keypad_paired b2 \<and> bridge.keypad_info b2 = bridge.keypad_info b1 \<and>
    bridge.keypad_info b2 = \<lparr>ki_mac = mac, ki_family = family_byte (pp_family pp), ki_valid = 1\<rparr> \<and>
    shared_key b2 = (case pref_shared_key (prefs b) of Some k \<Rightarrow> k | None \<Rightarrow> bt_random bt) \<and>
    bridge.pending_pair b1 = None"
proof -
  have p: "prefs b1 = (prefs b)\<lparr>pref_keypad_name := Some (name_buffer KEYPAD_NAME_MAX (pp_name pp)),
      pref_keypad_info := Some \<lparr>ki_mac = mac, ki_family = family_byte (pp_family pp), ki_valid = 1\<rparr>\<rparr>"
    and info: "bridge.keypad_info b1 = \<lparr>ki_mac = mac, ki_family = family_byte (pp_family pp), ki_valid = 1\<rparr>"
    and rest: "keypad_paired b1" "bridge.pending_pair b1 = None"
    using assms(1,2) by (simp_all add: b1 apply_pending_pairing_def publish_defs Let_def)
  have head: "name_buffer KEYPAD_NAME_MAX (pp_name pp) ! 0 \<noteq> CHR 0x00"
    using assms(3,4) by (cases "pp_name pp") (auto simp: name_buffer_def KEYPAD_NAME_MAX_def)
  note f = setup_facts [OF b2]
  show ?thesis
    using f(1,2,5) p info rest head by (simp add: initial_bridge_def)
qed

text \<open>
  A lock link survives the reboot: when the job's address parses and its slot is a shared one,
  applying it and booting from the preferences it wrote yields the same linked lock, and relays go to
  the same address, model, slot and key before and after the reboot.
\<close>

theorem link_survives_reboot:
  assumes "bridge.pending_lock b = Some pl" "parse_mac_pretty (pl_mac pl) = Some mac"
    and "is_shared_slot (pl_slot_id pl)" "pref_shared_key (prefs b) = Some (shared_key b)"
    and b1: "b1 = apply_pending_lock_link now b"
    and b2: "b2 = bridge_setup bt (initial_bridge (config b) (prefs b1))"
  shows "lock_linked b1 \<and> lock_linked b2 \<and> linked_lock b2 = linked_lock b1 \<and>
    ll_slot_id (linked_lock b2) = pl_slot_id pl \<and>
    physical_lock_config slot b1 = \<lparr>cfg_mac = format_mac mac, cfg_model = pl_model pl,
      cfg_key_id = slot, cfg_key = shared_key b\<rparr> \<and>
    physical_lock_config slot b2 = physical_lock_config slot b1"
proof -
  have now: "lock_linked b1" "prefs b1 = (prefs b)\<lparr>pref_linked_lock := Some (linked_lock b1)\<rparr>"
      "linked_lock b1 = empty_linked_lock\<lparr>ll_mac := mac, ll_valid := 1,
        ll_model := model_byte (pl_model pl), ll_slot_id := pl_slot_id pl,
        ll_name := name_buffer LOCK_NAME_MAX (pl_name pl)\<rparr>"
      "shared_key b1 = shared_key b"
    using assms(1,2) by (simp_all add: b1 apply_pending_lock_link_def publish_defs Let_def)
  moreover have "\<not> is_legacy_record (linked_lock b1)"
    using now(3) assms(3) by (auto simp: is_legacy_record_def empty_linked_lock_def list_ex_iff)
  ultimately show ?thesis
    using setup_facts(3,4,5) [OF b2] assms(4) by (simp add: initial_bridge_def physical_lock_config_def)
qed

text \<open>
  What a successful reset leaves: nothing of the old links in the state or in the preferences, a
  session without generations under the new key.
\<close>

lemma reset_facts:
  assumes "b' = reset_pairing random (Some handle) env b"
  shows "\<not> keypad_paired b'" "\<not> lock_linked b'" "bridge.keypad_info b' = empty_keypad_info"
    "linked_lock b' = empty_linked_lock" "shared_key b' = random" "aes_key_handle b' = handle"
    "prefs b' = \<lparr>pref_shared_key = Some random,
      pref_keypad_name = Some (replicate KEYPAD_NAME_MAX (CHR 0x00)),
      pref_keypad_info = Some empty_keypad_info, pref_linked_lock = Some empty_linked_lock\<rparr>"
    "session b' = forget_slot (reset_session (set_aes_key handle (session b)))"
    "ui_shared_key (ui b') = random" "config b' = config b"
    "bridge.keypad_advert b' = bridge.keypad_advert b"
    "\<not> scan_active (scan b')"
proof -
  obtain ok b1 where imp: "import_aes_key (Some handle) (create_shared_key random b) = (ok, b1)"
    by (metis prod.exhaust)
  have i: "ok" "session b1 = set_aes_key handle (session b)" "aes_key_handle b1 = handle"
      "prefs b1 = (prefs b)\<lparr>pref_shared_key := Some random\<rparr>" "shared_key b1 = random"
      "config b1 = config b" "bridge.keypad_advert b1 = bridge.keypad_advert b"
    using imp by (auto simp: import_aes_key_def create_shared_key_def sync_def Let_def split: if_splits)
  have idle: "\<not> scan_active (scan (stop_battery_scan env b1))"
    by (simp add: stop_battery_scan_def Let_def)
  note b' = assms [unfolded reset_pairing_def imp Let_def prod.case if_not_P [OF not_not [THEN iffD2, OF i(1)]]]
  show "\<not> keypad_paired b'" "\<not> lock_linked b'" "bridge.keypad_info b' = empty_keypad_info"
    "linked_lock b' = empty_linked_lock" "shared_key b' = random" "aes_key_handle b' = handle"
    "prefs b' = \<lparr>pref_shared_key = Some random,
      pref_keypad_name = Some (replicate KEYPAD_NAME_MAX (CHR 0x00)),
      pref_keypad_info = Some empty_keypad_info, pref_linked_lock = Some empty_linked_lock\<rparr>"
    "session b' = forget_slot (reset_session (set_aes_key handle (session b)))"
    "ui_shared_key (ui b') = random" "config b' = config b"
    "bridge.keypad_advert b' = bridge.keypad_advert b" "\<not> scan_active (scan b')"
    using i idle by (simp_all add: b' publish_defs)
qed

lemma no_generation_no_command:
  assumes "\<not> ctx_valid (active s)" "\<not> ctx_valid (pending s)"
  shows "process_frame xc frame s r = (a, s', r') \<Longrightarrow> a \<noteq> COMMAND"
  using assms by (auto simp: process_frame_def Let_def split: if_splits prod.splits)


text \<open>
  A reset whose key import fails has already rotated the persisted key: it stops with the keypad
  still shown as paired and the lock still linked, while the old key handle is destroyed but still the
  one the session decrypts with.
\<close>

theorem failed_reset_has_rotated_key:
  assumes "aes_key_handle b \<noteq> PSA_KEY_ID_NULL" "aes_key (session b) = aes_key_handle b"
    and "b' = reset_pairing random None env b"
  shows "shared_key b' = random \<and> pref_shared_key (prefs b') = Some random \<and>
    keypad_paired b' = keypad_paired b \<and> lock_linked b' = lock_linked b \<and>
    ui_shared_key (ui b') = ui_shared_key (ui b) \<and> session b' = session b \<and>
    aes_key_handle b' = PSA_KEY_ID_NULL \<and>
    out b' = out b @ [SyncPreferences, DestroyKey (aes_key (session b'))]"
  using assms by (simp add: reset_pairing_def import_aes_key_def create_shared_key_def sync_def Let_def)

text \<open>
  A reset does not clear an advertisement the scan callback has already queued: applying it after
  the reset stores the address of the keypad that was just forgotten as a valid keypad record again.
\<close>

theorem queued_advert_survives_reset:
  assumes "bridge.keypad_advert b = Some ka"
    and "b' = apply_pending_keypad_battery (reset_pairing random (Some handle) env b)"
  shows "\<not> keypad_paired b' \<and> bridge.keypad_info b' = \<lparr>ki_mac = ka_mac ka, ki_family = ka_family ka, ki_valid = 1\<rparr> \<and>
    pref_keypad_info (prefs b') = Some (bridge.keypad_info b')"
  using reset_facts [OF refl, of random handle env b] assms
  by (simp add: apply_pending_keypad_battery_def empty_keypad_info_def publish_defs
      publish_keypad_battery_if_changed_def Let_def)

subsection \<open>Witnesses\<close>

definition test_boot :: boot where
  "test_boot = \<lparr>bt_random = replicate 16 9, bt_millis = 0, bt_crypto_init = True, bt_imported = Some 5,
    bt_efuse_mac = Some [0x24, 0x6F, 0x28, 1, 2, 3], bt_set_mac = True\<rparr>"

definition jobs_bridge :: bridge where
  "jobs_bridge = (test_bridge initial_session)\<lparr>
    prefs := \<lparr>pref_shared_key = Some (replicate 16 7), pref_keypad_name = None,
              pref_keypad_info = None, pref_linked_lock = None\<rparr>,
    aes_key_handle := 4, session := set_aes_key 4 initial_session,
    keypad_advert := Some \<lparr>ka_value = 80, ka_mac = [0xB0, 0xE9, 0xFE, 7, 7, 7], ka_family = 1\<rparr>,
    pending_pair := Some \<lparr>pp_name = ''Front door'', pp_mac = ''B0:E9:FE:0A:0B:0C'',
      pp_family = KeypadFamily 1\<rparr>,
    pending_lock := Some \<lparr>pl_name = ''Door lock'', pl_mac = ''B0:E9:FE:01:02:03'',
      pl_model = PhysicalLockModel 4, pl_slot_id = 0xC6\<rparr>\<rparr>"

lemma jobs_bridge_fields:
  "bridge.pending_pair jobs_bridge = Some \<lparr>pp_name = ''Front door'', pp_mac = ''B0:E9:FE:0A:0B:0C'',
      pp_family = KeypadFamily 1\<rparr>"
  "bridge.pending_lock jobs_bridge = Some \<lparr>pl_name = ''Door lock'', pl_mac = ''B0:E9:FE:01:02:03'',
      pl_model = PhysicalLockModel 4, pl_slot_id = 0xC6\<rparr>"
  "pref_shared_key (prefs jobs_bridge) = Some (shared_key jobs_bridge)"
  "shared_key jobs_bridge = replicate 16 7" "aes_key_handle jobs_bridge = 4"
  "aes_key (session jobs_bridge) = 4"
  "bridge.keypad_advert jobs_bridge = Some \<lparr>ka_value = 80, ka_mac = [0xB0, 0xE9, 0xFE, 7, 7, 7], ka_family = 1\<rparr>"
  by (simp_all add: jobs_bridge_def test_bridge_def set_aes_key_def)

lemma jobs_macs:
  "parse_mac_pretty ''B0:E9:FE:0A:0B:0C'' = Some [0xB0, 0xE9, 0xFE, 0x0A, 0x0B, 0x0C]"
  "parse_mac_pretty ''B0:E9:FE:01:02:03'' = Some [0xB0, 0xE9, 0xFE, 1, 2, 3]"
  by code_simp+

theorem pairing_survives_reboot_witness:
  "keypad_paired (bridge_setup test_boot (initial_bridge (config jobs_bridge)
      (prefs (apply_pending_pairing 1000 jobs_bridge)))) \<and>
    bridge.keypad_info (apply_pending_pairing 1000 jobs_bridge) =
    \<lparr>ki_mac = [0xB0, 0xE9, 0xFE, 0x0A, 0x0B, 0x0C], ki_family = 1, ki_valid = 1\<rparr>"
proof -
  have "family_byte (KeypadFamily 1) = 1" by simp
  with pairing_survives_reboot [where mac = "[0xB0, 0xE9, 0xFE, 0x0A, 0x0B, 0x0C]" and now = 1000
      and bt = test_boot, OF jobs_bridge_fields(1) _ _ _ refl refl, simplified, OF jobs_macs(1)]
  show ?thesis by (elim conjE) (intro conjI, assumption, erule trans [OF sym], simp)
qed

theorem link_survives_reboot_witness:
  "cfg_mac (physical_lock_config 0xC6 (bridge_setup test_boot (initial_bridge (config jobs_bridge)
      (prefs (apply_pending_lock_link 1000 jobs_bridge))))) = ''B0:E9:FE:01:02:03''"
proof -
  have shared: "is_shared_slot 0xC6" by code_simp
  have mac: "format_mac [0xB0, 0xE9, 0xFE, 1, 2, 3] = ''B0:E9:FE:01:02:03''" by code_simp
  show ?thesis
    using link_survives_reboot [where mac = "[0xB0, 0xE9, 0xFE, 1, 2, 3]" and now = 1000
        and bt = test_boot and slot = "0xC6",
        OF jobs_bridge_fields(2) _ _ jobs_bridge_fields(3) refl refl] jobs_macs(2) shared mac
    by simp
qed

theorem setup_rejects_legacy_records_witness:
  "is_shared_slot (ll_slot_id (linked_lock (bridge_setup test_boot (initial_bridge (config jobs_bridge)
    (prefs (apply_pending_lock_link 1000 jobs_bridge))))))"
proof -
  let ?b = "initial_bridge (config jobs_bridge) (prefs (apply_pending_lock_link 1000 jobs_bridge))"
  have "lock_linked (bridge_setup test_boot ?b)" by code_simp
  then show ?thesis using setup_rejects_legacy_records [of test_boot ?b] by blast
qed


theorem failed_reset_has_rotated_key_witness:
  "shared_key (reset_pairing (replicate 16 3) None (idle_radio 5) jobs_bridge) = replicate 16 3 \<and>
    lock_linked (reset_pairing (replicate 16 3) None (idle_radio 5) jobs_bridge) = lock_linked jobs_bridge"
  using failed_reset_has_rotated_key [where b = jobs_bridge and random = "replicate 16 3"
      and env = "idle_radio 5", OF _ _ refl]
  by (simp add: jobs_bridge_fields PSA_KEY_ID_NULL_def)

theorem queued_advert_survives_reset_witness:
  "ki_valid (bridge.keypad_info (apply_pending_keypad_battery
    (reset_pairing (replicate 16 3) (Some 6) (idle_radio 5) jobs_bridge))) = 1"
  using queued_advert_survives_reset [where random = "replicate 16 3" and handle = 6
      and env = "idle_radio 5", OF jobs_bridge_fields(7) refl]
  by simp

end
