(* ===== verification/Background_Job.thy ===== *)
theory Background_Job
  imports Prelude
begin

text \<open>
  The job state machine shared by the lock linker and the keypad pairer (\<open>BackgroundBleJob\<close>,
  \<open>background_job.h\<close>). A derived class is an extension of the record \<open>ble_job\<close>. The mutex makes every
  operation on the status atomic, so an operation is a function of the state; the task body
  \<open>execute_\<close> is the derived class's own. \<open>esp_timer_get_time()\<close> and the outcome of the FreeRTOS call
  are arguments; \<open>unsigned long\<close> has 32 bits on the ESP32. A null message pointer is \<open>None\<close>.

  The contract of a job class is the locale \<open>job_class\<close>; the linker and the pairer interpret it.
\<close>

subsection \<open>Status\<close>

datatype job_state = IDLE | RUNNING | SUCCESS | FAILED

record job_status =
  st_state :: job_state
  st_step :: byte
  st_total :: byte
  st_message :: string
  st_error :: string
  st_job_id :: string

definition idle_status :: job_status where
  "idle_status = \<lparr>st_state = IDLE, st_step = 0, st_total = 0, st_message = [], st_error = [],
    st_job_id = []\<rparr>"

record ble_job =
  status :: job_status

definition text_or_empty :: "string option \<Rightarrow> string" where
  "text_or_empty s = (case s of Some t \<Rightarrow> t | None \<Rightarrow> [])"

definition job_state_of :: "'a ble_job_scheme \<Rightarrow> job_state" where
  "job_state_of j = st_state (status j)"

definition is_running :: "'a ble_job_scheme \<Rightarrow> bool" where
  "is_running j \<longleftrightarrow> st_state (status j) = RUNNING"

definition running_status :: "byte \<Rightarrow> string \<Rightarrow> string option \<Rightarrow> job_status" where
  "running_status total_steps job_id first_message =
    idle_status\<lparr>st_state := RUNNING, st_total := total_steps, st_message := text_or_empty first_message,
      st_job_id := job_id\<rparr>"

definition mark_running :: "byte \<Rightarrow> string \<Rightarrow> string option \<Rightarrow> 'a ble_job_scheme \<Rightarrow> 'a ble_job_scheme" where
  "mark_running total_steps job_id first_message j = j\<lparr>status := running_status total_steps job_id first_message\<rparr>"

definition mark_step :: "byte \<Rightarrow> string option \<Rightarrow> 'a ble_job_scheme \<Rightarrow> 'a ble_job_scheme" where
  "mark_step step message j =
    j\<lparr>status := (status j)\<lparr>st_step := step, st_message := text_or_empty message\<rparr>\<rparr>"

definition mark_failed :: "string \<Rightarrow> 'a ble_job_scheme \<Rightarrow> 'a ble_job_scheme" where
  "mark_failed err j =
    j\<lparr>status := (status j)\<lparr>st_state := FAILED, st_error := err, st_message := err\<rparr>\<rparr>"

subsection \<open>Job ids\<close>

text \<open>\<open>snprintf(buf, 16, "%c-%lu", ..)\<close> of the milliseconds since boot.\<close>

fun dec_string :: "nat \<Rightarrow> string" where
  "dec_string n =
    (if n < 10 then [char_of (48 + n)] else dec_string (n div 10) @ [char_of (48 + n mod 10)])"

declare dec_string.simps [simp del]

definition job_id_of :: "char \<Rightarrow> nat \<Rightarrow> string" where
  "job_id_of job_prefix timer_us =
    take 15 (job_prefix # CHR ''-'' # dec_string ((timer_us div 1000) mod 2 ^ 32))"

text \<open>
  \<open>start_job_\<close>: \<open>task_ok\<close> tells whether the task was created; the empty string is the refusal.
\<close>

definition start_job ::
  "char \<Rightarrow> nat \<Rightarrow> byte \<Rightarrow> string option \<Rightarrow> string \<Rightarrow> bool \<Rightarrow> ('a ble_job_scheme \<Rightarrow> 'a ble_job_scheme) \<Rightarrow>
    'a ble_job_scheme \<Rightarrow> string \<times> 'a ble_job_scheme" where
  "start_job job_prefix timer_us total_steps first_message start_error task_ok prepare j =
    (let job_id = job_id_of job_prefix timer_us
     in if st_state (status j) = RUNNING then ([], j)
        else
          let j1 = (prepare j)\<lparr>status := running_status total_steps job_id first_message\<rparr>
          in if \<not> task_ok then ([], mark_failed start_error j1) else (job_id, j1))"

lemmas job_defs = mark_running_def mark_step_def mark_failed_def running_status_def idle_status_def
  job_state_of_def is_running_def text_or_empty_def

subsection \<open>Job ids are different\<close>

definition dec_value :: "string \<Rightarrow> nat" where
  "dec_value s = foldl (\<lambda>v c. 10 * v + ((of_char c :: nat) - 48)) 0 s"

lemma of_char_digit: "n < 10 \<Longrightarrow> (of_char (char_of (48 + n :: nat)) :: nat) = 48 + n"
  by simp

lemma dec_value_string [simp]: "dec_value (dec_string n) = n"
proof (induction n rule: dec_string.induct)
  case (1 n)
  show ?case
  proof (cases "n < 10")
    case True
    then show ?thesis by (subst dec_string.simps) (simp add: dec_value_def)
  next
    case False
    then have "dec_value (dec_string n) = 10 * dec_value (dec_string (n div 10)) + n mod 10"
      by (subst dec_string.simps) (simp add: dec_value_def)
    with 1 False show ?thesis by simp
  qed
qed

lemma length_dec_string: "0 < k \<Longrightarrow> n < 10 ^ k \<Longrightarrow> length (dec_string n) \<le> k"
proof (induction k arbitrary: n)
  case (Suc k)
  show ?case
  proof (cases "n < 10")
    case False
    with Suc.prems have "0 < k" by (cases k) auto
    moreover from Suc.prems have "n div 10 < 10 ^ k" by (simp add: less_mult_imp_div_less mult.commute)
    ultimately have "length (dec_string (n div 10)) \<le> k" by (rule Suc.IH)
    with False show ?thesis by (subst dec_string.simps) simp
  qed (subst dec_string.simps, simp)
qed simp

lemma job_id_whole:
  "job_id_of p t = p # CHR ''-'' # dec_string ((t div 1000) mod 2 ^ 32)"
proof -
  have "(t div 1000) mod 2 ^ 32 < (10 :: nat) ^ 10"
    by (rule less_le_trans [OF mod_less_divisor]) simp_all
  then have "length (dec_string ((t div 1000) mod 2 ^ 32)) \<le> 10" by (rule length_dec_string [rotated]) simp
  then show ?thesis by (simp add: job_id_of_def)
qed

lemma job_id_nonempty [simp]: "job_id_of p t \<noteq> []"
  by (simp add: job_id_whole)

text \<open>
  Two job ids are equal only for the same kind of job started in the same millisecond, up to the
  49-day wrap of the 32-bit counter.
\<close>

lemma job_id_eq_iff:
  "job_id_of p t = job_id_of p' t' \<longleftrightarrow>
    p = p' \<and> (t div 1000) mod 2 ^ 32 = (t' div 1000) mod 2 ^ 32"
  unfolding job_id_whole by (metis dec_value_string list.inject)

subsection \<open>Starting\<close>

lemma start_job_busy:
  "st_state (status j) = RUNNING \<Longrightarrow> start_job p t n m e ok prep j = ([], j)"
  by (simp add: start_job_def Let_def)

lemma start_job_spawned:
  "st_state (status j) \<noteq> RUNNING \<Longrightarrow> start_job p t n m e True prep j =
    (job_id_of p t, (prep j)\<lparr>status := running_status n (job_id_of p t) m\<rparr>)"
  by (simp add: start_job_def Let_def)

lemma start_job_refused:
  "st_state (status j) \<noteq> RUNNING \<Longrightarrow> start_job p t n m e False prep j =
    ([], mark_failed e ((prep j)\<lparr>status := running_status n (job_id_of p t) m\<rparr>))"
  by (simp add: start_job_def Let_def)

lemma running_status_fields [simp]:
  "st_state (running_status n i m) = RUNNING" "st_job_id (running_status n i m) = i"
  "st_total (running_status n i m) = n" "st_step (running_status n i m) = 0"
  "st_error (running_status n i m) = []" "st_message (running_status n i m) = text_or_empty m"
  by (simp_all add: running_status_def idle_status_def)

lemma mark_failed_fields [simp]:
  "st_state (status (mark_failed e j)) = FAILED" "st_job_id (status (mark_failed e j)) = st_job_id (status j)"
  "st_total (status (mark_failed e j)) = st_total (status j)"
  "st_step (status (mark_failed e j)) = st_step (status j)"
  "st_error (status (mark_failed e j)) = e" "st_message (status (mark_failed e j)) = e"
  by (simp_all add: mark_failed_def)

lemma mark_step_fields [simp]:
  "st_state (status (mark_step n m j)) = st_state (status j)"
  "st_job_id (status (mark_step n m j)) = st_job_id (status j)"
  "st_total (status (mark_step n m j)) = st_total (status j)" "st_step (status (mark_step n m j)) = n"
  by (simp_all add: mark_step_def)

subsection \<open>The contract of a job class\<close>

text \<open>
  A job history: requests to start (the time, whether the task could be created, the request) and
  task bodies that run to their end.
\<close>

datatype ('req, 'env) job_event = JobStart nat bool 'req | JobRuns 'env

text \<open>The successful starts of a history, oldest first, as \<open>(id, request)\<close>, are what a client sees.\<close>

locale job_class =
  fixes base :: "'j \<Rightarrow> job_status"
    and start :: "nat \<Rightarrow> bool \<Rightarrow> 'req \<Rightarrow> 'j \<Rightarrow> string \<times> 'j"
    and run :: "'env \<Rightarrow> 'req \<Rightarrow> 'j \<Rightarrow> 'j"
    and describes :: "'req \<Rightarrow> 'j \<Rightarrow> bool"
  assumes start_busy: "st_state (base j) = RUNNING \<Longrightarrow> start t ok req j = ([], j)"
    and start_ok: "st_state (base j) \<noteq> RUNNING \<Longrightarrow> start t True req j = (i, j') \<Longrightarrow>
      i \<noteq> [] \<and> st_state (base j') = RUNNING \<and> st_job_id (base j') = i"
    and start_no_task: "st_state (base j) \<noteq> RUNNING \<Longrightarrow> start t False req j = (i, j') \<Longrightarrow>
      i = [] \<and> st_state (base j') = FAILED"
    and run_ends: "st_state (base j) = RUNNING \<Longrightarrow>
      st_state (base (run env req j)) \<in> {SUCCESS, FAILED} \<and>
      st_job_id (base (run env req j)) = st_job_id (base j)"
    and run_success: "st_state (base j) = RUNNING \<Longrightarrow> st_state (base (run env req j)) = SUCCESS \<Longrightarrow>
      describes req (run env req j)"
begin

text \<open>The state of a history: the job, the request in flight and the last id handed out.\<close>

fun job_step :: "('req, 'env) job_event \<Rightarrow> 'j \<times> 'req option \<times> (string \<times> 'req) option \<Rightarrow>
    'j \<times> 'req option \<times> (string \<times> 'req) option" where
  "job_step (JobStart t ok req) (j, flight, latest) =
    (case start t ok req j of (i, j') \<Rightarrow>
       if i \<noteq> [] then (j', Some req, Some (i, req)) else (j', flight, latest))"
| "job_step (JobRuns env) (j, flight, latest) =
    (case flight of None \<Rightarrow> (j, None, latest) | Some req \<Rightarrow> (run env req j, None, latest))"

definition job_run where
  "job_run evs s = foldl (\<lambda>s e. job_step e s) s evs"

definition job_ok :: "'j \<times> 'req option \<times> (string \<times> 'req) option \<Rightarrow> bool" where
  "job_ok s \<longleftrightarrow> (case s of (j, flight, latest) \<Rightarrow>
    (st_state (base j) = RUNNING \<longleftrightarrow> flight \<noteq> None) \<and>
    (case flight of None \<Rightarrow> True
     | Some req \<Rightarrow> \<exists>i. i \<noteq> [] \<and> latest = Some (i, req) \<and> st_job_id (base j) = i) \<and>
    (st_state (base j) = SUCCESS \<longrightarrow>
      (\<exists>i req. i \<noteq> [] \<and> latest = Some (i, req) \<and> st_job_id (base j) = i \<and> describes req j)))"

lemma job_ok_step: "job_ok s \<Longrightarrow> job_ok (job_step e s)"
proof -
  assume ok: "job_ok s"
  obtain j flight latest where s: "s = (j, flight, latest)" by (metis prod_cases3)
  show "job_ok (job_step e s)"
  proof (cases e)
    case (JobStart t tok req)
    obtain i j' where st: "start t tok req j = (i, j')" by (metis prod.exhaust)
    show ?thesis
    proof (cases "st_state (base j) = RUNNING")
      case True
      with start_busy [OF True, of t tok req] st ok show ?thesis
        by (simp add: JobStart s)
    next
      case idle: False
      with ok s have "flight = None" by (simp add: job_ok_def)
      then show ?thesis
        using start_ok [OF idle, of t req i j'] start_no_task [OF idle, of t req i j'] st ok
        by (cases tok) (auto simp: JobStart s job_ok_def)
    qed
  next
    case (JobRuns env)
    show ?thesis
    proof (cases flight)
      case None
      with ok show ?thesis by (simp add: JobRuns s job_ok_def)
    next
      case (Some req)
      with ok s have running: "st_state (base j) = RUNNING"
          and latest: "\<exists>i. i \<noteq> [] \<and> latest = Some (i, req) \<and> st_job_id (base j) = i"
        by (simp_all add: job_ok_def)
      have ends: "st_state (base (run env req j)) = SUCCESS \<or> st_state (base (run env req j)) = FAILED"
          "st_job_id (base (run env req j)) = st_job_id (base j)"
        using run_ends [OF running, of env req] by simp_all
      with run_success [OF running, of env req] latest Some show ?thesis
        by (auto simp: JobRuns s job_ok_def)
    qed
  qed
qed

lemma job_ok_run: "job_ok s \<Longrightarrow> job_ok (job_run evs s)"
  unfolding job_run_def by (induction evs arbitrary: s) (simp_all add: job_ok_step)

lemma job_ok_initial: "st_state (base j) = IDLE \<Longrightarrow> job_ok (j, None, None)"
  by (simp add: job_ok_def)

text \<open>
  At most one job is in flight, and a reported success is that of the last job whose id was handed
  out, and describes that job's request.
\<close>

lemma success_is_last_started:
  "st_state (base j0) = IDLE \<Longrightarrow> job_run evs (j0, None, None) = (j, flight, latest) \<Longrightarrow>
    st_state (base j) = SUCCESS \<Longrightarrow>
    flight = None \<and> (\<exists>i req. latest = Some (i, req) \<and> st_job_id (base j) = i \<and> describes req j)"
  using job_ok_run [OF job_ok_initial, of j0 evs] by (auto simp: job_ok_def)

end

end
