(* ===== verification/Cloud_Client.thy ===== *)
theory Cloud_Client
  imports Mac_Utils Background_Job "HOL-Library.Monad_Syntax"
begin

text \<open>
  The SwitchBot cloud client (\<open>cloud_client.h\<close>, \<open>cloud_client.cpp\<close>): the HTTPS plumbing, the API
  envelope and the three public calls. cJSON, the HTTP client and the clocks are not part of the
  firmware: a JSON text is parsed and printed by the two functions of a \<open>json_lib\<close>, and the network
  and the clocks answer every call given the history of the calls made so far.

  The wait for a valid system clock is a loop the code leaves only when a clock moves. It is a
  partial function, so an operation that never returns is the value \<open>None\<close>, and
  \<open>cloud_calls_return\<close> states when it does return.
\<close>

subsection \<open>JSON values as cJSON presents them\<close>

text \<open>
  A number carries its \<open>valueint\<close>. \<open>json_item\<close> is \<open>cJSON_GetObjectItemCaseSensitive\<close>: the first
  member of that name, \<open>NULL\<close> for anything that is not an object. \<open>json_string\<close> is the value of an
  item that passes \<open>cJSON_IsString(x) && x->valuestring\<close>, read as a C string.
\<close>

datatype json =
    JNull
  | JBool bool
  | JNumber int
  | JString string
  | JArray "json list"
  | JObject "(string \<times> json) list"

record json_lib =
  jl_parse :: "string \<Rightarrow> json option"
  jl_print :: "json \<Rightarrow> string option"

fun json_item :: "json \<Rightarrow> string \<Rightarrow> json option" where
  "json_item (JObject members) key = map_of members key"
| "json_item _ key = None"

fun json_string :: "json option \<Rightarrow> string option" where
  "json_string (Some (JString s)) = Some (c_str s)"
| "json_string _ = None"

subsection \<open>The envelope of every API answer\<close>

record envelope =
  env_root :: "json option"
  env_status :: int
  env_message :: string

definition make_envelope :: "json_lib \<Rightarrow> string \<Rightarrow> envelope" where
  "make_envelope jl raw =
    (case jl_parse jl raw of
       None \<Rightarrow> \<lparr>env_root = None, env_status = -1, env_message = []\<rparr>
     | Some root \<Rightarrow>
         \<lparr>env_root = Some root,
          env_status = (case json_item root ''statusCode'' of Some (JNumber n) \<Rightarrow> n | _ \<Rightarrow> -1),
          env_message = (case json_string (json_item root ''message'') of Some m \<Rightarrow> m | None \<Rightarrow> [])\<rparr>)"

definition env_is_json :: "envelope \<Rightarrow> bool" where
  "env_is_json e \<longleftrightarrow> env_root e \<noteq> None"

definition env_ok :: "envelope \<Rightarrow> bool" where
  "env_ok e \<longleftrightarrow> env_is_json e \<and> env_status e = 100"

definition env_error_or :: "envelope \<Rightarrow> string \<Rightarrow> string" where
  "env_error_or e fallback = (if env_message e = [] then fallback else env_message e)"

definition env_body :: "envelope \<Rightarrow> json option" where
  "env_body e = (case env_root e of None \<Rightarrow> None | Some root \<Rightarrow> json_item root ''body'')"

definition env_body_item :: "envelope \<Rightarrow> string \<Rightarrow> json option" where
  "env_body_item e key = (case env_body e of None \<Rightarrow> None | Some b \<Rightarrow> json_item b key)"

subsection \<open>Hexadecimal keys\<close>

definition parse_hex_byte :: "char \<Rightarrow> char \<Rightarrow> byte option" where
  "parse_hex_byte a b =
    (case (hex_value a, hex_value b) of
       (Some hi, Some lo) \<Rightarrow> Some (push_bit 4 (of_nat hi) OR of_nat lo)
     | _ \<Rightarrow> None)"

fun parse_hex_loop :: "string \<Rightarrow> byte list option" where
  "parse_hex_loop (a # b # rest) =
    (case parse_hex_byte a b of
       None \<Rightarrow> None
     | Some x \<Rightarrow> map_option ((#) x) (parse_hex_loop rest))"
| "parse_hex_loop _ = Some []"

definition parse_hex_string :: "string \<Rightarrow> byte list option" where
  "parse_hex_string hex = (if length hex mod 2 \<noteq> 0 then None else parse_hex_loop hex)"

subsection \<open>HTTPS plumbing\<close>

record http_request =
  hr_url :: string
  hr_bearer :: "string option"
  hr_body :: string

text \<open>
  What the operations did to the outside: waited, created a client handle, sent a POST with its
  authorization header, closed the connection for a retry, freed the handle.
\<close>

datatype http_call = HDelay nat | HInit string | HPerform http_request | HClose | HCleanup

type_synonym http_log = "http_call list"

text \<open>The events esp_http_client raises while a request is performed; only the data ones matter.\<close>

datatype http_event = OnData string | OnOther

text \<open>
  \<open>he_perform\<close> gives the events of a request and its outcome: the name of the error or the HTTP
  status. \<open>he_tick\<close> is the FreeRTOS tick counter, \<open>he_hz\<close> the tick rate, \<open>he_time\<close> the wall clock.
\<close>

record http_env =
  he_time :: "http_log \<Rightarrow> int"
  he_tick :: "http_log \<Rightarrow> u32"
  he_hz :: u32
  he_init :: "http_log \<Rightarrow> string \<Rightarrow> bool"
  he_perform :: "http_log \<Rightarrow> http_request \<Rightarrow> http_event list \<times> (string + int)"

fun http_event_handler :: "http_event \<Rightarrow> string \<Rightarrow> string" where
  "http_event_handler (OnData d) buf = buf @ d"
| "http_event_handler OnOther buf = buf"

definition ms_to_ticks :: "u32 \<Rightarrow> u32 \<Rightarrow> u32" where
  "ms_to_ticks hz ms = ms * hz div 1000"

definition MIN_VALID_TIME :: int where "MIN_VALID_TIME = 1700000000"

definition CLOCK_ERROR :: string where
  "CLOCK_ERROR = ''Device clock not set '' @ [CHR 0xE2, CHR 0x80, CHR 0x94] @
    '' TLS needs a valid system time. Add `time: - platform: sntp` to the YAML, or wait until Home Assistant connects (its API component syncs the clock).''"

partial_function (option) clock_wait :: "http_env \<Rightarrow> u32 \<Rightarrow> http_log \<Rightarrow> (bool \<times> http_log) option" where
  "clock_wait env start log =
    (if he_time env log < MIN_VALID_TIME then
       (if he_tick env log - start > ms_to_ticks (he_hz env) 10000 then Some (False, log)
        else clock_wait env start (log @ [HDelay 200]))
     else Some (True, log))"

fun dec_int :: "int \<Rightarrow> string" where
  "dec_int n = (if n < 0 then CHR ''-'' # dec_string (nat (- n)) else dec_string (nat n))"

definition perform :: "http_env \<Rightarrow> http_request \<Rightarrow> http_log \<Rightarrow> (string \<times> (string + int)) \<times> http_log" where
  "perform env req log =
    (case he_perform env log req of (evts, outcome) \<Rightarrow>
      ((fold http_event_handler evts [], outcome), log @ [HPerform req]))"

definition post_json ::
  "http_env \<Rightarrow> string \<Rightarrow> string \<Rightarrow> string \<Rightarrow> http_log \<Rightarrow> ((string + string) \<times> http_log) option" where
  "post_json env url body bearer log =
    do {
      (valid, log1) \<leftarrow> clock_wait env (he_tick env log) log;
      Some (if \<not> valid then (Inl CLOCK_ERROR, log1)
       else if \<not> he_init env log1 url then (Inl ''esp_http_client_init failed'', log1)
       else
         let req = \<lparr>hr_url = url, hr_bearer = (if bearer \<noteq> [] then Some bearer else None), hr_body = body\<rparr>;
             ((out, outcome), log2) = perform env req (log1 @ [HInit url]);
             ((out, outcome), log3) =
               (case outcome of
                  Inl err \<Rightarrow> perform env req (log2 @ [HClose, HDelay 500])
                | Inr code \<Rightarrow> ((out, Inr code), log2))
         in (case outcome of
               Inl err \<Rightarrow> Inl (''HTTPS request failed: '' @ err)
             | Inr code \<Rightarrow> if code div 100 \<noteq> 2 then Inl (''HTTP '' @ dec_int code) else Inr out,
             log3 @ [HCleanup]))
    }"

subsection \<open>The client\<close>

record account_device =
  ad_mac :: string
  ad_mac_pretty :: string
  ad_name :: string
  ad_device_type :: string

record cloud_client =
  auth_token :: string
  region :: string
  devices_cache :: "account_device list"

definition logged_out :: cloud_client where
  "logged_out = \<lparr>auth_token = [], region = [], devices_cache = []\<rparr>"

definition is_logged_in :: "cloud_client \<Rightarrow> bool" where
  "is_logged_in c \<longleftrightarrow> auth_token c \<noteq> []"

definition cloud_clear :: "cloud_client \<Rightarrow> cloud_client" where
  "cloud_clear c = c\<lparr>auth_token := [], region := [], devices_cache := []\<rparr>"

definition CLIENT_ID :: string where "CLIENT_ID = ''5nnwmhmsa9xxskm14hd85lm9bm''"

definition ACCOUNT_BASE :: string where "ACCOUNT_BASE = ''https://account.api.switchbot.net''"

definition build_login_body :: "json_lib \<Rightarrow> string \<Rightarrow> string \<Rightarrow> string" where
  "build_login_body jl email password =
    (case jl_print jl (JObject
        [(''clientId'', JString CLIENT_ID), (''username'', JString (c_str email)),
         (''password'', JString (c_str password)), (''grantType'', JString ''password''),
         (''verifyCode'', JString [])]) of
       Some s \<Rightarrow> s
     | None \<Rightarrow> ''{}'')"

definition wonderlabs_base :: "cloud_client \<Rightarrow> string" where
  "wonderlabs_base c =
    ''https://wonderlabs.'' @ (if region c = [] then ''us'' else region c) @ ''.api.switchbot.net''"

definition login_url :: string where "login_url = ACCOUNT_BASE @ ''/account/api/v1/user/login''"

definition userinfo_url :: string where "userinfo_url = ACCOUNT_BASE @ ''/account/api/v1/user/userinfo''"

text \<open>Step 1 of the login: the bearer token, or the error the caller shows.\<close>

definition login_token :: "json_lib \<Rightarrow> string + string \<Rightarrow> string + string" where
  "login_token jl answer =
    (case answer of
       Inl err \<Rightarrow> Inl err
     | Inr response \<Rightarrow>
         let env = make_envelope jl response in
         if \<not> env_is_json env then Inl ''Login response was not valid JSON''
         else if \<not> env_ok env then Inl (env_error_or env ''Login rejected'')
         else (case json_string (env_body_item env ''access_token'') of
                 None \<Rightarrow> Inl ''Login succeeded but no access_token returned''
               | Some tok \<Rightarrow> Inr tok))"

text \<open>Step 2: the region named by the user information, when there is one.\<close>

definition userinfo_region :: "json_lib \<Rightarrow> string + string \<Rightarrow> string" where
  "userinfo_region jl answer =
    (case answer of
       Inl err \<Rightarrow> ''us''
     | Inr response \<Rightarrow>
         let env = make_envelope jl response in
         case (if env_ok env then json_string (env_body_item env ''botRegion'') else None) of
           Some r \<Rightarrow> if r \<noteq> [] then r else ''us''
         | None \<Rightarrow> ''us'')"

definition login ::
  "json_lib \<Rightarrow> http_env \<Rightarrow> string \<Rightarrow> string \<Rightarrow> cloud_client \<Rightarrow> http_log \<Rightarrow>
    ((string + unit) \<times> cloud_client \<times> http_log) option" where
  "login jl env email password c log =
    do {
      (answer, log1) \<leftarrow> post_json env login_url (build_login_body jl email password) [] log;
      (case login_token jl answer of
         Inl err \<Rightarrow> Some (Inl err, cloud_clear c, log1)
       | Inr tok \<Rightarrow>
           do {
             (info, log2) \<leftarrow> post_json env userinfo_url ''{}'' tok log1;
             Some (Inr (), (cloud_clear c)\<lparr>auth_token := tok, region := userinfo_region jl info\<rparr>, log2)
           })
    }"

text \<open>One item of the account's device list; an item without a MAC is passed over.\<close>

definition account_device_of :: "json \<Rightarrow> account_device option" where
  "account_device_of item =
    (case json_string (json_item item ''device_mac'') of
       None \<Rightarrow> None
     | Some mac \<Rightarrow>
         let pretty = pretty_mac (compact_mac mac);
             kind = (case json_item item ''device_detail'' of
                       None \<Rightarrow> None
                     | Some detail \<Rightarrow> json_item detail ''device_type'')
         in Some \<lparr>ad_mac = compact_mac mac, ad_mac_pretty = pretty,
              ad_name = (case json_string (json_item item ''device_name'') of Some n \<Rightarrow> n | None \<Rightarrow> pretty),
              ad_device_type = (case json_string kind of Some k \<Rightarrow> k | None \<Rightarrow> [])\<rparr>)"

definition device_list :: "json_lib \<Rightarrow> string + string \<Rightarrow> string + account_device list" where
  "device_list jl answer =
    (case answer of
       Inl err \<Rightarrow> Inl err
     | Inr response \<Rightarrow>
         let env = make_envelope jl response in
         if \<not> env_is_json env then Inl ''Device list response was not valid JSON''
         else if \<not> env_ok env then Inl (env_error_or env ''Device list rejected'')
         else (case env_body_item env ''Items'' of
                 Some (JArray items) \<Rightarrow> Inr (List.map_filter account_device_of items)
               | _ \<Rightarrow> Inl ''Device list missing Items array''))"

definition getdevice_url :: "cloud_client \<Rightarrow> string" where
  "getdevice_url c = wonderlabs_base c @ ''/wonder/device/v3/getdevice''"

definition GETDEVICE_BODY :: string where "GETDEVICE_BODY = ''{\"required_type\":\"All\"}''"

definition list_devices ::
  "json_lib \<Rightarrow> http_env \<Rightarrow> bool \<Rightarrow> cloud_client \<Rightarrow> http_log \<Rightarrow>
    ((string + account_device list) \<times> cloud_client \<times> http_log) option" where
  "list_devices jl env force_refresh c log =
    (if \<not> is_logged_in c then Some (Inl ''Not logged in'', c, log)
     else if \<not> force_refresh \<and> devices_cache c \<noteq> [] then Some (Inr (devices_cache c), c, log)
     else do {
       (answer, log1) \<leftarrow> post_json env (getdevice_url c) GETDEVICE_BODY (auth_token c) log;
       Some (case device_list jl answer of
          Inl err \<Rightarrow> (Inl err, c, log1)
        | Inr picked \<Rightarrow> (Inr picked, c\<lparr>devices_cache := picked\<rparr>, log1))
     })"

definition communicate_url :: "cloud_client \<Rightarrow> string" where
  "communicate_url c = wonderlabs_base c @ ''/wonder/keys/v1/communicate''"

definition communicate_body :: "string \<Rightarrow> string" where
  "communicate_body mac = ''{\"device_mac\":\"'' @ compact_mac mac @ ''\",\"keyType\":\"user\"}''"

definition device_key :: "json_lib \<Rightarrow> string + string \<Rightarrow> string + (string \<times> byte list)" where
  "device_key jl answer =
    (case answer of
       Inl err \<Rightarrow> Inl err
     | Inr response \<Rightarrow>
         let env = make_envelope jl response in
         if \<not> env_is_json env then Inl ''communicate response was not valid JSON''
         else if \<not> env_ok env then Inl (env_error_or env ''communicate rejected'')
         else (case env_body_item env ''communicationKey'' of
                 Some (JObject members) \<Rightarrow>
                   (case (json_string (json_item (JObject members) ''keyId''),
                          json_string (json_item (JObject members) ''key'')) of
                      (Some kid, Some k) \<Rightarrow>
                        (case parse_hex_string k of
                           Some bytes \<Rightarrow> if length bytes \<noteq> 16 then Inl ''communicate returned a malformed AES key''
                                         else Inr (kid, bytes)
                         | None \<Rightarrow> Inl ''communicate returned a malformed AES key'')
                    | _ \<Rightarrow> Inl ''communicate response missing keyId/key'')
               | _ \<Rightarrow> Inl ''communicate response missing communicationKey''))"

definition fetch_device_key ::
  "json_lib \<Rightarrow> http_env \<Rightarrow> string \<Rightarrow> cloud_client \<Rightarrow> http_log \<Rightarrow>
    ((string + (string \<times> byte list)) \<times> http_log) option" where
  "fetch_device_key jl env mac c log =
    (if \<not> is_logged_in c then Some (Inl ''Not logged in'', log)
     else do {
       (answer, log1) \<leftarrow> post_json env (communicate_url c) (communicate_body mac) (auth_token c) log;
       Some (device_key jl answer, log1)
     })"

subsection \<open>Hexadecimal keys round trip\<close>

lemma nibbles_join: "lo < 16 \<Longrightarrow> push_bit 4 (of_nat hi) OR of_nat lo = (of_nat (16 * hi + lo) :: byte)"
proof -
  assume "lo < 16"
  then have "\<not> bit lo n" if "4 \<le> n" for n
  proof -
    have "lo < 2 ^ n" using \<open>lo < 16\<close> power_increasing [OF that, of "2 :: nat"] by simp
    then show ?thesis by (simp add: bit_iff_odd)
  qed
  then have "push_bit 4 hi OR lo = push_bit 4 hi + lo"
    by (intro disjunctive_add [symmetric]) (auto simp: bit_push_bit_iff)
  then have "of_nat (push_bit 4 hi OR lo) = (of_nat (16 * hi + lo) :: byte)"
    by (simp add: push_bit_eq_mult mult.commute)
  then show ?thesis by (simp add: of_nat_or_eq push_bit_of_nat)
qed

lemma parse_hex_byte_exact: "parse_hex_byte a b = Some x \<longleftrightarrow> hex_byte x = [c_toupper a, c_toupper b]"
proof
  assume "parse_hex_byte a b = Some x"
  then obtain hi lo where v: "hex_value a = Some hi" "hex_value b = Some lo"
    and x: "x = push_bit 4 (of_nat hi) OR of_nat lo"
    by (auto simp: parse_hex_byte_def split: option.splits)
  have small: "hi < 16" "lo < 16" using v by (auto dest: hex_value_less)
  then have "x = of_nat (16 * hi + lo)" using x by (simp only: nibbles_join)
  then have "unat x = 16 * hi + lo" using small by (simp only: unat_of_nat) simp
  then have "unat x div 16 = hi" "unat x mod 16 = lo" using small by auto
  moreover have "hex_digit hi = c_toupper a" "hex_digit lo = c_toupper b"
    using v by (auto intro!: hex_digit_value)
  ultimately show "hex_byte x = [c_toupper a, c_toupper b]" by (simp add: hex_byte_def)
next
  assume h: "hex_byte x = [c_toupper a, c_toupper b]"
  have "hex_value a = hex_value (hex_digit (unat x div 16))" "hex_value b = hex_value (hex_digit (unat x mod 16))"
    using h by (simp_all add: hex_byte_def)
  then have "hex_value a = Some (unat x div 16)" "hex_value b = Some (unat x mod 16)"
    using unat_byte_less [of x] by (simp_all add: less_mult_imp_div_less)
  moreover have "push_bit 4 (of_nat (unat x div 16)) OR of_nat (unat x mod 16) = x"
  proof -
    have "16 * (unat x div 16) + unat x mod 16 = unat x" by simp
    then show ?thesis by (simp only: nibbles_join mod_less_divisor zero_less_numeral) simp
  qed
  ultimately show "parse_hex_byte a b = Some x" by (simp only: parse_hex_byte_def option.case prod.case)
qed

lemma hex_byte_prefix: "A # B # R = hex_byte x @ C \<longleftrightarrow> hex_byte x = [A, B] \<and> R = C"
  by (auto simp: hex_byte_def)

lemma parse_hex_loop_exact:
  "even (length s) \<Longrightarrow> parse_hex_loop s = Some bs \<longleftrightarrow> map c_toupper s = concat (map hex_byte bs)"
proof (induction s arbitrary: bs rule: parse_hex_loop.induct)
  case (1 a b rest)
  then show ?case
    by (cases bs) (auto simp: hex_byte_prefix parse_hex_byte_exact [symmetric] split: option.split)
next
  case "2_1"
  then show ?case by (cases bs) (auto simp: hex_byte_def)
qed auto

lemma length_hex_bytes: "length (concat (map hex_byte bs)) = 2 * length bs"
  by (induction bs) (auto simp: hex_byte_def)

text \<open>
  \<open>parse_hex_string\<close> accepts exactly the texts that print some bytes in hexadecimal, in either
  case of the letters, and returns these bytes: the key bytes and the text of the key determine each
  other, and a text of odd length or with any other character is refused.
\<close>

theorem hex_key_round_trip:
  "parse_hex_string s = Some bs \<longleftrightarrow> map c_toupper s = concat (map hex_byte bs)"
proof (cases "even (length s)")
  case True
  then show ?thesis by (simp add: parse_hex_string_def parse_hex_loop_exact)
next
  case False
  then have "map c_toupper s \<noteq> concat (map hex_byte bs)"
    using length_hex_bytes [of bs] by (metis dvd_triv_left length_map)
  with False show ?thesis by (simp add: parse_hex_string_def odd_iff_mod_2_eq_one)
qed

subsection \<open>The calls return\<close>

text \<open>
  What FreeRTOS documents of the tick counter: it is the 32-bit reading of a running count, and a
  delay of 200 ms advances the count by at least that many ticks (and the task is scheduled again
  before the counter can wrap past a comparison).
\<close>

definition ticking :: "http_env \<Rightarrow> bool" where
  "ticking env \<longleftrightarrow>
    (\<exists>T :: http_log \<Rightarrow> nat. \<forall>log.
       he_tick env log = of_nat (T log) \<and>
       T log + unat (ms_to_ticks (he_hz env) 200) \<le> T (log @ [HDelay 200]) \<and>
       T (log @ [HDelay 200]) \<le> T log + 2 ^ 31)"

lemma ms_to_ticks_10000: "unat hz \<le> 400000 \<Longrightarrow> unat (ms_to_ticks hz 10000) = 10 * unat hz"
proof -
  assume "unat hz \<le> 400000"
  then have "unat (10000 * hz) = 10000 * unat hz" by (subst unat_mult_lem [THEN iffD1]) auto
  then show ?thesis by (simp add: ms_to_ticks_def unat_div)
qed

lemma ms_to_ticks_200: "unat hz \<le> 400000 \<Longrightarrow> unat (ms_to_ticks hz 200) = unat hz div 5"
proof -
  assume "unat hz \<le> 400000"
  then have "unat (200 * hz) = 200 * unat hz" by (subst unat_mult_lem [THEN iffD1]) auto
  then show ?thesis by (simp add: ms_to_ticks_def unat_div)
qed

lemma elapsed_ticks:
  "T0 \<le> t \<Longrightarrow> t - T0 < 2 ^ 32 \<Longrightarrow> unat (of_nat t - of_nat T0 :: u32) = t - T0"
  by (simp flip: of_nat_diff add: unat_of_nat)

lemma clock_wait_bounded:
  assumes T: "\<forall>log. he_tick env log = of_nat (T log) \<and>
      T log + unat (ms_to_ticks (he_hz env) 200) \<le> T (log @ [HDelay 200]) \<and>
      T (log @ [HDelay 200]) \<le> T log + 2 ^ 31"
    and hz: "unat (he_hz env) \<le> 400000"
    and "T0 \<le> T log" "T log - T0 < 2 ^ 32"
    and "10 * unat (he_hz env) < (T log - T0) + n * (unat (he_hz env) div 5)"
  shows "\<exists>k v. k \<le> n \<and> clock_wait env (of_nat T0) log = Some (v, log @ replicate k (HDelay 200))"
  using assms(3-)
proof (induction n arbitrary: log)
  case (0 log)
  then have "unat (he_tick env log - of_nat T0) = T log - T0"
    using T by (simp add: elapsed_ticks)
  then have "he_tick env log - of_nat T0 > ms_to_ticks (he_hz env) 10000"
    using 0 hz by (simp add: word_less_nat_alt ms_to_ticks_10000)
  then show ?case by (subst clock_wait.simps) auto
next
  case (Suc n log)
  let ?late = "he_tick env log - of_nat T0 > ms_to_ticks (he_hz env) 10000"
  show ?case
  proof (cases "he_time env log < MIN_VALID_TIME \<and> \<not> ?late")
    case False
    then show ?thesis by (subst clock_wait.simps) auto
  next
    case True
    have "unat (he_tick env log - of_nat T0) = T log - T0"
      using T Suc.prems by (simp add: elapsed_ticks)
    then have "T log - T0 \<le> 10 * unat (he_hz env)"
      using True hz by (simp add: word_less_nat_alt ms_to_ticks_10000)
    moreover have "T log + unat (he_hz env) div 5 \<le> T (log @ [HDelay 200])"
      "T (log @ [HDelay 200]) \<le> T log + 2 ^ 31"
      using T hz by (simp_all add: ms_to_ticks_200)
    ultimately have "T0 \<le> T (log @ [HDelay 200])" "T (log @ [HDelay 200]) - T0 < 2 ^ 32"
      "10 * unat (he_hz env) < (T (log @ [HDelay 200]) - T0) + n * (unat (he_hz env) div 5)"
      using Suc.prems hz by auto
    from Suc.IH [OF this] obtain k v where "k \<le> n"
      and "clock_wait env (of_nat T0) (log @ [HDelay 200]) = Some (v, (log @ [HDelay 200]) @ replicate k (HDelay 200))"
      by blast
    with True show ?thesis
      by (intro exI [where x = "Suc k"] exI [where x = v]) (subst clock_wait.simps, simp)
  qed
qed

lemma clock_wait_returns:
  assumes "ticking env" "5 \<le> unat (he_hz env)" "unat (he_hz env) \<le> 400000"
  shows "\<exists>k v. k \<le> 91 \<and> clock_wait env (he_tick env log) log = Some (v, log @ replicate k (HDelay 200))"
proof -
  obtain T where T: "\<forall>log. he_tick env log = of_nat (T log) \<and>
      T log + unat (ms_to_ticks (he_hz env) 200) \<le> T (log @ [HDelay 200]) \<and>
      T (log @ [HDelay 200]) \<le> T log + 2 ^ 31"
    using assms(1) unfolding ticking_def by blast
  have "1 \<le> unat (he_hz env) div 5" using assms(2) div_le_mono [OF assms(2), of 5] by simp
  moreover have "unat (he_hz env) = 5 * (unat (he_hz env) div 5) + unat (he_hz env) mod 5" by simp
  moreover have "unat (he_hz env) mod 5 < 5" by simp
  ultimately have "10 * unat (he_hz env) < 91 * (unat (he_hz env) div 5)" by linarith
  then have "\<exists>k v. k \<le> 91 \<and>
      clock_wait env (of_nat (T log)) log = Some (v, log @ replicate k (HDelay 200))"
    by (intro clock_wait_bounded [OF T]) (use assms(3) in auto)
  with T show ?thesis by simp
qed

lemma post_json_returns:
  assumes "ticking env" "5 \<le> unat (he_hz env)" "unat (he_hz env) \<le> 400000"
  shows "post_json env url body bearer log \<noteq> None"
  using clock_wait_returns [OF assms, of log] by (auto simp: post_json_def)

subsection \<open>The requests a call makes\<close>

fun request_of :: "http_call \<Rightarrow> http_request option" where
  "request_of (HPerform r) = Some r"
| "request_of _ = None"

definition requests :: "http_log \<Rightarrow> http_request list" where
  "requests log = List.map_filter request_of log"

fun handle_count :: "http_call \<Rightarrow> int" where
  "handle_count (HInit url) = 1"
| "handle_count HCleanup = -1"
| "handle_count _ = 0"

definition open_handles :: "http_log \<Rightarrow> int" where
  "open_handles log = sum_list (map handle_count log)"

lemma requests_simps [simp]:
  "requests [] = []" "requests (xs @ ys) = requests xs @ requests ys"
  "requests (x # xs) = (case request_of x of Some r \<Rightarrow> r # requests xs | None \<Rightarrow> requests xs)"
  "requests (replicate n (HDelay ms)) = []"
  by (auto simp: requests_def List.map_filter_def split: option.split)

lemma open_handles_simps [simp]:
  "open_handles [] = 0" "open_handles (xs @ ys) = open_handles xs + open_handles ys"
  "open_handles (x # xs) = handle_count x + open_handles xs"
  "open_handles (replicate n (HDelay ms)) = 0"
  by (auto simp: open_handles_def sum_list_replicate)

lemma clock_wait_log:
  assumes waited: "clock_wait env start log = Some r"
  shows "requests (snd r) = requests log \<and> open_handles (snd r) = open_handles log"
proof (rule clock_wait.raw_induct [OF _ waited])
  fix wait :: "http_env \<Rightarrow> u32 \<Rightarrow> http_log \<Rightarrow> (bool \<times> http_log) option"
  fix env start log r
  assume IH: "\<And>env start log r. wait env start log = Some r \<Longrightarrow>
      requests (snd r) = requests log \<and> open_handles (snd r) = open_handles log"
    and "(if he_time env log < MIN_VALID_TIME then
       (if he_tick env log - start > ms_to_ticks (he_hz env) 10000 then Some (False, log)
        else wait env start (log @ [HDelay 200]))
     else Some (True, log)) = Some r"
  then show "requests (snd r) = requests log \<and> open_handles (snd r) = open_handles log"
    by (auto split: if_splits dest!: IH)
qed

lemma perform_log:
  "perform env req log = (r, log') \<Longrightarrow> log' = log @ [HPerform req]"
  by (auto simp: perform_def split: prod.splits)

lemma post_json_log:
  assumes "post_json env url body bearer log = Some (answer, log')"
  shows "open_handles log' = open_handles log \<and>
    (\<exists>n \<le> 2. requests log' = requests log @ replicate n
       \<lparr>hr_url = url, hr_bearer = (if bearer \<noteq> [] then Some bearer else None), hr_body = body\<rparr>)"
proof -
  let ?req = "\<lparr>hr_url = url, hr_bearer = (if bearer \<noteq> [] then Some bearer else None), hr_body = body\<rparr>"
  obtain v log1 where wait: "clock_wait env (he_tick env log) log = Some (v, log1)"
    using assms by (cases "clock_wait env (he_tick env log) log") (auto simp: post_json_def)
  note quiet = clock_wait_log [OF wait, simplified]
  obtain out outcome log2 where p1: "perform env ?req (log1 @ [HInit url]) = ((out, outcome), log2)"
    by (metis surj_pair)
  obtain out' outcome' log2' where p2: "perform env ?req (log2 @ [HClose, HDelay 500]) = ((out', outcome'), log2')"
    by (metis surj_pair)
  note logs = perform_log [OF p1] perform_log [OF p2]
  show ?thesis
  proof (cases "v \<and> he_init env log1 url")
    case False
    with assms wait have "log' = log1" by (auto simp: post_json_def split: if_splits)
    with quiet show ?thesis by (auto intro!: exI [where x = 0])
  next
    case True
    with assms wait p1 p2 have "log' = (case outcome of Inl _ \<Rightarrow> log2' | Inr _ \<Rightarrow> log2) @ [HCleanup]"
      by (auto simp: post_json_def split: sum.splits)
    with quiet logs show ?thesis
      by (cases outcome) (auto simp: numeral_2_eq_2 intro: exI [where x = 1] exI [where x = 2])
  qed
qed

subsection \<open>Sessions of the client\<close>

datatype cloud_op = Login string string | ListDevices bool | FetchKey string

fun cloud_step :: "json_lib \<Rightarrow> http_env \<Rightarrow> cloud_op \<Rightarrow> cloud_client \<times> http_log \<Rightarrow> (cloud_client \<times> http_log) option" where
  "cloud_step jl env (Login email password) (c, log) =
    map_option (\<lambda>(_, c', log'). (c', log')) (login jl env email password c log)"
| "cloud_step jl env (ListDevices force) (c, log) =
    map_option (\<lambda>(_, c', log'). (c', log')) (list_devices jl env force c log)"
| "cloud_step jl env (FetchKey mac) (c, log) =
    map_option (\<lambda>(_, log'). (c, log')) (fetch_device_key jl env mac c log)"

fun cloud_run :: "json_lib \<Rightarrow> http_env \<Rightarrow> cloud_op list \<Rightarrow> cloud_client \<times> http_log \<Rightarrow> (cloud_client \<times> http_log) option" where
  "cloud_run jl env [] s = Some s"
| "cloud_run jl env (op # ops) s = do { s' \<leftarrow> cloud_step jl env op s; cloud_run jl env ops s' }"

definition regional :: "string \<Rightarrow> string \<Rightarrow> string" where
  "regional reg path = ''https://wonderlabs.'' @ reg @ ''.api.switchbot.net'' @ path"

text \<open>The requests an operation is entitled to make, given the client it starts from.\<close>

definition entitled :: "json_lib \<Rightarrow> cloud_op list \<Rightarrow> http_request \<Rightarrow> bool" where
  "entitled jl ops r \<longleftrightarrow>
    (case hr_bearer r of
       None \<Rightarrow> (hr_url r = userinfo_url \<and> hr_body r = ''{}'') \<or>
         hr_url r = login_url \<and> (\<exists>e p. Login e p \<in> set ops \<and> hr_body r = build_login_body jl e p)
     | Some token \<Rightarrow> (hr_url r = userinfo_url \<and> hr_body r = ''{}'') \<or>
         (\<exists>reg. reg \<noteq> [] \<and> (hr_url r = regional reg ''/wonder/device/v3/getdevice'' \<or>
                         hr_url r = regional reg ''/wonder/keys/v1/communicate'')))"

lemma wonderlabs_regional: "\<exists>reg. reg \<noteq> [] \<and> wonderlabs_base c @ path = regional reg path"
  by (auto simp: wonderlabs_base_def regional_def intro: exI [where x = "''us''"])

lemma entitled_mono: "entitled jl ops r \<Longrightarrow> set ops \<subseteq> set ops' \<Longrightarrow> entitled jl ops' r"
  unfolding entitled_def by (cases "hr_bearer r") auto

definition adds_requests :: "json_lib \<Rightarrow> cloud_op list \<Rightarrow> nat \<Rightarrow> http_log \<Rightarrow> http_log \<Rightarrow> bool" where
  "adds_requests jl ops n log log' \<longleftrightarrow>
    open_handles log' = open_handles log \<and>
    (\<exists>rs. length rs \<le> n \<and> requests log' = requests log @ rs \<and> (\<forall>r \<in> set rs. entitled jl ops r))"

lemma adds_requests_refl [simp]: "adds_requests jl ops n log log"
  by (auto simp: adds_requests_def intro: exI [where x = "[]"])

lemma adds_requests_trans:
  assumes "adds_requests jl ops m a b" "adds_requests jl ops' n b c"
    and "set ops \<subseteq> set os" "set ops' \<subseteq> set os"
  shows "adds_requests jl os (m + n) a c"
proof -
  from assms(1) obtain xs where "open_handles b = open_handles a" "length xs \<le> m"
    "requests b = requests a @ xs" "\<forall>r \<in> set xs. entitled jl ops r" by (auto simp: adds_requests_def)
  moreover from assms(2) obtain ys where "open_handles c = open_handles b" "length ys \<le> n"
    "requests c = requests b @ ys" "\<forall>r \<in> set ys. entitled jl ops' r" by (auto simp: adds_requests_def)
  ultimately show ?thesis
    unfolding adds_requests_def using assms(3,4)
    by (intro conjI exI [where x = "xs @ ys"]) (auto dest: entitled_mono)
qed

lemma post_adds_requests:
  assumes "post_json env url body bearer log = Some (answer, log')"
    and "entitled jl ops \<lparr>hr_url = url, hr_bearer = (if bearer \<noteq> [] then Some bearer else None), hr_body = body\<rparr>"
  shows "adds_requests jl ops 2 log log'"
  using post_json_log [OF assms(1)] assms(2) by (auto simp: adds_requests_def)

lemma login_cases:
  assumes "login jl env email password c log = Some (res, c', log')"
  obtains (failed) err where "res = Inl err" "c' = cloud_clear c"
    | (logged_in) tok reg where "res = Inr ()" "c' = (cloud_clear c)\<lparr>auth_token := tok, region := reg\<rparr>"
proof -
  from assms obtain answer log1 where
    "post_json env login_url (build_login_body jl email password) [] log = Some (answer, log1)"
    by (auto simp: login_def bind_eq_Some_conv)
  with assms that show ?thesis
    by (cases "login_token jl answer") (auto simp: login_def bind_eq_Some_conv)
qed

lemma login_requests:
  assumes "login jl env email password c log = Some (res, c', log')"
  shows "adds_requests jl [Login email password] 4 log log'"
proof -
  from assms obtain answer log1 where p: "post_json env login_url (build_login_body jl email password) [] log = Some (answer, log1)"
    by (auto simp: login_def bind_eq_Some_conv)
  have first: "adds_requests jl [Login email password] 2 log log1"
    by (rule post_adds_requests [OF p]) (auto simp: entitled_def)
  show ?thesis
  proof (cases "login_token jl answer")
    case (Inl err)
    with assms p have "log' = log1" by (simp add: login_def)
    with first show ?thesis by (auto simp: adds_requests_def)
  next
    case (Inr tok)
    with assms p obtain info where "post_json env userinfo_url ''{}'' tok log1 = Some (info, log')"
      by (auto simp: login_def bind_eq_Some_conv)
    then have "adds_requests jl [Login email password] 2 log1 log'"
      by (rule post_adds_requests) (auto simp: entitled_def)
    with first show ?thesis by (auto dest: adds_requests_trans [where os = "[Login email password]"])
  qed
qed

lemma regional_requests:
  assumes "post_json env (wonderlabs_base c @ path) body (auth_token c) log = Some (answer, log')"
    and "auth_token c \<noteq> []" "path = ''/wonder/device/v3/getdevice'' \<or> path = ''/wonder/keys/v1/communicate''"
  shows "adds_requests jl ops 2 log log'"
proof (rule post_adds_requests [OF assms(1)])
  obtain reg where "reg \<noteq> []" "wonderlabs_base c @ path = regional reg path"
    using wonderlabs_regional by blast
  with assms(2,3) show "entitled jl ops \<lparr>hr_url = wonderlabs_base c @ path,
      hr_bearer = (if auth_token c \<noteq> [] then Some (auth_token c) else None), hr_body = body\<rparr>"
    by (auto simp: entitled_def)
qed

lemma adds_requests_weaken:
  "adds_requests jl ops m a b \<Longrightarrow> m \<le> n \<Longrightarrow> adds_requests jl ops n a b"
  unfolding adds_requests_def by (meson le_trans)

lemma step_requests:
  assumes "cloud_step jl env op (c, log) = Some (c', log')"
  shows "adds_requests jl [op] 4 log log'"
proof (cases op)
  case (Login email password)
  with assms show ?thesis by (auto dest: login_requests)
next
  case (ListDevices force)
  show ?thesis
  proof (cases "is_logged_in c \<and> (force \<or> devices_cache c = [])")
    case False
    with assms ListDevices have "log' = log" by (auto simp: list_devices_def split: if_splits)
    then show ?thesis by simp
  next
    case True
    with assms ListDevices obtain answer log1 res where
      "post_json env (getdevice_url c) GETDEVICE_BODY (auth_token c) log = Some (answer, log1)"
      and "(case device_list jl answer of Inl err \<Rightarrow> (Inl err, c, log1)
        | Inr picked \<Rightarrow> (Inr picked, c\<lparr>devices_cache := picked\<rparr>, log1)) = (res, c', log')"
      by (auto simp: list_devices_def bind_eq_Some_conv)
    then have "post_json env (getdevice_url c) GETDEVICE_BODY (auth_token c) log = Some (answer, log')"
      by (cases "device_list jl answer") auto
    with True show ?thesis
      by (auto simp: getdevice_url_def is_logged_in_def intro: adds_requests_weaken regional_requests)
  qed
next
  case (FetchKey mac)
  show ?thesis
  proof (cases "is_logged_in c")
    case False
    with assms FetchKey show ?thesis by (auto simp: fetch_device_key_def)
  next
    case True
    with assms FetchKey obtain answer where
      "post_json env (communicate_url c) (communicate_body mac) (auth_token c) log = Some (answer, log')"
      by (auto simp: fetch_device_key_def bind_eq_Some_conv)
    with True show ?thesis
      by (auto simp: communicate_url_def is_logged_in_def intro: adds_requests_weaken regional_requests)
  qed
qed

lemma run_requests:
  "cloud_run jl env ops (c, log) = Some (c', log') \<Longrightarrow> adds_requests jl ops (4 * length ops) log log'"
proof (induction ops arbitrary: c log)
  case (Cons op ops)
  then obtain c1 log1 where "cloud_step jl env op (c, log) = Some (c1, log1)"
    and "cloud_run jl env ops (c1, log1) = Some (c', log')"
    by (auto simp: bind_eq_Some_conv)
  with Cons.IH step_requests show ?case
    using adds_requests_trans [where os = "op # ops" and ops = "[op]" and ops' = ops] by fastforce
qed auto


text \<open>
  A login replaces the whole state of the client. Whatever the client held, after a login the
  cached device list of an earlier account is gone; if the login failed there is no token either, and
  neither a device list nor a key can be fetched, nor is any request made, until a login succeeds.
\<close>

theorem login_forgets_previous_account:
  assumes "login jl env email password c log = Some (res, c', log')"
  shows "devices_cache c' = [] \<and>
    (\<forall>err. res = Inl err \<longrightarrow> region c' = [] \<and> \<not> is_logged_in c' \<and>
      list_devices jl env force c' log' = Some (Inl ''Not logged in'', c', log') \<and>
      fetch_device_key jl env mac c' log' = Some (Inl ''Not logged in'', log'))"
  using assms
  by (cases rule: login_cases)
    (auto simp: cloud_clear_def is_logged_in_def list_devices_def fetch_device_key_def)

text \<open>
  No call hangs. When the tick counter runs as FreeRTOS documents, at any tick rate from 5 Hz to
  400 kHz, a login, a device list and a key look-up all return, even if the wall clock is never set:
  the wait for it gives up after at most 91 delays.
\<close>

lemma cloud_calls_return:
  assumes "ticking env" "5 \<le> unat (he_hz env)" "unat (he_hz env) \<le> 400000"
  shows "login jl env email password c log \<noteq> None \<and> list_devices jl env force c log \<noteq> None \<and>
    fetch_device_key jl env mac c log \<noteq> None \<and>
    (\<exists>k v. k \<le> 91 \<and> clock_wait env (he_tick env log) log = Some (v, log @ replicate k (HDelay 200)))"
proof (intro conjI)
  note returns = post_json_returns [OF assms]
  obtain answer log1 where first:
    "post_json env login_url (build_login_body jl email password) [] log = Some (answer, log1)"
    using returns by (metis not_None_eq surj_pair)
  obtain info log2 where "post_json env userinfo_url ''{}'' (projr (login_token jl answer)) log1 = Some (info, log2)"
    using returns by (metis not_None_eq surj_pair)
  with first show "login jl env email password c log \<noteq> None"
    by (cases "login_token jl answer") (auto simp: login_def)
  show "list_devices jl env force c log \<noteq> None"
    using returns [of "getdevice_url c" GETDEVICE_BODY "auth_token c" log]
    by (auto simp: list_devices_def split: prod.splits sum.split)
  show "fetch_device_key jl env mac c log \<noteq> None"
    using returns [of "communicate_url c" "communicate_body mac" "auth_token c" log]
    by (auto simp: fetch_device_key_def split: prod.splits)
qed (rule clock_wait_returns [OF assms])

subsection \<open>Concrete sessions\<close>

text \<open>
  A server that echoes the address asked for, and a JSON reader under which every text carries one
  token, one region, one device, one key, and what a browser sends. The clock of \<open>unset_clock\<close> is never set.
\<close>

definition test_json :: json_lib where
  "test_json =
    \<lparr>jl_parse = (\<lambda>text. Some (JObject [(''statusCode'', JNumber 100), (''body'', JObject
        [(''access_token'', JString ''token''), (''botRegion'', JString ''eu''),
         (''Items'', JArray [JObject [(''device_mac'', JString ''b0e9fe612e75'')], JNull]),
         (''communicationKey'', JObject
            [(''keyId'', JString ''C6''), (''key'', JString ''000102030405060708090a0b0c0d0e0F'')])]),
        (''mac'', JString ''B0E9FE612E75''), (''family'', JString ''vision''),
        (''email'', JString ''a''), (''password'', JString ''b'')])),
     jl_print = (\<lambda>_. None)\<rparr>"

definition elapsed_delays :: "http_log \<Rightarrow> nat" where
  "elapsed_delays log = sum_list (map (\<lambda>c. case c of HDelay ms \<Rightarrow> ms | _ \<Rightarrow> 0) log)"

definition online :: http_env where
  "online = \<lparr>he_time = (\<lambda>_. MIN_VALID_TIME), he_tick = (\<lambda>log. of_nat (elapsed_delays log)), he_hz = 1000,
     he_init = (\<lambda>_ _. True), he_perform = (\<lambda>_ r. ([OnData (hr_url r), OnOther], Inr 200))\<rparr>"

definition unset_clock :: http_env where
  "unset_clock = online\<lparr>he_time := (\<lambda>_. 0)\<rparr>"

lemma ticking_delays: "ticking unset_clock"
  unfolding ticking_def
  by (rule exI [where x = elapsed_delays])
    (simp add: unset_clock_def online_def elapsed_delays_def ms_to_ticks_def)

lemma clock_wait_online [simp]: "clock_wait online start log = Some (True, log)"
  by (subst clock_wait.simps) (simp add: online_def)

lemma post_online:
  "post_json online url body bearer log = Some (Inr url, log @ [HInit url, HPerform
     \<lparr>hr_url = url, hr_bearer = (if bearer \<noteq> [] then Some bearer else None), hr_body = body\<rparr>, HCleanup])"
  unfolding post_json_def perform_def by simp (simp add: online_def)

lemma online_login:
  "login test_json online email password c log =
    Some (Inr (), (cloud_clear c)\<lparr>auth_token := ''token'', region := ''eu''\<rparr>,
      log @ [HInit login_url, HPerform \<lparr>hr_url = login_url, hr_bearer = None, hr_body = ''{}''\<rparr>, HCleanup,
        HInit userinfo_url, HPerform \<lparr>hr_url = userinfo_url, hr_bearer = Some ''token'', hr_body = ''{}''\<rparr>, HCleanup])"
  by (simp add: login_def post_online login_token_def userinfo_region_def make_envelope_def env_is_json_def
      env_ok_def env_body_item_def env_body_def test_json_def c_str_def build_login_body_def)

definition online_key :: "byte list" where
  "online_key = [0, 1, 2, 3, 4, 5, 6, 7, 8, 9, 10, 11, 12, 13, 14, 15]"

lemma online_key_text: "parse_hex_string ''000102030405060708090a0b0c0d0e0F'' = Some online_key"
  by code_simp

lemma online_devices:
  "is_logged_in c \<Longrightarrow> devices_cache c = [] \<Longrightarrow> list_devices test_json online force c log =
    Some (Inr [\<lparr>ad_mac = ''B0E9FE612E75'', ad_mac_pretty = ''B0:E9:FE:61:2E:75'',
        ad_name = ''B0:E9:FE:61:2E:75'', ad_device_type = []\<rparr>],
      c\<lparr>devices_cache := [\<lparr>ad_mac = ''B0E9FE612E75'', ad_mac_pretty = ''B0:E9:FE:61:2E:75'',
        ad_name = ''B0:E9:FE:61:2E:75'', ad_device_type = []\<rparr>]\<rparr>,
      log @ [HInit (getdevice_url c), HPerform \<lparr>hr_url = getdevice_url c, hr_bearer = Some (auth_token c),
        hr_body = GETDEVICE_BODY\<rparr>, HCleanup])"
proof -
  have "device_list test_json (Inr x) = Inr [\<lparr>ad_mac = ''B0E9FE612E75'', ad_mac_pretty = ''B0:E9:FE:61:2E:75'',
      ad_name = ''B0:E9:FE:61:2E:75'', ad_device_type = []\<rparr>]" for x
    unfolding device_list_def make_envelope_def test_json_def by code_simp
  then show "is_logged_in c \<Longrightarrow> devices_cache c = [] \<Longrightarrow> ?thesis"
    by (simp add: list_devices_def post_online is_logged_in_def)
qed

lemma cached_devices:
  "is_logged_in c \<Longrightarrow> devices_cache c \<noteq> [] \<Longrightarrow>
    list_devices jl env False c log = Some (Inr (devices_cache c), c, log)"
  by (simp add: list_devices_def)

lemma online_fetch:
  "is_logged_in c \<Longrightarrow> fetch_device_key test_json online mac c log =
    Some (Inr (''C6'', online_key), log @ [HInit (communicate_url c), HPerform \<lparr>hr_url = communicate_url c,
      hr_bearer = Some (auth_token c), hr_body = communicate_body mac\<rparr>, HCleanup])"
  using online_key_text
  by (simp add: fetch_device_key_def post_online is_logged_in_def device_key_def make_envelope_def env_is_json_def
      env_ok_def env_body_item_def env_body_def test_json_def c_str_def online_key_def)

lemma online_run:
  "\<exists>c log. cloud_run test_json online [Login ''a'' ''b'', ListDevices False, ListDevices False, FetchKey ''B0E9FE612E75'']
      (logged_out, []) = Some (c, log) \<and> length (requests log) = 4 \<and> region c = ''eu''"
  by (simp add: online_login online_devices online_fetch cached_devices cloud_clear_def is_logged_in_def)


theorem login_forgets_previous_account_witness:
  "\<exists>c log. login test_json online ''a'' ''b'' (logged_out\<lparr>auth_token := ''old''\<rparr>) [] = Some (Inr (), c, log) \<and>
    devices_cache c = []"
proof -
  note run = online_login [of "''a''" "''b''" "logged_out\<lparr>auth_token := ''old''\<rparr>" "[]"]
  with login_forgets_previous_account [OF run] show ?thesis by blast
qed

lemma cloud_calls_return_instance:
  "ticking unset_clock \<and> login test_json unset_clock ''a'' ''b'' logged_out [] \<noteq> None"
  using cloud_calls_return [where env = unset_clock] ticking_delays
  by (simp add: unset_clock_def online_def)

text \<open>A server that returns an empty token: the login reports success and the client is not logged in.\<close>

lemma empty_token_login:
  "\<exists>c log. login (test_json\<lparr>jl_parse := (\<lambda>_. Some (JObject [(''statusCode'', JNumber 100),
      (''body'', JObject [(''access_token'', JString [])])]))\<rparr>) online ''a'' ''b'' logged_out [] =
    Some (Inr (), c, log) \<and> \<not> is_logged_in c"
  by (simp add: login_def post_online login_token_def userinfo_region_def make_envelope_def env_is_json_def
      env_ok_def env_body_item_def env_body_def c_str_def is_logged_in_def)

text \<open>A 2xx answer that is not JSON at all is a success of \<open>post_json_\<close>.\<close>

lemma unparsed_answer_is_success:
  "\<exists>log. post_json online ''x'' ''{}'' [] [] = Some (Inr ''x'', log)"
  by (simp add: post_online)

end
