(* ===== verification/Wizard_Http.thy ===== *)
theory Wizard_Http
  imports Cloud_Client Ble_Client
begin

text \<open>
  The helpers of the setup wizard's HTTP server (\<open>pairing_ui.cpp\<close>): reading a request body, reading
  and writing JSON, replies, key ids and account devices, and the scan for nearby devices. The server
  (esp_http_server) is not part of the firmware: a request is its content length and what
  \<open>httpd_req_recv\<close> returns, a reply is what \<open>httpd_resp_send\<close> is given.
\<close>

definition UI_SLOT_ORIGINAL :: byte where "UI_SLOT_ORIGINAL = 0x88"
definition UI_SLOT_VISION :: byte where "UI_SLOT_VISION = 0xC6"

subsection \<open>Request bodies\<close>

text \<open>
  \<open>rq_recv received wanted\<close> is the data of one \<open>httpd_req_recv\<close>, \<open>None\<close> for a result that is zero or
  negative. It never returns more than \<open>wanted\<close> bytes.
\<close>

record http_input =
  rq_content_len :: nat
  rq_recv :: "nat \<Rightarrow> nat \<Rightarrow> string option"

definition MAX_BODY_LEN :: nat where "MAX_BODY_LEN = 2048"

function recv_loop :: "http_input \<Rightarrow> string \<Rightarrow> string" where
  "recv_loop rq buf =
    (if length buf < rq_content_len rq
     then (case rq_recv rq (length buf) (rq_content_len rq - length buf) of
             None \<Rightarrow> []
           | Some chunk \<Rightarrow>
               let got = take (rq_content_len rq - length buf) chunk
               in if got = [] then [] else recv_loop rq (buf @ got))
     else buf)"
  by pat_completeness auto

termination
proof (relation "measure (\<lambda>(rq, buf). rq_content_len rq - length buf)")
  fix rq :: http_input and buf chunk got :: string
  assume "length buf < rq_content_len rq" and got: "got = take (rq_content_len rq - length buf) chunk" "got \<noteq> []"
  moreover from got have "0 < length got" by blast
  ultimately show "((rq, buf @ got), rq, buf) \<in> measure (\<lambda>(rq, buf). rq_content_len rq - length buf)"
    by (simp only: in_measure prod.case length_append)
qed simp

declare recv_loop.simps [simp del]

definition read_body :: "http_input \<Rightarrow> string" where
  "read_body rq =
    (if rq_content_len rq = 0 \<or> rq_content_len rq > MAX_BODY_LEN then [] else recv_loop rq [])"

lemma recv_loop_length:
  "length buf \<le> rq_content_len rq \<Longrightarrow> recv_loop rq buf \<noteq> [] \<Longrightarrow> length (recv_loop rq buf) = rq_content_len rq"
proof (induction rq buf rule: recv_loop.induct)
  case (1 rq buf)
  show ?case
  proof (cases "length buf < rq_content_len rq")
    case False
    with 1 show ?thesis by (simp add: recv_loop.simps [of rq buf])
  next
    case True
    show ?thesis
    proof (cases "rq_recv rq (length buf) (rq_content_len rq - length buf)")
      case None
      with True 1 show ?thesis by (simp add: recv_loop.simps [of rq buf])
    next
      case (Some chunk)
      let ?got = "take (rq_content_len rq - length buf) chunk"
      show ?thesis
      proof (cases "?got = []")
        case True
        with \<open>length buf < _\<close> Some 1 show ?thesis by (simp add: recv_loop.simps [of rq buf])
      next
        case False
        with \<open>length buf < _\<close> Some have "recv_loop rq buf = recv_loop rq (buf @ ?got)"
          by (simp add: recv_loop.simps [of rq buf])
        moreover have "length (buf @ ?got) \<le> rq_content_len rq" using True by simp
        ultimately show ?thesis
          using 1(1) [OF True Some refl False] 1(3) by metis
      qed
    qed
  qed
qed

text \<open>
  Data that arrives in pieces: as long as every read returns something, the body is what was sent,
  however it is split.
\<close>

definition splits_into :: "http_input \<Rightarrow> string \<Rightarrow> bool" where
  "splits_into rq body \<longleftrightarrow> rq_content_len rq = length body \<and>
    (\<forall>received < length body. \<exists>n > 0. rq_recv rq received (length body - received) =
      Some (take n (drop received body)))"

lemma recv_loop_complete:
  assumes "splits_into rq body" "received \<le> length body"
  shows "recv_loop rq (take received body) = body"
  using assms(2)
proof (induction "length body - received" arbitrary: received rule: less_induct)
  case less
  have len: "rq_content_len rq = length body" using assms(1) by (simp add: splits_into_def)
  show ?case
  proof (cases "received < length body")
    case False
    with less.prems len show ?thesis by (simp add: recv_loop.simps)
  next
    case True
    then obtain n where n: "n > 0"
      "rq_recv rq received (length body - received) = Some (take n (drop received body))"
      using assms(1) by (auto simp: splits_into_def)
    let ?n = "min n (length body - received)"
    have "take (received + ?n) body = take received body @ take ?n (drop received body)"
      by (simp add: take_add)
    moreover have "recv_loop rq (take (received + ?n) body) = body"
      using less.hyps [of "received + ?n"] True n(1) by simp
    moreover have "take ?n (drop received body) \<noteq> []" using True n(1) by simp
    then have "recv_loop rq (take received body) =
        recv_loop rq (take received body @ take ?n (drop received body))"
      using True n len by (subst recv_loop.simps) (auto simp: Let_def min_def)
    ultimately show ?thesis by simp
  qed
qed

text \<open>
  C21. A request body is read completely or not at all, in at most 2048 bytes, and however the network
  splits it: the text returned is empty or has exactly the announced length, an announced length of
  more than 2048 is refused, and a body that arrives in any split is the body that was sent.
\<close>

theorem body_read_completely:
  "length (read_body rq) \<le> MAX_BODY_LEN \<and>
   (read_body rq = [] \<or> length (read_body rq) = rq_content_len rq) \<and>
   (splits_into rq body \<and> length body \<le> MAX_BODY_LEN \<longrightarrow> read_body rq = body)"
  using recv_loop_length [of "[]" rq] recv_loop_complete [of rq body 0]
  by (cases "recv_loop rq [] = []") (auto simp: read_body_def splits_into_def)

theorem body_read_completely_witness:
  "read_body \<lparr>rq_content_len = 3, rq_recv = (\<lambda>received _. Some (take 1 (drop received ''{ }'')))\<rparr> = ''{ }''"
  using body_read_completely [of "\<lparr>rq_content_len = 3, rq_recv = (\<lambda>received _. Some (take 1 (drop received ''{ }'')))\<rparr>" "''{ }''"]
  by (auto simp: splits_into_def MAX_BODY_LEN_def)

subsection \<open>JSON and replies\<close>

definition json_take :: "json_lib \<Rightarrow> json \<Rightarrow> string \<Rightarrow> string" where
  "json_take jl node fallback = (case jl_print jl node of Some s \<Rightarrow> s | None \<Rightarrow> fallback)"

definition extract_json_str :: "json_lib \<Rightarrow> string \<Rightarrow> string \<Rightarrow> string" where
  "extract_json_str jl body key =
    (case jl_parse jl body of
       None \<Rightarrow> []
     | Some root \<Rightarrow> (case json_string (json_item root key) of Some s \<Rightarrow> s | None \<Rightarrow> []))"

text \<open>A string member is added from a C string.\<close>

abbreviation json_text :: "string \<Rightarrow> json" where "json_text s \<equiv> JString (c_str s)"

record http_reply =
  rp_status :: string
  rp_type :: string
  rp_gzip :: bool
  rp_body :: string

definition reply_json :: "string \<Rightarrow> string \<Rightarrow> http_reply" where
  "reply_json text code =
    \<lparr>rp_status = code, rp_type = ''application/json'', rp_gzip = False, rp_body = c_str text\<rparr>"

definition reply_ok :: "string \<Rightarrow> http_reply" where
  "reply_ok text = reply_json text ''200 OK''"

definition reply_error :: "json_lib \<Rightarrow> string \<Rightarrow> string \<Rightarrow> http_reply" where
  "reply_error jl code message =
    reply_json (json_take jl (JObject [(''error'', json_text message)]) ''{}'') code"

definition job_started_json :: "json_lib \<Rightarrow> string \<Rightarrow> byte \<Rightarrow> (byte \<Rightarrow> string) \<Rightarrow> string" where
  "job_started_json jl job_id step_count label_fn =
    json_take jl (JObject
      [(''job_id'', json_text job_id),
       (''labels'', JArray (map (\<lambda>i. json_text (label_fn (of_nat i))) [0..<unat step_count]))]) ''{}''"

definition job_status_json :: "json_lib \<Rightarrow> 'a job_status_scheme \<Rightarrow> string" where
  "job_status_json jl st =
    (let is_failed = (st_state st = FAILED);
         is_done = (is_failed \<or> st_state st = SUCCESS)
     in json_take jl (JObject
          [(''step'', JNumber (uint (st_step st))), (''total'', JNumber (uint (st_total st))),
           (''message'', json_text (st_message st)), (''done'', JBool is_done),
           (''error'', if is_failed then json_text (st_error st) else JNull)]) ''{}'')"

subsection \<open>Keys and devices of the account\<close>

text \<open>
  \<open>strtol(.., 16)\<close> with its end pointer: the digits it converts and the text after them; the value
  is that of \<open>strtol_hex\<close>.
\<close>

definition strtol_digits :: "string \<Rightarrow> string" where
  "strtol_digits s =
    (let s1 = dropWhile c_isspace s;
         s2 = (if s1 \<noteq> [] \<and> (hd s1 = CHR ''-'' \<or> hd s1 = CHR ''+'') then tl s1 else s1)
     in if has_hex_prefix s2 then drop 2 s2 else s2)"

definition parse_key_id_hex :: "string \<Rightarrow> byte option" where
  "parse_key_id_hex hex =
    (if hex = [] then None
     else
       let s = c_str hex;
           converted = takeWhile (\<lambda>c. hex_value c \<noteq> None) (strtol_digits s);
           rest = dropWhile (\<lambda>c. hex_value c \<noteq> None) (strtol_digits s);
           v = strtol_hex s
       in if converted = [] \<or> rest \<noteq> [] \<or> v < 0 \<or> v > 0xFF then None else Some (of_int v))"

definition shared_slot_for_family :: "keypad_family \<Rightarrow> byte" where
  "shared_slot_for_family family = (if family = VISION then UI_SLOT_VISION else UI_SLOT_ORIGINAL)"

definition find_account_device :: "account_device list \<Rightarrow> string \<Rightarrow> account_device option" where
  "find_account_device devices mac = find (\<lambda>d. ad_mac_pretty d = mac \<or> ad_mac d = mac) devices"

definition fetch_comm_key_16 ::
  "json_lib \<Rightarrow> http_env \<Rightarrow> cloud_client \<Rightarrow> account_device \<Rightarrow> string \<Rightarrow> http_log \<Rightarrow>
    ((string + (byte \<times> byte list)) \<times> http_log) option" where
  "fetch_comm_key_16 jl env cloud device device_label log =
    do {
      (res, log1) \<leftarrow> fetch_device_key jl env (ad_mac device) cloud log;
      Some (case res of
          Inl err \<Rightarrow> Inl err
        | Inr (key_id_hex, key_bytes) \<Rightarrow>
            if length key_bytes \<noteq> 16
            then Inl (''SwitchBot returned a malformed '' @ device_label @ '' key.'')
            else (case parse_key_id_hex key_id_hex of
                    None \<Rightarrow> Inl (''SwitchBot returned a malformed '' @ device_label @ '' key id.'')
                  | Some key_id \<Rightarrow> Inr (key_id, key_bytes)), log1)
    }"

subsection \<open>Devices nearby\<close>

record nearby_device =
  nd_rssi :: int
  nd_svc_data :: "byte list"

text \<open>What \<open>scan_nearby\<close> reads of one scan result; the map is keyed by upper-case address.\<close>

record nearby_advert =
  na_address :: string
  na_rssi :: int
  na_adv :: advertisement

definition note_advert :: "nearby_advert \<Rightarrow> (string \<Rightarrow> nearby_device option) \<Rightarrow> string \<Rightarrow> nearby_device option" where
  "note_advert a seen =
    (let mac = upper_mac (na_address a);
         dev = (case seen mac of Some d \<Rightarrow> d | None \<Rightarrow> \<lparr>nd_rssi = -128, nd_svc_data = []\<rparr>);
         dev1 = (if na_rssi a > nd_rssi dev then dev\<lparr>nd_rssi := na_rssi a\<rparr> else dev);
         sd = switchbot_service_data (na_adv a)
     in seen(mac \<mapsto> (if sd \<noteq> [] then dev1\<lparr>nd_svc_data := sd\<rparr> else dev1)))"

definition scan_nearby :: "nearby_advert list \<Rightarrow> string \<Rightarrow> nearby_device option" where
  "scan_nearby adverts = fold note_advert adverts Map.empty"

subsection \<open>Facts\<close>

text \<open>What the cloud prints as a hexadecimal byte is read back as that byte.\<close>

lemma two_hex_digits:
  assumes v: "hex_value c = Some v" "hex_value d = Some w"
  shows "strtol_hex [c, d] = 16 * int v + int w" "strtol_digits [c, d] = [c, d]" "c_str [c, d] = [c, d]"
  using v hex_value_plain [OF v(1)] hex_value_plain [OF v(2)]
  by (simp_all add: strtol_hex_def strtol_digits_def has_hex_prefix_def c_str_def Let_def)

lemma key_id_round_trip: "parse_key_id_hex (hex_byte b) = Some b"
proof -
  let ?c = "hex_digit (unat b div 16)" and ?d = "hex_digit (unat b mod 16)"
  have small: "unat b div 16 < 16" "unat b mod 16 < 16"
    using unat_byte_less [of b] by (simp_all add: less_mult_imp_div_less)
  have v: "hex_value ?c = Some (unat b div 16)" "hex_value ?d = Some (unat b mod 16)"
    using small by (simp_all only: hex_value_digit)
  have "int (16 * (unat b div 16) + unat b mod 16) = uint b" by (simp only: mult_div_mod_eq uint_nat)
  then have "strtol_hex [?c, ?d] = uint b"
    unfolding two_hex_digits(1) [OF v] by (simp only: of_nat_add of_nat_mult of_nat_numeral)
  moreover have "uint b \<le> 255" using unat_byte_less [of b] unfolding uint_nat by linarith
  ultimately show ?thesis
    unfolding hex_byte_def parse_key_id_hex_def Let_def two_hex_digits(2,3) [OF v]
    by (simp add: v del: hex_value_digit)
qed

text \<open>The adverts of one device, and the service data of those that carried some.\<close>

definition adverts_of :: "string \<Rightarrow> nearby_advert list \<Rightarrow> nearby_advert list" where
  "adverts_of mac adverts = filter (\<lambda>a. upper_mac (na_address a) = mac) adverts"

definition service_data_seen :: "nearby_advert list \<Rightarrow> byte list list" where
  "service_data_seen adverts = filter (\<lambda>sd. sd \<noteq> []) (map (\<lambda>a. switchbot_service_data (na_adv a)) adverts)"

text \<open>
  C36. Service data and signal strength are gathered independently: for every address the scan records
  the strongest signal of all its packets (none below -128), and the service data of the last packet
  that carried any, whatever the strength of that packet and whatever the order. Addresses that sent
  nothing are absent.
\<close>

theorem nearby_scan_reference:
  "scan_nearby adverts mac =
    (if adverts_of mac adverts = [] then None
     else Some \<lparr>nd_rssi = Max (insert (-128) (na_rssi ` set (adverts_of mac adverts))),
                nd_svc_data = (if service_data_seen (adverts_of mac adverts) = [] then []
                               else last (service_data_seen (adverts_of mac adverts)))\<rparr>)"
proof (induction adverts rule: rev_induct)
  case Nil
  then show ?case by (simp add: scan_nearby_def adverts_of_def)
next
  case (snoc a adverts)
  have step: "scan_nearby (adverts @ [a]) = note_advert a (scan_nearby adverts)"
    by (simp add: scan_nearby_def)
  show ?case
  proof (cases "upper_mac (na_address a) = mac")
    case False
    with snoc show ?thesis by (simp add: step note_advert_def adverts_of_def Let_def)
  next
    case True
    then have "adverts_of mac (adverts @ [a]) = adverts_of mac adverts @ [a]" by (simp add: adverts_of_def)
    with True snoc show ?thesis
      by (cases "adverts_of mac adverts = []")
        (auto simp: step note_advert_def service_data_seen_def Let_def max_def insert_commute)
  qed
qed

end
