(* ===== verification/Lock_Linker.thy ===== *)
theory Lock_Linker
  imports Background_Job Physical_Lock
begin

text \<open>
  The lock-link job (\<open>LockLinker\<close>, \<open>lock_linker.h\<close>, \<open>lock_linker.cpp\<close>): a shared key is written into
  a slot of the physical lock under the cloud credential and then verified. The task body runs over
  the BLE environment and history of \<open>Physical_Lock\<close>; its three progress callbacks are read off the
  history: up to the second session request the events come from the provisioning callbacks, from
  then on from the verification callback.
\<close>

subsection \<open>Steps\<close>

definition STEP_CONNECT :: byte where "STEP_CONNECT = 0"
definition STEP_DISCOVER :: byte where "STEP_DISCOVER = 1"
definition STEP_SESSION :: byte where "STEP_SESSION = 2"
definition STEP_OPEN_SLOT :: byte where "STEP_OPEN_SLOT = 3"
definition STEP_WRITE_KEY_1 :: byte where "STEP_WRITE_KEY_1 = 4"
definition STEP_WRITE_KEY_2 :: byte where "STEP_WRITE_KEY_2 = 5"
definition STEP_VERIFY_SHARED_KEY :: byte where "STEP_VERIFY_SHARED_KEY = 6"

lemmas link_step_defs = STEP_CONNECT_def STEP_DISCOVER_def STEP_SESSION_def STEP_OPEN_SLOT_def
  STEP_WRITE_KEY_1_def STEP_WRITE_KEY_2_def STEP_VERIFY_SHARED_KEY_def

definition LINK_STEP_LABELS :: "string list" where
  "LINK_STEP_LABELS =
    [''Connecting to lock'', ''Discovering services'', ''Negotiating provisioning session'',
     ''Opening lock slot'', ''Writing shared key (1/2)'', ''Writing shared key (2/2)'',
     ''Verifying shared key'']"

definition LINK_STEP_COUNT :: byte where "LINK_STEP_COUNT = of_nat (length LINK_STEP_LABELS)"

definition link_step_label :: "byte \<Rightarrow> string" where
  "link_step_label step = (if step < LINK_STEP_COUNT then LINK_STEP_LABELS ! unat step else [])"

definition LINK_SLOT_ORIGINAL :: byte where "LINK_SLOT_ORIGINAL = 0x88"
definition LINK_SLOT_VISION :: byte where "LINK_SLOT_VISION = 0xC6"

subsection \<open>Provisioning commands\<close>

definition slot_nonce :: "byte \<Rightarrow> byte" where
  "slot_nonce slot = (if slot = LINK_SLOT_VISION then 0x80 else 0x69)"

definition make_provision_commands :: "byte \<Rightarrow> byte list \<Rightarrow> byte list list" where
  "make_provision_commands slot_id shared_key =
    [[0x0F, 0x20, 0x09, slot_id],
     [0x0F, 0x20, 0x03, slot_id, slot_nonce slot_id],
     [0x0F, 0x20, 0x04, slot_id, 0x00] @ map ((!) shared_key) [0..<8],
     [0x0F, 0x20, 0x04, slot_id, 0x01] @ map ((!) shared_key) [8..<16]]"

definition provision_responses_plausible :: "byte \<Rightarrow> byte list list \<Rightarrow> bool" where
  "provision_responses_plausible slot_id responses =
    (if length responses \<noteq> 4 then False
     else if responses ! 0 \<noteq> [] \<and> \<not> (length (responses ! 0) = 1 \<and> responses ! 0 ! 0 = slot_id)
     then False
     else if length (responses ! 1) \<noteq> 2 \<or> responses ! 1 ! 0 \<noteq> slot_id \<or>
       responses ! 1 ! 1 \<noteq> slot_nonce slot_id then False
     else length (responses ! 2) = 1 \<and> responses ! 2 ! 0 = slot_id \<and>
       length (responses ! 3) = 1 \<and> responses ! 3 ! 0 = slot_id)"

subsection \<open>State\<close>

record link_request =
  lr_name :: string
  lr_mac :: string
  lr_model :: physical_lock_model
  lr_shared_key :: "byte list"
  lr_shared_slot_id :: byte
  lr_lock_key_id :: byte
  lr_lock_key :: "byte list"

record lock_linker = ble_job +
  lk_name :: string
  lk_mac :: string
  lk_model :: physical_lock_model
  lk_slot_id :: byte
  lk_client :: lock_client

definition initial_linker :: lock_linker where
  "initial_linker = \<lparr>status = idle_status, lk_name = [], lk_mac = [], lk_model = MODEL_UNKNOWN,
    lk_slot_id = 0, lk_client = initial_client\<rparr>"

text \<open>The snapshot \<open>status()\<close> returns: the base status with the identity of the lock.\<close>

record link_status = job_status +
  ls_name :: string
  ls_mac :: string
  ls_model :: physical_lock_model
  ls_slot_id :: byte

definition link_status_of :: "lock_linker \<Rightarrow> link_status" where
  "link_status_of j = job_status.extend (status j)
    \<lparr>ls_name = lk_name j, ls_mac = lk_mac j, ls_model = lk_model j, ls_slot_id = lk_slot_id j\<rparr>"

definition linker_start :: "nat \<Rightarrow> bool \<Rightarrow> link_request \<Rightarrow> lock_linker \<Rightarrow> string \<times> lock_linker" where
  "linker_start timer_us task_ok req j =
    start_job CHR ''l'' timer_us LINK_STEP_COUNT (Some (LINK_STEP_LABELS ! 0))
      ''Could not start lock-link task'' task_ok
      (\<lambda>j. j\<lparr>lk_name := [], lk_mac := [], lk_model := MODEL_UNKNOWN, lk_slot_id := 0\<rparr>) j"

definition link_set_step :: "byte \<Rightarrow> lock_linker \<Rightarrow> lock_linker" where
  "link_set_step step j =
    (if step \<ge> LINK_STEP_COUNT then j else mark_step step (Some (LINK_STEP_LABELS ! unat step)) j)"

definition link_set_success :: "link_request \<Rightarrow> lock_linker \<Rightarrow> lock_linker" where
  "link_set_success req j =
    j\<lparr>status := (status j)\<lparr>st_state := SUCCESS, st_step := st_total (status j),
                           st_message := ''Lock linked'', st_error := []\<rparr>,
      lk_name := lr_name req, lk_mac := lr_mac req, lk_model := lr_model req\<rparr>"

definition link_set_failed :: "string \<Rightarrow> lock_linker \<Rightarrow> lock_linker" where
  "link_set_failed err j = mark_failed err j"

subsection \<open>The task body\<close>

fun provision_phase :: "lock_phase \<Rightarrow> byte list" where
  "provision_phase PHASE_CONNECT = [STEP_CONNECT]"
| "provision_phase PHASE_DISCOVER = [STEP_DISCOVER]"
| "provision_phase PHASE_SESSION = [STEP_SESSION]"
| "provision_phase PHASE_SCAN = []"
| "provision_phase PHASE_COMMAND = []"

definition provision_command :: "nat \<Rightarrow> byte list" where
  "provision_command command_index =
    (if command_index < 2 then [STEP_OPEN_SLOT]
     else if command_index = 2 then [STEP_WRITE_KEY_1]
     else if command_index = 3 then [STEP_WRITE_KEY_2]
     else [])"

fun verify_phase :: "lock_phase \<Rightarrow> byte list" where
  "verify_phase PHASE_COMMAND = [STEP_VERIFY_SHARED_KEY]"
| "verify_phase PHASE_SCAN = []"
| "verify_phase PHASE_CONNECT = []"
| "verify_phase PHASE_DISCOVER = []"
| "verify_phase PHASE_SESSION = []"

text \<open>The steps set along a history; \<open>sessions\<close> counts the session requests announced before.\<close>

fun link_steps :: "nat \<Rightarrow> ble_log \<Rightarrow> byte list" where
  "link_steps sessions [] = []"
| "link_steps sessions (EvProgress phase # es) =
    (let sessions' = (if phase = PHASE_SESSION then Suc sessions else sessions)
     in (if sessions' < 2 then provision_phase phase else verify_phase phase) @ link_steps sessions' es)"
| "link_steps sessions (EvCommandProgress i # es) = provision_command i @ link_steps sessions es"
| "link_steps sessions (e # es) = link_steps sessions es"

definition provisioning_config :: "link_request \<Rightarrow> lock_config" where
  "provisioning_config req = \<lparr>cfg_mac = lr_mac req, cfg_model = lr_model req,
    cfg_key_id = lr_lock_key_id req, cfg_key = lr_lock_key req\<rparr>"

definition link_slot :: "link_request \<Rightarrow> byte" where
  "link_slot req = (if lr_shared_slot_id req \<noteq> 0 then lr_shared_slot_id req else LINK_SLOT_ORIGINAL)"

definition shared_config :: "link_request \<Rightarrow> lock_config" where
  "shared_config req = \<lparr>cfg_mac = lr_mac req, cfg_model = lr_model req,
    cfg_key_id = link_slot req, cfg_key = lr_shared_key req\<rparr>"

definition link_execute ::
  "ble_env \<Rightarrow> lock_ciphers \<Rightarrow> link_request \<Rightarrow> lock_linker \<Rightarrow> ble_log \<Rightarrow> lock_linker \<times> ble_log" where
  "link_execute env cr req j log =
    (let slot = link_slot req;
         (res, responses, c, log') = provision_and_verify_shared_key env cr (provisioning_config req)
            (make_provision_commands slot (lr_shared_key req)) (shared_config req) True True True
            (lk_client j) log;
         j1 = fold link_set_step (link_steps 0 (drop (length log) log')) (j\<lparr>lk_client := c\<rparr>)
     in case res of
          Inl err \<Rightarrow> (link_set_failed (''Could not link the lock shared key: '' @ err) j1, log')
        | Inr _ \<Rightarrow>
            if \<not> provision_responses_plausible slot responses
            then (link_set_failed
                    ''The lock returned an unexpected shared-key provisioning response.'' j1, log')
            else (link_set_success req (j1\<lparr>lk_slot_id := slot\<rparr>), log'))"

subsection \<open>Outcomes\<close>

lemma link_set_step_fields [simp]:
  "st_state (status (link_set_step n j)) = st_state (status j)"
  "st_job_id (status (link_set_step n j)) = st_job_id (status j)"
  "st_total (status (link_set_step n j)) = st_total (status j)"
  by (simp_all add: link_set_step_def)

lemma link_steps_fields [simp]:
  "st_state (status (fold link_set_step ns j)) = st_state (status j)"
  "st_job_id (status (fold link_set_step ns j)) = st_job_id (status j)"
  "st_total (status (fold link_set_step ns j)) = st_total (status j)"
  by (induction ns arbitrary: j) simp_all

text \<open>A finished link describes its request: the identity the bridge will persist.\<close>

definition link_describes :: "link_request \<Rightarrow> lock_linker \<Rightarrow> bool" where
  "link_describes req j \<longleftrightarrow> lk_name j = lr_name req \<and> lk_mac j = lr_mac req \<and>
    lk_model j = lr_model req \<and> lk_slot_id j = link_slot req"

lemma link_execute_cases:
  assumes "link_execute env cr req j log = (j', log')"
  obtains (failed) "st_state (status j') = FAILED" "st_job_id (status j') = st_job_id (status j)"
    | (linked) responses c where "st_state (status j') = SUCCESS"
        "st_job_id (status j') = st_job_id (status j)" "st_step (status j') = st_total (status j)"
        "link_describes req j'" "provision_responses_plausible (link_slot req) responses"
        "provision_and_verify_shared_key env cr (provisioning_config req)
            (make_provision_commands (link_slot req) (lr_shared_key req)) (shared_config req)
            True True True (lk_client j) log = (Inr (), responses, c, log')"
proof -
  obtain res responses c log1 where p: "provision_and_verify_shared_key env cr (provisioning_config req)
      (make_provision_commands (link_slot req) (lr_shared_key req)) (shared_config req)
      True True True (lk_client j) log = (res, responses, c, log1)"
    by (metis prod_cases4)
  have log: "log1 = log'"
    using assms by (auto simp: link_execute_def p Let_def split: sum.splits if_splits)
  show thesis
  proof (cases res)
    case (Inl e)
    then show thesis
      using assms by (intro failed) (auto simp: link_execute_def p Let_def link_set_failed_def)
  next
    case (Inr u)
    show thesis
    proof (cases "provision_responses_plausible (link_slot req) responses")
      case True
      then have j': "j' = link_set_success req ((fold link_set_step
          (link_steps 0 (drop (length log) log1)) (j\<lparr>lk_client := c\<rparr>))\<lparr>lk_slot_id := link_slot req\<rparr>)"
        using assms Inr by (auto simp: link_execute_def p Let_def)
      show thesis
        by (rule linked [OF _ _ _ _ True])
          (use p Inr log in \<open>simp_all add: j' link_set_success_def link_describes_def\<close>)
    next
      case False
      then show thesis
        using assms Inr by (intro failed) (auto simp: link_execute_def p Let_def link_set_failed_def)
    qed
  qed
qed

text \<open>The job contract.\<close>

definition linker_run :: "ble_env \<times> lock_ciphers \<times> ble_log \<Rightarrow> link_request \<Rightarrow> lock_linker \<Rightarrow> lock_linker" where
  "linker_run e req j = (case e of (env, cr, log) \<Rightarrow> fst (link_execute env cr req j log))"

lemma linker_run_cases:
  "st_state (status (linker_run e req j)) \<in> {SUCCESS, FAILED} \<and>
    st_job_id (status (linker_run e req j)) = st_job_id (status j) \<and>
    (st_state (status (linker_run e req j)) = SUCCESS \<longrightarrow> link_describes req (linker_run e req j))"
proof -
  obtain env cr log where e: "e = (env, cr, log)" by (metis prod_cases3)
  obtain j' log' where x: "link_execute env cr req j log = (j', log')" by (metis prod.exhaust)
  then have "linker_run e req j = j'" by (simp add: linker_run_def e)
  with x show ?thesis by (cases rule: link_execute_cases) simp_all
qed

interpretation ll: job_class "status :: lock_linker \<Rightarrow> job_status" linker_start linker_run link_describes
proof unfold_locales
  fix j j' :: lock_linker and t ok req i
  show "st_state (status j) = RUNNING \<Longrightarrow> linker_start t ok req j = ([], j)"
    by (simp add: linker_start_def start_job_busy)
  show "st_state (status j) \<noteq> RUNNING \<Longrightarrow> linker_start t True req j = (i, j') \<Longrightarrow>
      i \<noteq> [] \<and> st_state (status j') = RUNNING \<and> st_job_id (status j') = i"
    by (auto simp: linker_start_def start_job_spawned)
  show "st_state (status j) \<noteq> RUNNING \<Longrightarrow> linker_start t False req j = (i, j') \<Longrightarrow>
      i = [] \<and> st_state (status j') = FAILED"
    by (auto simp: linker_start_def start_job_refused)
qed (use linker_run_cases in blast)+

subsection \<open>Progress\<close>

fun is_progress :: "ble_event \<Rightarrow> bool" where
  "is_progress (EvProgress p) = True"
| "is_progress (EvCommandProgress i) = True"
| "is_progress e = False"

text \<open>\<open>progressed log log' ps\<close>: from \<open>log\<close> to \<open>log'\<close> exactly these progress events were added.\<close>

definition progressed :: "ble_log \<Rightarrow> ble_log \<Rightarrow> ble_log \<Rightarrow> bool" where
  "progressed log log' ps \<longleftrightarrow> (\<exists>es. log' = log @ es \<and> filter is_progress es = ps)"

lemma progressedI: "log' = log @ es \<Longrightarrow> filter is_progress es = ps \<Longrightarrow> progressed log log' ps"
  unfolding progressed_def by blast

lemma progressed_refl [simp]: "progressed log log []"
  by (simp add: progressed_def)

lemma progressed_trans: "progressed a b ps \<Longrightarrow> progressed b c qs \<Longrightarrow> progressed a c (ps @ qs)"
  unfolding progressed_def by fastforce

lemma progressed_silent: "progressed a b ps \<Longrightarrow> \<not> is_progress e \<Longrightarrow> progressed a (b @ [e]) ps"
  unfolding progressed_def by fastforce

lemma progressed_event: "progressed a b ps \<Longrightarrow> is_progress e \<Longrightarrow> progressed a (b @ [e]) (ps @ [e])"
  unfolding progressed_def by fastforce

lemma link_steps_progress: "link_steps n log = link_steps n (filter is_progress log)"
  by (induction n log rule: link_steps.induct) simp_all

lemma progressed_steps: "progressed log log' ps \<Longrightarrow> link_steps n (drop (length log) log') = link_steps n ps"
  using link_steps_progress by (auto simp: progressed_def)

lemma service_progress:
  "connect_switchbot_service env a t l log = (res, log') \<Longrightarrow> progressed log log' []"
  by (auto simp: connect_switchbot_service_def Let_def progressed_def split: if_splits prod.splits)

lemma discover_progress: "discover_target env mac t log = (a, log') \<Longrightarrow> progressed log log' []"
  by (auto simp: discover_target_def Let_def progressed_def)

lemma try_target_progress:
  assumes "try_target env True config n target c log = (r, c', log')"
  shows "case r of
      None \<Rightarrow> n = 0 \<and> progressed log log' [EvProgress PHASE_CONNECT]
    | Some (Inl e) \<Rightarrow> n \<noteq> 0 \<and> progressed log log' [EvProgress PHASE_CONNECT]
    | Some (Inr u) \<Rightarrow> progressed log log' [EvProgress PHASE_CONNECT, EvProgress PHASE_DISCOVER]"
proof -
  obtain r1 log1 where c: "connect_switchbot_service env target 5000 ''physical lock''
      (log @ [EvProgress PHASE_CONNECT]) = (r1, log1)"
    by (metis prod.exhaust)
  have p: "progressed log log1 [EvProgress PHASE_CONNECT]"
    using progressed_trans [OF progressedI [OF refl] service_progress [OF c]] by simp
  moreover have "progressed log (log1 @ [EvProgress PHASE_DISCOVER])
      [EvProgress PHASE_CONNECT, EvProgress PHASE_DISCOVER]"
    using progressed_event [OF p, of "EvProgress PHASE_DISCOVER"] by simp
  ultimately show ?thesis
    using assms c by (auto simp: try_target_def log_if_def split: sum.splits if_splits)
qed

text \<open>The progress of connecting: directly, or by way of one scan.\<close>

lemma connect_progress:
  assumes "connect_lock env True config c log = (res, c', log')"
  obtains (direct) "res = Inr ()"
      "progressed log log' [EvProgress PHASE_CONNECT, EvProgress PHASE_DISCOVER]"
    | (unseen) e where "res = Inl e"
        "progressed log log' [EvProgress PHASE_CONNECT, EvProgress PHASE_SCAN]"
    | (unconnected) e where "res = Inl e"
        "progressed log log' [EvProgress PHASE_CONNECT, EvProgress PHASE_SCAN, EvProgress PHASE_CONNECT]"
    | (scanned) "res = Inr ()" "progressed log log' [EvProgress PHASE_CONNECT, EvProgress PHASE_SCAN,
        EvProgress PHASE_CONNECT, EvProgress PHASE_DISCOVER]"
proof -
  have two: "[0..<2] = [0, 1 :: nat]" by (simp add: numeral_2_eq_2)
  let ?target = "if cached_mac c \<noteq> [] \<and> cached_mac c = cfg_mac config then cached_addr c
    else address_from_mac (cfg_mac config)"
  obtain r1 c1 log1 where t1: "try_target env True config 0 ?target c log = (r1, c1, log1)"
    by (metis prod_cases3)
  show thesis
  proof (cases r1)
    case (Some x)
    then obtain u where "r1 = Some (Inr u)"
      using try_target_progress [OF t1] by (cases x) auto
    with assms t1 try_target_progress [OF t1] show thesis
      by (intro direct) (auto simp: connect_lock_def two Let_def)
  next
    case None
    then have p1: "progressed log log1 [EvProgress PHASE_CONNECT]"
      using try_target_progress [OF t1] by simp
    obtain a log2 where d: "discover_target env (cfg_mac config) 2500 (log1 @ [EvProgress PHASE_SCAN]) = (a, log2)"
      by (metis prod.exhaust)
    have p2: "progressed log log2 [EvProgress PHASE_CONNECT, EvProgress PHASE_SCAN]"
      using progressed_trans [OF progressed_event [OF p1] discover_progress [OF d]] by simp
    show thesis
    proof (cases "a = null_address")
      case True
      with assms t1 None d p2 show thesis
        by (intro unseen) (auto simp: connect_lock_def two Let_def log_if_def)
    next
      case False
      obtain r2 c2 log3 where t2: "try_target env True config 1 a c1 log2 = (r2, c2, log3)"
        by (metis prod_cases3)
      note p3 = progressed_trans [OF p2]
      from try_target_progress [OF t2] obtain x where x: "r2 = Some x" by (cases r2) auto
      show thesis
      proof (cases x)
        case (Inl e)
        with try_target_progress [OF t2] x have "progressed log2 log3 [EvProgress PHASE_CONNECT]" by simp
        from p3 [OF this] assms t1 None d False t2 x Inl show thesis
          by (intro unconnected) (auto simp: connect_lock_def two Let_def log_if_def)
      next
        case (Inr u)
        with try_target_progress [OF t2] x
        have "progressed log2 log3 [EvProgress PHASE_CONNECT, EvProgress PHASE_DISCOVER]" by simp
        from p3 [OF this] assms t1 None d False t2 x Inr show thesis
          by (intro scanned) (auto simp: connect_lock_def two Let_def log_if_def)
      qed
    qed
  qed
qed

lemma subscribe_progress: "subscribe_notify env log = (res, log') \<Longrightarrow> progressed log log' []"
  by (auto simp: subscribe_notify_def Let_def progressed_def split: if_splits)

lemma teardown_progress: "progressed log (teardown log) []"
  by (simp add: teardown_def progressed_def)

lemma send_progress: "send_encrypted env cr config s cmd log = (res, log') \<Longrightarrow> progressed log log' []"
  by (auto simp: send_encrypted_def Let_def progressed_def split: sum.splits if_splits)

text \<open>The progress of the command loop: one announcement per command tried, all of them on success.\<close>

lemma command_loop_progress:
  assumes "\<And>i. announce i = [ev i]" "\<And>i. is_progress (ev i)"
  shows "command_loop env cr config s announce False i cmds rs log = (res, rs', log') \<Longrightarrow>
    \<exists>k \<le> length cmds. progressed log log' (map ev [i..<i + k]) \<and> (res = Inr () \<longrightarrow> k = length cmds)"
proof (induction cmds arbitrary: i rs log)
  case Nil
  then show ?case by simp
next
  case (Cons cmd cmds)
  obtain r1 log1 where send: "send_encrypted env cr config s cmd (log @ announce i) = (r1, log1)"
    by (metis prod.exhaust)
  have p1: "progressed log log1 [ev i]"
    using progressed_trans [OF progressedI [OF refl] send_progress [OF send]] assms by simp
  have one: "\<exists>k \<le> length (cmd # cmds). progressed log l (map ev [i..<i + k]) \<and> (Inl e = Inr () \<longrightarrow> k = n)"
    if "progressed log l [ev i]" for l e n
    using that by (intro exI [of _ 1]) simp
  show ?case
  proof (cases r1)
    case (Inl e)
    with Cons.prems send one [OF p1] show ?thesis by auto
  next
    case (Inr u)
    let ?log2 = "log1 @ [EvWait 2500 (env_wait env log1 2500)]"
    have p2: "progressed log ?log2 [ev i]" by (rule progressed_silent [OF p1]) simp
    show ?thesis
    proof (cases "env_wait env log1 2500")
      case None
      with Cons.prems send Inr one [OF p2] show ?thesis by (auto simp: Let_def)
    next
      case (Some wire)
      show ?thesis
      proof (cases "decrypt_notify cr config s wire")
        case (Inl e)
        with Cons.prems send Inr Some one [OF p2] show ?thesis by (auto simp: Let_def)
      next
        case dec: (Inr r)
        with Cons.prems send Inr Some have
          "command_loop env cr config s announce False (Suc i) cmds (rs @ [r]) ?log2 = (res, rs', log')"
          by (simp add: Let_def log_if_def)
        from Cons.IH [OF this] obtain k where k: "k \<le> length cmds"
            "progressed ?log2 log' (map ev [Suc i..<Suc i + k])" "res = Inr () \<longrightarrow> k = length cmds"
          by blast
        have "map ev [i..<i + Suc k] = [ev i] @ map ev [Suc i..<Suc i + k]"
          by (simp add: upt_conv_Cons del: upt_Suc)
        with progressed_trans [OF p2 k(2)] k show ?thesis by (intro exI [of _ "Suc k"]) simp
      qed
    qed
  qed
qed

lemma run_session_progress:
  assumes "\<And>i. announce i = [ev i]" "\<And>i. is_progress (ev i)"
    and "run_session env cr config m1 m2 True announce False cmds log = (res, rs, log')"
  shows "\<exists>k \<le> length cmds. progressed log log' (EvProgress PHASE_SESSION # map ev [0..<k]) \<and>
    (res = Inr () \<longrightarrow> k = length cmds)"
proof -
  let ?log1 = "log @ [EvProgress PHASE_SESSION]" and ?req = "iv_request_for (cfg_key_id config)"
  let ?log2 = "?log1 @ [EvWrite ?req (env_write env ?log1 ?req)]"
  let ?log3 = "?log2 @ [EvWait 3000 (env_wait env ?log2 3000)]"
  have p: "progressed log ?log1 [EvProgress PHASE_SESSION]" by (rule progressedI [OF refl]) simp
  have p2: "progressed log ?log2 [EvProgress PHASE_SESSION]" by (rule progressed_silent [OF p]) simp
  have p3: "progressed log ?log3 [EvProgress PHASE_SESSION]" by (rule progressed_silent [OF p2]) simp
  consider (loop) s where "command_loop env cr config s announce False 0 cmds [] ?log3 = (res, rs, log')"
    | (stopped) "log' = ?log2 \<or> log' = ?log3" "res \<noteq> Inr ()"
    using assms(3)
    by (auto simp: run_session_def Let_def log_if_def split: if_splits option.splits sum.splits)
  then show ?thesis
  proof cases
    case (loop s)
    from command_loop_progress [OF assms(1,2) loop] obtain k where
      "k \<le> length cmds" "progressed ?log3 log' (map ev [0..<0 + k])" "res = Inr () \<longrightarrow> k = length cmds"
      by blast
    with progressed_trans [OF p3 this(2)] show ?thesis by auto
  next
    case stopped
    with p2 p3 show ?thesis by (intro exI [of _ 0]) auto
  qed
qed

text \<open>The steps of the two sessions and of connecting, as the wizard sees them.\<close>

lemma link_steps_append:
  "link_steps n (xs @ ys) =
    link_steps n xs @ link_steps (n + length (filter (\<lambda>e. e = EvProgress PHASE_SESSION) xs)) ys"
  by (induction n xs rule: link_steps.induct) (simp_all add: Let_def)

lemma link_steps_commands:
  "link_steps n (map EvCommandProgress is) = concat (map provision_command is)"
  by (induction "is") simp_all

lemma link_steps_verify:
  "2 \<le> n \<Longrightarrow> link_steps n (map (\<lambda>i. EvProgress PHASE_COMMAND) is) =
    map (\<lambda>i. STEP_VERIFY_SHARED_KEY) is"
  by (induction "is") (simp_all add: Let_def)

lemma provision_command_steps:
  "k \<le> 4 \<Longrightarrow> concat (map provision_command [0..<k]) = take k [3, 3, 4, 5]"
  by (cases k; simp add: provision_command_def link_step_defs)
    (auto simp: le_Suc_eq numeral_eq_Suc provision_command_def link_step_defs)

text \<open>The two courses a link can take: directly to the lock, or by way of one scan.\<close>

definition direct_course :: "byte list" where
  "direct_course = [STEP_CONNECT, STEP_DISCOVER, STEP_SESSION, STEP_OPEN_SLOT, STEP_OPEN_SLOT,
    STEP_WRITE_KEY_1, STEP_WRITE_KEY_2, STEP_VERIFY_SHARED_KEY]"

definition on_course :: "nat \<Rightarrow> byte list \<Rightarrow> bool" where
  "on_course n steps \<longleftrightarrow> steps = take n direct_course \<or>
    steps = STEP_CONNECT # take n direct_course"

lemma connect_course:
  assumes "connect_lock env True config c log = (res, c', log')"
  shows "\<exists>ps n. progressed log log' ps \<and> on_course n (link_steps 0 ps) \<and>
    filter (\<lambda>e. e = EvProgress PHASE_SESSION) ps = [] \<and> (res = Inr () \<longrightarrow> n = 2)"
proof -
  have one: "take (Suc 0) direct_course = [STEP_CONNECT]" and two: "take 2 direct_course = [STEP_CONNECT, STEP_DISCOVER]"
    by (simp_all add: direct_course_def)
  show ?thesis
    using assms
  proof (cases rule: connect_progress)
    case direct
    then show ?thesis by (intro exI conjI) (auto simp: on_course_def two Let_def)
  next
    case (unseen e)
    then show ?thesis
      by (intro exI [of _ "[EvProgress PHASE_CONNECT, EvProgress PHASE_SCAN]"] exI [of _ 1])
        (auto simp: on_course_def one Let_def simp del: take_Suc)
  next
    case (unconnected e)
    then show ?thesis
      by (intro exI [of _ "[EvProgress PHASE_CONNECT, EvProgress PHASE_SCAN, EvProgress PHASE_CONNECT]"]
          exI [of _ 1])
        (auto simp: on_course_def one Let_def simp del: take_Suc)
  next
    case scanned
    then show ?thesis by (intro exI conjI) (auto simp: on_course_def two Let_def)
  qed
qed

lemma on_course_extend:
  assumes "on_course n steps" "take m (drop n direct_course) = rest"
  shows "on_course (n + m) (steps @ rest)"
  using assms by (auto simp: on_course_def take_add)

lemma session_course:
  assumes conn: "progressed log log1 ps" "on_course 2 (link_steps 0 ps)"
      "filter (\<lambda>e. e = EvProgress PHASE_SESSION) ps = []"
    and run: "progressed log1 log2 (EvProgress PHASE_SESSION # map EvCommandProgress [0..<k])" "k \<le> 4"
  shows "\<exists>qs. progressed log log2 qs \<and> on_course (3 + k) (link_steps 0 qs) \<and>
    length (filter (\<lambda>e. e = EvProgress PHASE_SESSION) qs) = 1"
proof -
  let ?qs = "ps @ EvProgress PHASE_SESSION # map EvCommandProgress [0..<k]"
  have "link_steps 0 ?qs = link_steps 0 ps @ STEP_SESSION # take k [3, 3, 4, 5]"
    using run(2) by (simp add: link_steps_append conn(3) link_steps_commands provision_command_steps Let_def)
  moreover have "take (Suc k) (drop 2 direct_course) = STEP_SESSION # take k [3, 3, 4, 5]"
    using run(2) by (simp add: direct_course_def link_step_defs take_Cons' numeral_eq_Suc)
  ultimately have "on_course (2 + Suc k) (link_steps 0 ?qs)"
    by (simp only: on_course_extend [OF conn(2)])
  moreover have "progressed log log2 ?qs" using progressed_trans [OF conn(1) run(1)] by simp
  ultimately show ?thesis using conn(3) by (intro exI [of _ ?qs]) (simp add: numeral_3_eq_3)
qed

lemma provision_course:
  assumes "provision_and_verify_shared_key env cr pc cmds sc True True True c log = (res, rs, c', log')"
    and "length cmds = 4"
  shows "\<exists>n. on_course n (link_steps 0 (drop (length log) log')) \<and> (res = Inr () \<longrightarrow> n = 8)"
proof -
  have announce: "\<And>i. announce_commands True True i = [EvCommandProgress i]"
      "\<And>i. announce_commands False True i = [EvProgress PHASE_COMMAND]"
    by (simp_all add: announce_commands_def progress_command_def)
  show ?thesis
    using assms(1)
  proof (cases rule: provision_cases)
    case refused
    then show ?thesis by (intro exI [of _ 0]) (simp add: on_course_def)
  next
    case unconnected
    with connect_course [OF unconnected(2)] show ?thesis by (auto simp: progressed_steps)
  next
    case (unsubscribed log1)
    from connect_course [OF unsubscribed(2)] obtain ps where
      p: "progressed log log1 ps" "on_course 2 (link_steps 0 ps)"
      by auto
    with progressed_trans [OF p(1) subscribe_progress [OF unsubscribed(3)]] unsubscribed(4)
    show ?thesis by (auto simp: progressed_steps)
  next
    case (provisioning log1 log2 log3)
    from connect_course [OF provisioning(1)] obtain ps where
      p: "progressed log log1 ps" "on_course 2 (link_steps 0 ps)"
        "filter (\<lambda>e. e = EvProgress PHASE_SESSION) ps = []"
      by auto
    note p2 = progressed_trans [OF p(1) subscribe_progress [OF provisioning(2)], simplified]
    from run_session_progress [OF announce(1) _ provisioning(5)] obtain k where
      k: "k \<le> 4" "progressed log2 log3 (EvProgress PHASE_SESSION # map EvCommandProgress [0..<k])"
      using assms(2) by auto
    from session_course [OF p2 p(2,3) k(2,1)] obtain qs where
      q: "progressed log log3 qs" "on_course (3 + k) (link_steps 0 qs)"
      by auto
    note q' = progressed_trans [OF q(1) teardown_progress, simplified]
    have "on_course (3 + k) (link_steps 0 (drop (length log) log'))"
      using q(2) progressed_steps [OF q'] provisioning(6) by simp
    with provisioning(4) show ?thesis by blast
  next
    case (verifying log1 log2 log3 log4 res4 vrs cmd)
    from connect_course [OF verifying(1)] obtain ps where
      p: "progressed log log1 ps" "on_course 2 (link_steps 0 ps)"
        "filter (\<lambda>e. e = EvProgress PHASE_SESSION) ps = []"
      by auto
    note p2 = progressed_trans [OF p(1) subscribe_progress [OF verifying(2)], simplified]
    from run_session_progress [OF announce(1) _ verifying(4)] have
      "progressed log2 log3 (EvProgress PHASE_SESSION # map EvCommandProgress [0..<4])"
      using assms(2) by auto
    from session_course [OF p2 p(2,3) this] obtain qs where
      q: "progressed log log3 qs" "on_course 7 (link_steps 0 qs)"
        "length (filter (\<lambda>e. e = EvProgress PHASE_SESSION) qs) = 1"
      by auto
    from run_session_progress [OF announce(2) _ verifying(6)] obtain k where
      k: "k \<le> 1" "progressed log3 log4 (EvProgress PHASE_SESSION # map (\<lambda>i. EvProgress PHASE_COMMAND) [0..<k])"
        "res4 = Inr () \<longrightarrow> k = 1"
      by auto
    let ?vs = "EvProgress PHASE_SESSION # map (\<lambda>i. EvProgress PHASE_COMMAND) [0..<k]"
    note q' = progressed_trans [OF progressed_trans [OF q(1) k(2)] teardown_progress, simplified]
    have "link_steps 0 (qs @ ?vs) = link_steps 0 qs @ map (\<lambda>i. STEP_VERIFY_SHARED_KEY) [0..<k]"
      by (simp add: link_steps_append q(3) link_steps_verify Let_def)
    moreover have "take k (drop 7 direct_course) = map (\<lambda>i. STEP_VERIFY_SHARED_KEY) [0..<k]"
      using k(1) by (cases k) (simp_all add: direct_course_def)
    ultimately have "on_course (7 + k) (link_steps 0 (qs @ ?vs))"
      by (simp only: on_course_extend [OF q(2)])
    moreover have "link_steps 0 (drop (length log) log') = link_steps 0 (qs @ ?vs)"
      using progressed_steps [OF q'] verifying(8) by simp
    moreover have "res = Inr () \<Longrightarrow> k = 1"
      using k(3) verifying(7) case_sum_unit by metis
    ultimately show ?thesis by (intro exI [of _ "7 + k"]) simp
  qed
qed

subsection \<open>Properties\<close>


text \<open>
  C25. The wizard's progress bar never goes back: whatever the radio and the lock do, the steps a link
  reports are a prefix of one of two courses (the second connects twice, with a scan between), both
  sorted and inside the step list, and a successful link has reported its whole course.
\<close>

theorem link_progress_never_goes_back:
  "case link_execute env cr req j log of (j', log') \<Rightarrow>
    \<exists>n. on_course n (link_steps 0 (drop (length log) log')) \<and>
      sorted (link_steps 0 (drop (length log) log')) \<and>
      list_all (\<lambda>s. s < LINK_STEP_COUNT) (link_steps 0 (drop (length log) log')) \<and>
      (st_state (status j') \<noteq> SUCCESS \<or> n = 8)"
proof -
  obtain j' log' where x: "link_execute env cr req j log = (j', log')" by (metis prod.exhaust)
  obtain res rs c log1 where p: "provision_and_verify_shared_key env cr (provisioning_config req)
      (make_provision_commands (link_slot req) (lr_shared_key req)) (shared_config req)
      True True True (lk_client j) log = (res, rs, c, log1)"
    by (metis prod_cases4)
  have log: "log1 = log'" using x by (auto simp: link_execute_def p Let_def split: sum.splits if_splits)
  have "length (make_provision_commands (link_slot req) (lr_shared_key req)) = 4"
    by (simp add: make_provision_commands_def)
  from provision_course [OF p this] obtain n where
    n: "on_course n (link_steps 0 (drop (length log) log'))" "res = Inr () \<longrightarrow> n = 8"
    using log by blast
  have "sorted direct_course" "list_all (\<lambda>s. s < LINK_STEP_COUNT) direct_course" by code_simp+
  then have "sorted (take n direct_course)" "list_all (\<lambda>s. s < LINK_STEP_COUNT) (take n direct_course)"
    by (auto simp: sorted_wrt_take list_all_iff dest: in_set_takeD)
  moreover have "STEP_CONNECT \<le> s" "STEP_CONNECT < LINK_STEP_COUNT" for s
    by (simp_all add: link_step_defs LINK_STEP_COUNT_def LINK_STEP_LABELS_def)
  ultimately have "sorted steps \<and> list_all (\<lambda>s. s < LINK_STEP_COUNT) steps" if "on_course n steps" for steps
    using that by (auto simp: on_course_def)
  moreover have "st_state (status j') = SUCCESS \<Longrightarrow> res = Inr ()"
    using x p by (cases rule: link_execute_cases) simp_all
  ultimately show ?thesis using x n by auto
qed


subsection \<open>Witnesses\<close>

text \<open>A lock that provisions the Vision slot: it echoes the slot and then answers the lock-info command.\<close>

definition linking_payloads :: "byte list list" where
  "linking_payloads = [[], [0xC6], [0xC6, 0x80], [0xC6], [0xC6], [], replicate 6 0]"

definition linking_lock :: ble_env where
  "linking_lock = answering_lock\<lparr>env_wait := (\<lambda>log t.
    if t = 3000 then Some ([0x01, 0x00, 0x00, 0x00] @ replicate 16 0x11)
    else Some ([0x01, 0xC6, 0x11, 0x11] @
      map (\<lambda>b. b XOR 0x11) (linking_payloads ! length (notified log))))\<rparr>"

definition test_link_request :: link_request where
  "test_link_request = \<lparr>lr_name = ''Front door'', lr_mac = ''B0:E9:FE:61:2E:75'', lr_model = LOCK_ULTRA,
    lr_shared_key = replicate 16 0, lr_shared_slot_id = 0xC6, lr_lock_key_id = 0x11,
    lr_lock_key = replicate 16 0\<rparr>"

definition started_linker :: lock_linker where
  "started_linker = snd (linker_start 5000 True test_link_request initial_linker)"

lemma linking_lock_provisions:
  "case provision_and_verify_shared_key linking_lock stub_ciphers (provisioning_config test_link_request)
      (make_provision_commands 0xC6 (replicate 16 0)) (shared_config test_link_request) True True True
      initial_client [] of
    (res, rs, _, _) \<Rightarrow> res = Inr () \<and> provision_responses_plausible 0xC6 rs"
  by code_simp

lemma test_link_slot: "link_slot test_link_request = 0xC6" "lr_shared_key test_link_request = replicate 16 0"
  by (simp_all add: link_slot_def test_link_request_def)

lemma linking_lock_links:
  "case link_execute linking_lock stub_ciphers test_link_request started_linker [] of
    (j, log) \<Rightarrow> st_state (status j) = SUCCESS"
proof -
  obtain res rs c log where p: "provision_and_verify_shared_key linking_lock stub_ciphers
      (provisioning_config test_link_request) (make_provision_commands 0xC6 (replicate 16 0))
      (shared_config test_link_request) True True True initial_client [] = (res, rs, c, log)"
    by (metis prod_cases4)
  moreover from linking_lock_provisions p have "res = Inr ()" "provision_responses_plausible 0xC6 rs"
    by simp_all
  moreover have "lk_client started_linker = initial_client"
    by (simp add: started_linker_def linker_start_def start_job_def initial_linker_def idle_status_def Let_def)
  ultimately show ?thesis
    by (simp add: link_execute_def test_link_slot link_set_success_def Let_def)
qed


theorem link_progress_never_goes_back_witness:
  "\<exists>n. on_course n (link_steps 0 (snd (link_execute linking_lock stub_ciphers test_link_request started_linker [])))"
  using link_progress_never_goes_back [where env = linking_lock and cr = stub_ciphers and
      req = test_link_request and j = started_linker and log = "[]"]
  by (auto split: prod.splits)


end
