(* ===== verification/Keypad_Pairer.thy ===== *)
theory Keypad_Pairer
  imports Background_Job Physical_Lock "HOL-Library.Sublist"
begin

text \<open>
  The keypad-link job (\<open>KeypadPairer\<close>, \<open>keypad_pairer.h\<close>, \<open>keypad_pairer.cpp\<close>): the handshake that
  writes the shared key and the bridge's address into a keypad, in the dialect of its family.

  The notification callback runs on the NimBLE task and only stores the session IV and gives a
  semaphore whose take results the code discards, so the semaphore only delays. What arrives is
  delivered to the callback after each write and during each wait, the points between which the code
  reads what the callback stored. \<open>pair_env\<close> is the BLE environment with the adverts of a scan, the
  peripheral link the keypad may still hold, and the notifications of each point.
\<close>

subsection \<open>Dialects\<close>

record family_preset =
  shared_slot :: byte
  slot_init_nonce :: byte
  enter_pairing :: "byte list"
  capabilities_probe :: "byte list option"
  finalize_tail :: "byte list"
  enable_doorbell :: "byte list option"

definition ORIGINAL_ENTER_PAIRING :: "byte list" where "ORIGINAL_ENTER_PAIRING = [0x0f, 0x52, 0x01, 0x07, 0x00]"
definition ORIGINAL_FINALIZE_TAIL :: "byte list" where
  "ORIGINAL_FINALIZE_TAIL = [0x00, 0x08, 0x09, 0x04, 0x05, 0x07]"
definition VISION_ENTER_PAIRING :: "byte list" where "VISION_ENTER_PAIRING = [0x0f, 0x53, 0x01, 0x07]"
definition VISION_CAPABILITIES_PROBE :: "byte list" where
  "VISION_CAPABILITIES_PROBE = [0x0f, 0x53, 0x07, 0x03]"
definition VISION_FINALIZE_TAIL :: "byte list" where
  "VISION_FINALIZE_TAIL = [0x04, 0x04, 0x01, 0x05, 0x08, 0x09]"
definition VISION_ENABLE_DOORBELL :: "byte list" where
  "VISION_ENABLE_DOORBELL = [0x0f, 0x52, 0x01, 0x09, 0x02, 0x01, 0x01]"

definition ORIGINAL_PRESET :: family_preset where
  "ORIGINAL_PRESET = \<lparr>shared_slot = 0x88, slot_init_nonce = 0x69,
    enter_pairing = ORIGINAL_ENTER_PAIRING, capabilities_probe = None,
    finalize_tail = ORIGINAL_FINALIZE_TAIL, enable_doorbell = None\<rparr>"

definition VISION_PRESET :: family_preset where
  "VISION_PRESET = \<lparr>shared_slot = 0xC6, slot_init_nonce = 0x80,
    enter_pairing = VISION_ENTER_PAIRING, capabilities_probe = Some VISION_CAPABILITIES_PROBE,
    finalize_tail = VISION_FINALIZE_TAIL, enable_doorbell = Some VISION_ENABLE_DOORBELL\<rparr>"

definition preset_for :: "keypad_family \<Rightarrow> family_preset" where
  "preset_for f = (if f = VISION then VISION_PRESET else ORIGINAL_PRESET)"

lemmas preset_defs = preset_for_def ORIGINAL_PRESET_def VISION_PRESET_def ORIGINAL_ENTER_PAIRING_def
  ORIGINAL_FINALIZE_TAIL_def VISION_ENTER_PAIRING_def VISION_CAPABILITIES_PROBE_def
  VISION_FINALIZE_TAIL_def VISION_ENABLE_DOORBELL_def

definition PAIR_STEP_LABELS :: "string list" where
  "PAIR_STEP_LABELS =
    [''Connecting to keypad'', ''Discovering services'', ''Negotiating session key'',
     ''Opening lock slot'', ''Writing shared key (1/2)'', ''Writing shared key (2/2)'',
     ''Updating lock target'', ''Finalising'', ''Force-enabling doorbell'']"

definition BASE_STEP_COUNT :: byte where "BASE_STEP_COUNT = 8"
definition DOORBELL_STEP :: byte where "DOORBELL_STEP = 8"
definition VISION_STEP_COUNT :: byte where "VISION_STEP_COUNT = 9"

definition pair_step_count :: "keypad_family \<Rightarrow> byte" where
  "pair_step_count family = (if family = VISION then VISION_STEP_COUNT else BASE_STEP_COUNT)"

definition pair_step_label :: "keypad_family \<Rightarrow> byte \<Rightarrow> string" where
  "pair_step_label family step = (if step < pair_step_count family then PAIR_STEP_LABELS ! unat step else [])"

subsection \<open>State\<close>

record pair_request =
  pr_mac :: string
  pr_family :: keypad_family
  pr_key_id :: int
  pr_key :: "byte list"
  pr_shared_token :: "byte list"
  pr_esp_mac :: "byte list"

record keypad_pairer = ble_job +
  kp_mac :: string
  kp_family :: keypad_family
  kp_key :: "byte list"
  kp_key_id :: byte
  kp_iv :: "byte list"
  kp_iv_received :: bool

definition initial_pairer :: keypad_pairer where
  "initial_pairer = \<lparr>status = idle_status, kp_mac = [], kp_family = ORIGINAL, kp_key = [],
    kp_key_id = 0, kp_iv = replicate 16 0, kp_iv_received = False\<rparr>"

record pair_status = job_status +
  ps_mac :: string
  ps_family :: keypad_family

definition pair_status_of :: "keypad_pairer \<Rightarrow> pair_status" where
  "pair_status_of p = job_status.extend (status p) \<lparr>ps_mac = kp_mac p, ps_family = kp_family p\<rparr>"

definition pairer_start :: "nat \<Rightarrow> bool \<Rightarrow> pair_request \<Rightarrow> keypad_pairer \<Rightarrow> string \<times> keypad_pairer" where
  "pairer_start timer_us task_ok req p =
    start_job CHR ''p'' timer_us (pair_step_count (pr_family req)) (Some (PAIR_STEP_LABELS ! 0))
      ''Could not start keypad-link task'' task_ok
      (\<lambda>p. p\<lparr>kp_key := pr_key req, kp_key_id := of_int (pr_key_id req), kp_iv_received := False,
             kp_mac := [], kp_family := ORIGINAL\<rparr>) p"

definition pair_set_step :: "byte \<Rightarrow> keypad_pairer \<Rightarrow> keypad_pairer" where
  "pair_set_step step p = mark_step step (Some (PAIR_STEP_LABELS ! unat step)) p"

definition pair_set_success :: "string \<Rightarrow> keypad_family \<Rightarrow> keypad_pairer \<Rightarrow> keypad_pairer" where
  "pair_set_success keypad_mac family p =
    p\<lparr>status := (status p)\<lparr>st_state := SUCCESS, st_step := st_total (status p),
                           st_message := ''Keypad linked'', st_error := []\<rparr>,
      kp_mac := keypad_mac, kp_family := family\<rparr>"

definition pair_set_failed :: "string \<Rightarrow> keypad_pairer \<Rightarrow> keypad_pairer" where
  "pair_set_failed err p = mark_failed err p"

subsection \<open>Notifications\<close>

record pair_env =
  pe_ble :: ble_env
  pe_adverts :: "ble_log \<Rightarrow> (ble_address \<times> byte list) list"
  pe_peripheral :: "ble_log \<Rightarrow> ble_address \<Rightarrow> bool"
  pe_notifications :: "ble_log \<Rightarrow> byte list list"

definition on_notify :: "byte list \<Rightarrow> keypad_pairer \<Rightarrow> keypad_pairer" where
  "on_notify d p =
    (if length d = 20 \<and> d ! 0 = 0x01 \<and> d ! 1 = 0x00
     then p\<lparr>kp_iv := take 16 (drop 4 d), kp_iv_received := True\<rparr>
     else p)"

definition deliver :: "pair_env \<Rightarrow> keypad_pairer \<Rightarrow> ble_log \<Rightarrow> keypad_pairer \<times> ble_log" where
  "deliver env p log =
    (let ns = pe_notifications env log in (fold on_notify ns p, log @ [EvNotifications ns]))"

text \<open>The IV loop, \<open>for (i = 0; i < 6 && !iv_received; ++i)\<close> around one timed wait.\<close>

fun wait_iv :: "pair_env \<Rightarrow> nat \<Rightarrow> keypad_pairer \<Rightarrow> ble_log \<Rightarrow> keypad_pairer \<times> ble_log" where
  "wait_iv env 0 p log = (p, log)"
| "wait_iv env (Suc n) p log =
    (if kp_iv_received p then (p, log)
     else let (p', log') = deliver env p log in wait_iv env n p' log')"

text \<open>\<open>send_command_\<close>: one encrypted write and a wait whose result is discarded.\<close>

definition pair_frame :: "lock_ciphers \<Rightarrow> byte list \<Rightarrow> keypad_pairer \<Rightarrow> byte list option" where
  "pair_frame cr plaintext p =
    map_option (\<lambda>ct. [0x57, kp_key_id p, kp_iv p ! 0, kp_iv p ! 1] @ ct)
      (ctr_raw_key cr (kp_key p) (kp_iv p) plaintext)"

definition send_command ::
  "pair_env \<Rightarrow> lock_ciphers \<Rightarrow> byte list \<Rightarrow> keypad_pairer \<Rightarrow> ble_log \<Rightarrow> bool \<times> keypad_pairer \<times> ble_log" where
  "send_command env cr plaintext p log =
    (case pair_frame cr plaintext p of
       None \<Rightarrow> (False, p, log)
     | Some frame \<Rightarrow>
         let ok = env_write (pe_ble env) log frame;
             log1 = log @ [EvWrite frame ok]
         in if \<not> ok then (False, p, log1) else (True, deliver env p log1))"

subsection \<open>The handshake\<close>

text \<open>
  The commands of the handshake in the order the code sends them: the progress step set before the
  command (if one is), the plaintext, and the message of the failure exit (\<open>None\<close> where the code
  discards the result).
\<close>

record pair_move =
  mv_step :: "byte option"
  mv_plaintext :: "byte list"
  mv_failure :: "string option"

definition token_write :: "byte \<Rightarrow> byte \<Rightarrow> byte list \<Rightarrow> byte list" where
  "token_write slot part half = [0x0F, 0x20, 0x04, slot, part] @ half"

definition pair_moves :: "pair_request \<Rightarrow> pair_move list" where
  "pair_moves req =
    (let preset = preset_for (pr_family req); slot = shared_slot preset
     in [\<lparr>mv_step = Some 3, mv_plaintext = enter_pairing preset, mv_failure = Some ''enter_pairing rejected.''\<rparr>] @
        (case capabilities_probe preset of None \<Rightarrow> []
         | Some probe \<Rightarrow> [\<lparr>mv_step = None, mv_plaintext = probe, mv_failure = None\<rparr>]) @
        [\<lparr>mv_step = None, mv_plaintext = [0x06, 0x03], mv_failure = None\<rparr>,
         \<lparr>mv_step = None, mv_plaintext = [0x0F, 0x20, 0x03, slot, slot_init_nonce preset],
           mv_failure = Some ''Could not open the keypad's key slot.''\<rparr>,
         \<lparr>mv_step = Some 4, mv_plaintext = token_write slot 0x00 (take 8 (pr_shared_token req)),
           mv_failure = Some ''Could not write shared_key (1/2).''\<rparr>,
         \<lparr>mv_step = Some 5, mv_plaintext = token_write slot 0x01 (take 8 (drop 8 (pr_shared_token req))),
           mv_failure = Some ''Could not write shared_key (2/2).''\<rparr>,
         \<lparr>mv_step = Some 6, mv_plaintext = [0x06, 0x01, slot] @ take 6 (pr_esp_mac req),
           mv_failure = Some ''Could not update target lock MAC.''\<rparr>,
         \<lparr>mv_step = Some 7,
           mv_plaintext = [0x0f, 0x52, 0x02, 0x02, 0x10, 0xFF, 0x05, 0x06] @ finalize_tail preset,
           mv_failure = None\<rparr>,
         \<lparr>mv_step = None, mv_plaintext = [0x0f, 0x53, 0x01, 0x06], mv_failure = None\<rparr>] @
        (case enable_doorbell preset of None \<Rightarrow> []
         | Some doorbell \<Rightarrow> [\<lparr>mv_step = Some DOORBELL_STEP, mv_plaintext = doorbell, mv_failure = None\<rparr>]))"

fun run_moves ::
  "pair_env \<Rightarrow> lock_ciphers \<Rightarrow> pair_move list \<Rightarrow> keypad_pairer \<Rightarrow> ble_log \<Rightarrow> string option \<times> keypad_pairer \<times> ble_log" where
  "run_moves env cr [] p log = (None, p, log)"
| "run_moves env cr (m # ms) p log =
    (let p0 = (case mv_step m of Some s \<Rightarrow> pair_set_step s p | None \<Rightarrow> p);
         (ok, p1, log1) = send_command env cr (mv_plaintext m) p0 log
     in if \<not> ok \<and> mv_failure m \<noteq> None then (mv_failure m, p1, log1)
        else run_moves env cr ms p1 log1)"

definition discover_keypad ::
  "pair_env \<Rightarrow> string \<Rightarrow> u32 \<Rightarrow> ble_log \<Rightarrow> ble_address \<times> keypad_ident \<times> ble_log" where
  "discover_keypad env mac_pretty timeout_ms log =
    (let target = upper_mac mac_pretty;
         log1 = log @ [EvScan timeout_ms]
     in (case find (\<lambda>adv. upper_mac (addr_text (fst adv)) = target) (pe_adverts env log1) of
           Some (a, sd) \<Rightarrow> (a, identify_keypad (Some sd), log1)
         | None \<Rightarrow> (null_address, default_ident, log1)))"

definition hang_up :: "ble_log \<Rightarrow> ble_log" where
  "hang_up log = log @ [EvDisconnect, EvDeleteClient]"

definition pair_session ::
  "pair_env \<Rightarrow> lock_ciphers \<Rightarrow> pair_request \<Rightarrow> keypad_pairer \<Rightarrow> ble_log \<Rightarrow> keypad_pairer \<times> ble_log" where
  "pair_session env cr req p log =
    (let p1 = pair_set_step 1 p;
         log1 = log @ [EvSubscribe (env_subscribe (pe_ble env) log)];
         p2 = pair_set_step 2 p1;
         iv_req = [0x57, 0x00, 0x00, 0x00, 0x0F, 0x21, 0x03, kp_key_id p2];
         ok = env_write (pe_ble env) log1 iv_req;
         log2 = log1 @ [EvWrite iv_req ok]
     in if \<not> ok then (pair_set_failed ''Could not request session IV from keypad.'' p2, hang_up log2)
        else
          let (p3, log3) = (case deliver env p2 log2 of (p', l') \<Rightarrow> wait_iv env 6 p' l')
          in if \<not> kp_iv_received p3
             then (pair_set_failed
                     ''Keypad did not open a session. Reset it into pairing mode and retry.'' p3,
                   hang_up log3)
             else
               (case run_moves env cr (pair_moves req) p3 log3 of
                  (Some err, p4, log4) \<Rightarrow> (pair_set_failed err p4, hang_up log4)
                | (None, p4, log4) \<Rightarrow>
                    (pair_set_success (pr_mac req) (pr_family req) p4, hang_up log4)))"

definition pair_execute ::
  "pair_env \<Rightarrow> lock_ciphers \<Rightarrow> pair_request \<Rightarrow> keypad_pairer \<Rightarrow> ble_log \<Rightarrow> keypad_pairer \<times> ble_log" where
  "pair_execute env cr req p log =
    (let p0 = pair_set_step 0 p;
         (target, ident, log1) = discover_keypad env (pr_mac req) 6000 log
     in if target = null_address
        then (pair_set_failed
                ''Could not see the keypad over BLE. Keep it within 2 m and retry.'' p0, log1)
        else
          let log2 = (if pe_peripheral env log1 target then log1 @ [EvTerminate] else log1)
          in (case connect_switchbot_service (pe_ble env) target 10000 ''keypad'' log2 of
                (Inl err, log3) \<Rightarrow> (pair_set_failed err p0, log3)
              | (Inr _, log3) \<Rightarrow> pair_session env cr req p0 log3))"

subsection \<open>What the pieces keep\<close>

definition pair_describes :: "pair_request \<Rightarrow> keypad_pairer \<Rightarrow> bool" where
  "pair_describes req p \<longleftrightarrow> kp_mac p = pr_mac req \<and> kp_family p = pr_family req"

text \<open>The credential of the job and the identity of its status stay while the handshake runs.\<close>

definition same_job :: "keypad_pairer \<Rightarrow> keypad_pairer \<Rightarrow> bool" where
  "same_job p p' \<longleftrightarrow> kp_key p' = kp_key p \<and> kp_key_id p' = kp_key_id p \<and>
    st_state (status p') = st_state (status p) \<and> st_job_id (status p') = st_job_id (status p) \<and>
    st_total (status p') = st_total (status p)"

lemma same_job_refl [simp]: "same_job p p"
  by (simp add: same_job_def)

lemma same_job_trans: "same_job a b \<Longrightarrow> same_job b c \<Longrightarrow> same_job a c"
  by (simp add: same_job_def)

lemma same_job_step [simp]: "same_job p (pair_set_step n p)"
  by (simp add: same_job_def pair_set_step_def mark_step_def)

lemma same_job_notify: "same_job p (fold on_notify ns p)"
proof (induction ns arbitrary: p)
  case (Cons d ns)
  have "same_job p (on_notify d p)" by (simp add: same_job_def on_notify_def)
  with Cons show ?case by (auto intro: same_job_trans)
qed simp

lemma deliver_facts:
  "deliver env p log = (p', log') \<Longrightarrow>
    same_job p p' \<and> writes_of log' = writes_of log \<and> held_after log' = held_after log"
  using same_job_notify by (auto simp: deliver_def Let_def)

lemma wait_iv_facts:
  "wait_iv env n p log = (p', log') \<Longrightarrow>
    same_job p p' \<and> writes_of log' = writes_of log \<and> held_after log' = held_after log"
proof (induction env n p log rule: wait_iv.induct)
  case (2 env n p log)
  show ?case
  proof (cases "kp_iv_received p")
    case False
    obtain p1 log1 where d: "deliver env p log = (p1, log1)" by (metis prod.exhaust)
    with 2 False have "same_job p1 p'" "writes_of log' = writes_of log1" "held_after log' = held_after log1"
      by simp_all
    with deliver_facts [OF d] show ?thesis by (auto intro: same_job_trans)
  qed (use 2 in simp)
qed simp

lemma send_command_facts:
  assumes "send_command env cr pt p log = (ok, p', log')"
  shows "same_job p p'" "held_after log' = held_after log"
    and "\<exists>ws. writes_of log' = writes_of log @ ws \<and> length ws \<le> 1 \<and>
      (ok \<longrightarrow> (\<exists>f. pair_frame cr pt p = Some f \<and> ws = [(f, True)]))"
proof -
  have "same_job p p' \<and> held_after log' = held_after log \<and>
    (\<exists>ws. writes_of log' = writes_of log @ ws \<and> length ws \<le> 1 \<and>
      (ok \<longrightarrow> (\<exists>f. pair_frame cr pt p = Some f \<and> ws = [(f, True)])))"
  proof (cases "pair_frame cr pt p")
    case None
    with assms show ?thesis by (simp add: send_command_def)
  next
    case (Some f)
    let ?log1 = "log @ [EvWrite f (env_write (pe_ble env) log f)]"
    obtain pd logd where d: "deliver env p ?log1 = (pd, logd)" by (metis prod.exhaust)
    show ?thesis
    proof (cases "env_write (pe_ble env) log f")
      case True
      with assms Some d have "ok" "p' = pd" "log' = logd" by (simp_all add: send_command_def Let_def)
      with deliver_facts [OF d] Some True show ?thesis by simp
    next
      case False
      with assms Some have "p' = p" "log' = log @ [EvWrite f False]" "\<not> ok"
        by (auto simp: send_command_def Let_def)
      then show ?thesis by (simp add: neutral_def)
    qed
  qed
  then show "same_job p p'" "held_after log' = held_after log"
    "\<exists>ws. writes_of log' = writes_of log @ ws \<and> length ws \<le> 1 \<and>
      (ok \<longrightarrow> (\<exists>f. pair_frame cr pt p = Some f \<and> ws = [(f, True)]))"
    by blast+
qed

text \<open>\<open>frames_command\<close>: a frame of the handshake carries this plaintext under the job's credential.\<close>

definition frames_command :: "lock_ciphers \<Rightarrow> byte list \<Rightarrow> byte \<Rightarrow> byte list \<Rightarrow> byte list \<Rightarrow> bool" where
  "frames_command cr key key_id cmd f \<longleftrightarrow> (\<exists>iv ct. ctr_raw_key cr key iv cmd = Some ct \<and>
    f = [0x57, key_id, iv ! 0, iv ! 1] @ ct)"

definition required_commands :: "pair_move list \<Rightarrow> byte list list" where
  "required_commands ms = map mv_plaintext (filter (\<lambda>m. mv_failure m \<noteq> None) ms)"

lemma pair_frame_frames:
  "pair_frame cr pt p = Some f \<Longrightarrow> frames_command cr (kp_key p) (kp_key_id p) pt f"
  by (auto simp: pair_frame_def frames_command_def)

definition delivered ::
  "lock_ciphers \<Rightarrow> byte list \<Rightarrow> byte \<Rightarrow> byte list list \<Rightarrow> (byte list \<times> bool) list \<Rightarrow> bool" where
  "delivered cr key key_id cmds ws \<longleftrightarrow>
    (\<exists>frames. list_all2 (frames_command cr key key_id) cmds frames \<and>
      subseq (map (\<lambda>f. (f, True)) frames) ws)"

lemma delivered_Nil [simp]: "delivered cr key key_id [] ws"
  by (simp add: delivered_def)

lemma delivered_prefix: "delivered cr key key_id cmds ws \<Longrightarrow> delivered cr key key_id cmds (ws' @ ws)"
proof -
  assume "delivered cr key key_id cmds ws"
  then obtain frames where f: "list_all2 (frames_command cr key key_id) cmds frames"
      and "subseq (map (\<lambda>f. (f, True)) frames) ws"
    unfolding delivered_def by (elim exE conjE)
  from this(2) have "subseq (map (\<lambda>f. (f, True)) frames) (ws' @ ws)" by (rule list_emb_append2)
  with f show ?thesis unfolding delivered_def by (intro exI conjI)
qed

lemma delivered_Cons:
  "frames_command cr key key_id cmd f \<Longrightarrow> delivered cr key key_id cmds ws \<Longrightarrow>
    delivered cr key key_id (cmd # cmds) ((f, True) # ws)"
proof -
  assume cmd: "frames_command cr key key_id cmd f" and "delivered cr key key_id cmds ws"
  then obtain frames where "list_all2 (frames_command cr key key_id) cmds frames"
      "subseq (map (\<lambda>f. (f, True)) frames) ws"
    unfolding delivered_def by (elim exE conjE)
  with cmd have "list_all2 (frames_command cr key key_id) (cmd # cmds) (f # frames)"
      "subseq (map (\<lambda>f. (f, True)) (f # frames)) ((f, True) # ws)"
    by simp_all
  then show ?thesis unfolding delivered_def by (intro exI conjI)
qed

lemma run_moves_facts:
  "run_moves env cr ms p log = (res, p', log') \<Longrightarrow>
    same_job p p' \<and> held_after log' = held_after log \<and>
    (\<exists>ws. writes_of log' = writes_of log @ ws \<and> length ws \<le> length ms \<and>
      (res = None \<longrightarrow> delivered cr (kp_key p) (kp_key_id p) (required_commands ms) ws))"
proof (induction ms arbitrary: p log)
  case (Cons m ms)
  let ?p0 = "case mv_step m of Some s \<Rightarrow> pair_set_step s p | None \<Rightarrow> p"
  have p0: "same_job p ?p0" by (simp split: option.split)
  obtain ok p1 log1 where send: "send_command env cr (mv_plaintext m) ?p0 log = (ok, p1, log1)"
    by (metis prod_cases3)
  note f = send_command_facts [OF send]
  have j1: "same_job p p1" using p0 f(1) by (rule same_job_trans)
  from f(3) obtain ws1 where ws1: "writes_of log1 = writes_of log @ ws1" "length ws1 \<le> 1"
      "ok \<longrightarrow> (\<exists>f. pair_frame cr (mv_plaintext m) ?p0 = Some f \<and> ws1 = [(f, True)])"
    by blast
  show ?case
  proof (cases "\<not> ok \<and> mv_failure m \<noteq> None")
    case True
    with Cons.prems send j1 f(2) ws1 show ?thesis by auto
  next
    case False
    with Cons.prems send have "run_moves env cr ms p1 log1 = (res, p', log')"
      by (auto simp: Let_def)
    note IH = Cons.IH [OF this]
    from IH obtain ws where ws: "writes_of log' = writes_of log1 @ ws" "length ws \<le> length ms"
        "res = None \<longrightarrow> delivered cr (kp_key p) (kp_key_id p) (required_commands ms) ws"
      using j1 by (auto simp: same_job_def)
    have "res = None \<longrightarrow> delivered cr (kp_key p) (kp_key_id p) (required_commands (m # ms)) (ws1 @ ws)"
    proof (cases "mv_failure m = None")
      case True
      with ws(3) show ?thesis by (simp add: required_commands_def delivered_prefix)
    next
      case req: False
      with False have "ok" by simp
      with ws1(3) obtain g where g: "pair_frame cr (mv_plaintext m) ?p0 = Some g" "ws1 = [(g, True)]"
        by blast
      have "frames_command cr (kp_key p) (kp_key_id p) (mv_plaintext m) g"
        using pair_frame_frames [OF g(1)] p0 by (simp add: same_job_def)
      with g(2) ws(3) req show ?thesis by (simp add: required_commands_def delivered_Cons)
    qed
    moreover have "same_job p p'" using j1 IH by (blast intro: same_job_trans)
    ultimately show ?thesis
      using IH f(2) ws ws1(1,2) by (intro conjI exI [of _ "ws1 @ ws"]) auto
  qed
qed (auto simp: required_commands_def)

subsection \<open>Outcomes\<close>

lemma discover_keypad_facts:
  "discover_keypad env mac t log = (a, i, log') \<Longrightarrow> writes_of log' = writes_of log \<and> held_after log' = held_after log"
  by (auto simp: discover_keypad_def Let_def split: option.splits prod.splits)

text \<open>A connection that was opened is closed again, with its subscription.\<close>

definition hung_up :: "ble_log \<Rightarrow> ble_log \<Rightarrow> bool" where
  "hung_up log log' \<longleftrightarrow> held_clients (held_after log') = held_clients (held_after log) \<and>
    held_links (held_after log') = held_links (held_after log) \<and>
    held_semaphores (held_after log') = held_semaphores (held_after log)"

lemma holds_more_fields [simp]:
  "held_clients (holds_more c m l u h) = held_clients h + c"
  "held_links (holds_more c m l u h) = held_links h + l"
  "held_semaphores (holds_more c m l u h) = held_semaphores h + m"
  by (simp_all add: holds_more_def)

definition iv_request_of :: "keypad_pairer \<Rightarrow> byte list" where
  "iv_request_of p = [0x57, 0x00, 0x00, 0x00, 0x0F, 0x21, 0x03, kp_key_id p]"

lemma pair_session_cases:
  assumes "pair_session env cr req p log = (p', log')"
  obtains (failed) "st_state (status p') = FAILED" "st_job_id (status p') = st_job_id (status p)"
      "held_clients (held_after log') = held_clients (held_after log) - 1"
      "held_links (held_after log') = held_links (held_after log) - 1"
      "held_semaphores (held_after log') = held_semaphores (held_after log)"
    | (paired) ws where "st_state (status p') = SUCCESS" "st_job_id (status p') = st_job_id (status p)"
      "st_step (status p') = st_total (status p)" "pair_describes req p'"
      "held_clients (held_after log') = held_clients (held_after log) - 1"
      "held_links (held_after log') = held_links (held_after log) - 1"
      "held_semaphores (held_after log') = held_semaphores (held_after log)"
      "writes_of log' = writes_of log @ (iv_request_of p, True) # ws"
      "length ws \<le> length (pair_moves req)"
      "delivered cr (kp_key p) (kp_key_id p) (required_commands (pair_moves req)) ws"
proof -
  define p2 where "p2 = pair_set_step 2 (pair_set_step 1 p)"
  define log1 where "log1 = log @ [EvSubscribe (env_subscribe (pe_ble env) log)]"
  have j2: "same_job p p2" unfolding p2_def by (blast intro: same_job_step same_job_trans)
  have req: "[0x57, 0x00, 0x00, 0x00, 0x0F, 0x21, 0x03, kp_key_id p2] = iv_request_of p"
    using j2 by (simp add: iv_request_of_def same_job_def)
  define ok where "ok = env_write (pe_ble env) log1 (iv_request_of p)"
  define log2 where "log2 = log1 @ [EvWrite (iv_request_of p) ok]"
  have h2: "held_clients (held_after log2) = held_clients (held_after log)"
      "held_links (held_after log2) = held_links (held_after log)"
      "held_semaphores (held_after log2) = held_semaphores (held_after log)"
      "writes_of log2 = writes_of log @ [(iv_request_of p, ok)]"
    by (simp_all add: log2_def log1_def)
  note eqs = assms [unfolded pair_session_def Let_def, folded p2_def log1_def, unfolded req, folded ok_def,
      folded log2_def]
  show thesis
  proof (cases ok)
    case False
    with eqs j2 h2 show thesis
      by (intro failed) (auto simp: pair_set_failed_def hang_up_def same_job_def)
  next
    case True
    obtain pd logd where d: "deliver env p2 log2 = (pd, logd)" by (metis prod.exhaust)
    obtain p3 log3 where w: "wait_iv env 6 pd logd = (p3, log3)" by (metis prod.exhaust)
    have j3: "same_job p p3" and h3: "writes_of log3 = writes_of log2" "held_after log3 = held_after log2"
      using deliver_facts [OF d] wait_iv_facts [OF w] j2 by (auto intro: same_job_trans)
    show thesis
    proof (cases "kp_iv_received p3")
      case False
      with eqs True d w j3 h3 h2 show thesis
        by (intro failed) (auto simp: pair_set_failed_def hang_up_def same_job_def)
    next
      case received: True
      obtain res p4 log4 where m: "run_moves env cr (pair_moves req) p3 log3 = (res, p4, log4)"
        by (metis prod_cases3)
      note f = run_moves_facts [OF m]
      have j4: "same_job p p4" using j3 f by (blast intro: same_job_trans)
      show thesis
      proof (cases res)
        case (Some err)
        with eqs True d w received m j4 f h3 h2 show thesis
          by (intro failed) (auto simp: pair_set_failed_def hang_up_def same_job_def)
      next
        case None
        with f j3 obtain ws where ws: "writes_of log4 = writes_of log3 @ ws" "length ws \<le> length (pair_moves req)"
            "delivered cr (kp_key p) (kp_key_id p) (required_commands (pair_moves req)) ws"
          by (auto simp: same_job_def)
        have out: "p' = pair_set_success (pr_mac req) (pr_family req) p4" "log' = hang_up log4"
          using eqs True d w received m None by simp_all
        show thesis
          by (rule paired [OF _ _ _ _ _ _ _ _ ws(2,3)])
            (use out j4 f h3 h2 True ws(1) in
              \<open>simp_all add: pair_set_success_def hang_up_def same_job_def pair_describes_def\<close>)
      qed
    qed
  qed
qed

lemma pair_execute_cases:
  assumes "pair_execute env cr req p log = (p', log')"
  obtains (failed) "st_state (status p') = FAILED" "st_job_id (status p') = st_job_id (status p)"
      "hung_up log log'"
    | (paired) ws where "st_state (status p') = SUCCESS" "st_job_id (status p') = st_job_id (status p)"
      "st_step (status p') = st_total (status p)" "pair_describes req p'" "hung_up log log'"
      "writes_of log' = writes_of log @ (iv_request_of p, True) # ws"
      "length ws \<le> length (pair_moves req)"
      "delivered cr (kp_key p) (kp_key_id p) (required_commands (pair_moves req)) ws"
proof -
  define p0 where "p0 = pair_set_step 0 p"
  have j0: "same_job p p0" unfolding p0_def by simp
  obtain target ident log1 where d: "discover_keypad env (pr_mac req) 6000 log = (target, ident, log1)"
    by (metis prod_cases3)
  define log2 where "log2 = (if pe_peripheral env log1 target then log1 @ [EvTerminate] else log1)"
  obtain res log3 where c: "connect_switchbot_service (pe_ble env) target 10000 ''keypad'' log2 = (res, log3)"
    by (metis prod.exhaust)
  have h2: "held_after log2 = held_after log" "writes_of log2 = writes_of log"
    using discover_keypad_facts [OF d] by (simp_all add: log2_def)
  note eqs = assms [unfolded pair_execute_def Let_def d prod.case, folded p0_def log2_def, unfolded c]
  show thesis
  proof (cases "target = null_address")
    case True
    with eqs j0 discover_keypad_facts [OF d] show thesis
      by (intro failed) (auto simp: pair_set_failed_def same_job_def hung_up_def)
  next
    case False
    show thesis
    proof (cases res)
      case (Inl err)
      with eqs False j0 connect_service_held [OF c] h2 show thesis
        by (intro failed) (auto simp: pair_set_failed_def same_job_def hung_up_def)
    next
      case (Inr u)
      with eqs False have "pair_session env cr req p0 log3 = (p', log')" by simp
      moreover have h3: "held_clients (held_after log3) = held_clients (held_after log) + 1"
          "held_links (held_after log3) = held_links (held_after log) + 1"
          "held_semaphores (held_after log3) = held_semaphores (held_after log)"
        using connect_service_held [OF c] Inr h2 by simp_all
      moreover have w3: "writes_of log3 = writes_of log"
        using connect_service_trace [OF c] h2 by simp
      moreover have "iv_request_of p0 = iv_request_of p" using j0 by (simp add: iv_request_of_def same_job_def)
      ultimately show thesis
        using j0
        by (cases rule: pair_session_cases)
          (use failed paired h3 w3 in \<open>auto simp: same_job_def hung_up_def\<close>)
    qed
  qed
qed

subsection \<open>The job contract\<close>

definition pairer_run :: "pair_env \<times> lock_ciphers \<times> ble_log \<Rightarrow> pair_request \<Rightarrow> keypad_pairer \<Rightarrow> keypad_pairer" where
  "pairer_run e req p = (case e of (env, cr, log) \<Rightarrow> fst (pair_execute env cr req p log))"

lemma pairer_run_cases:
  "st_state (status (pairer_run e req p)) \<in> {SUCCESS, FAILED} \<and>
    st_job_id (status (pairer_run e req p)) = st_job_id (status p) \<and>
    (st_state (status (pairer_run e req p)) = SUCCESS \<longrightarrow> pair_describes req (pairer_run e req p))"
proof -
  obtain env cr log where e: "e = (env, cr, log)" by (metis prod_cases3)
  obtain p' log' where x: "pair_execute env cr req p log = (p', log')" by (metis prod.exhaust)
  then have "pairer_run e req p = p'" by (simp add: pairer_run_def e)
  with x show ?thesis by (cases rule: pair_execute_cases) simp_all
qed

interpretation kp: job_class "status :: keypad_pairer \<Rightarrow> job_status" pairer_start pairer_run pair_describes
proof unfold_locales
  fix p p' :: keypad_pairer and t ok req i
  show "st_state (status p) = RUNNING \<Longrightarrow> pairer_start t ok req p = ([], p)"
    by (simp add: pairer_start_def start_job_busy)
  show "st_state (status p) \<noteq> RUNNING \<Longrightarrow> pairer_start t True req p = (i, p') \<Longrightarrow>
      i \<noteq> [] \<and> st_state (status p') = RUNNING \<and> st_job_id (status p') = i"
    by (auto simp: pairer_start_def start_job_spawned)
  show "st_state (status p) \<noteq> RUNNING \<Longrightarrow> pairer_start t False req p = (i, p') \<Longrightarrow>
      i = [] \<and> st_state (status p') = FAILED"
    by (auto simp: pairer_start_def start_job_refused)
qed (use pairer_run_cases in blast)+

subsection \<open>Properties\<close>

text \<open>The commands a successful pairing cannot do without, for both dialects.\<close>

lemma required_pair_moves:
  "required_commands (pair_moves req) =
    (let preset = preset_for (pr_family req); slot = shared_slot preset
     in [enter_pairing preset, [0x0F, 0x20, 0x03, slot, slot_init_nonce preset],
         token_write slot 0x00 (take 8 (pr_shared_token req)),
         token_write slot 0x01 (take 8 (drop 8 (pr_shared_token req))),
         [0x06, 0x01, slot] @ take 6 (pr_esp_mac req)])"
  by (simp add: required_commands_def pair_moves_def Let_def split: option.split)

lemma length_pair_moves: "length (pair_moves req) \<le> 10"
  by (simp add: pair_moves_def Let_def split: option.split)


text \<open>
  C24. Every pairing attempt ends and hangs up: whatever the radio and the keypad do, the job ends in
  success or failure under its own id, and the client and link it opened are released.
\<close>

theorem pairing_always_hangs_up:
  "case pair_execute env cr req p log of (p', log') \<Rightarrow>
    (st_state (status p') = SUCCESS \<or> st_state (status p') = FAILED) \<and>
    st_job_id (status p') = st_job_id (status p) \<and> hung_up log log'"
proof -
  obtain p' log' where x: "pair_execute env cr req p log = (p', log')" by (metis prod.exhaust)
  then show ?thesis by (cases rule: pair_execute_cases) (simp_all add: x)
qed

text \<open>What the live advert says is only logged.\<close>

lemma deliver_adverts [simp]: "deliver (env\<lparr>pe_adverts := f\<rparr>) = deliver env"
  by (intro ext) (simp add: deliver_def)

lemma wait_iv_adverts [simp]: "wait_iv (env\<lparr>pe_adverts := f\<rparr>) n p log = wait_iv env n p log"
  by (induction env n p log rule: wait_iv.induct) (auto split: prod.split)

lemma send_command_adverts [simp]: "send_command (env\<lparr>pe_adverts := f\<rparr>) = send_command env"
  by (intro ext) (simp add: send_command_def Let_def split: option.split)

lemma run_moves_adverts [simp]: "run_moves (env\<lparr>pe_adverts := f\<rparr>) cr ms p log = run_moves env cr ms p log"
  by (induction ms arbitrary: p log) (auto simp: Let_def split: prod.split)

lemma pair_session_adverts [simp]: "pair_session (env\<lparr>pe_adverts := f\<rparr>) = pair_session env"
  by (intro ext) (simp add: pair_session_def Let_def cong: if_cong split: prod.split option.split)

lemma find_relabelled:
  "find (\<lambda>adv. P (fst adv)) (map (\<lambda>(a, sd). (a, g a sd)) xs) =
    map_option (\<lambda>(a, sd). (a, g a sd)) (find (\<lambda>adv. P (fst adv)) xs)"
  by (induction xs) auto

text \<open>
  The dialect is the one the request asks for: a scan whose adverts carry any other service data,
  of another family or of no keypad at all, leads to the same commands and the same result.
\<close>

theorem dialect_ignores_live_advert:
  "pair_execute (env\<lparr>pe_adverts := (\<lambda>l. map (\<lambda>(a, sd). (a, other l a sd)) (pe_adverts env l))\<rparr>) cr req p log =
    pair_execute env cr req p log"
proof -
  let ?env = "env\<lparr>pe_adverts := (\<lambda>l. map (\<lambda>(a, sd). (a, other l a sd)) (pe_adverts env l))\<rparr>"
  obtain a i l where d: "discover_keypad env (pr_mac req) 6000 log = (a, i, l)" by (metis prod_cases3)
  let ?log = "log @ [EvScan 6000]"
  have "find (\<lambda>adv. upper_mac (addr_text (fst adv)) = upper_mac (pr_mac req)) (pe_adverts ?env ?log) =
      map_option (\<lambda>(a, sd). (a, other ?log a sd))
        (find (\<lambda>adv. upper_mac (addr_text (fst adv)) = upper_mac (pr_mac req)) (pe_adverts env ?log))"
    using find_relabelled [where P = "\<lambda>a. upper_mac (addr_text a) = upper_mac (pr_mac req)"] by simp
  with d obtain i' where "discover_keypad ?env (pr_mac req) 6000 log = (a, i', l)"
    unfolding discover_keypad_def Let_def by (auto simp del: find_Some_iff split: option.splits)
  with d show ?thesis by (simp add: pair_execute_def Let_def split: sum.split prod.split)
qed

subsection \<open>Witnesses\<close>

text \<open>
  A keypad that sends the session IV and nothing else; the radio accepts \<open>n\<close> writes and fails all
  later ones.
\<close>

definition quiet_keypad :: "nat \<Rightarrow> pair_env" where
  "quiet_keypad n = \<lparr>pe_ble = answering_lock\<lparr>env_write := (\<lambda>log _. length (writes_of log) < n)\<rparr>,
    pe_adverts = (\<lambda>_. [(\<lparr>addr_text = ''b0:e9:fe:0a:0b:0c'', addr_type = 0\<rparr>, [0x79, 0, 50])]),
    pe_peripheral = (\<lambda>_ _. False),
    pe_notifications = (\<lambda>log. if length (writes_of log) = 1
      then [[0x01, 0x00, 0x00, 0x00] @ replicate 16 0x11] else [])\<rparr>"

definition test_pair_request :: pair_request where
  "test_pair_request = \<lparr>pr_mac = ''B0:E9:FE:0A:0B:0C'', pr_family = ORIGINAL, pr_key_id = 0x88,
    pr_key = replicate 16 3, pr_shared_token = replicate 16 7, pr_esp_mac = [0xB0, 0xE9, 0xFE, 1, 2, 3]\<rparr>"

definition started_pairer :: keypad_pairer where
  "started_pairer = initial_pairer\<lparr>kp_key := replicate 16 3, kp_key_id := 0x88,
    status := idle_status\<lparr>st_state := RUNNING, st_total := 8, st_job_id := ''p-5''\<rparr>\<rparr>"

definition quiet_address :: ble_address where
  "quiet_address = \<lparr>addr_text = ''b0:e9:fe:0a:0b:0c'', addr_type = 0\<rparr>"

definition quiet_log :: ble_log where
  "quiet_log = [EvScan 6000, EvCreateClient True, EvConnect quiet_address 10000 True,
    EvGetCharacteristics True True]"

lemma quiet_found:
  "case discover_keypad (quiet_keypad n) (pr_mac test_pair_request) 6000 [] of (a, _, log) \<Rightarrow>
    a = quiet_address \<and> log = [EvScan 6000]"
  by code_simp

lemma quiet_execute:
  "pair_execute (quiet_keypad n) stub_ciphers test_pair_request started_pairer [] =
    pair_session (quiet_keypad n) stub_ciphers test_pair_request (pair_set_step 0 started_pairer) quiet_log"
proof -
  obtain a i log where d: "discover_keypad (quiet_keypad n) (pr_mac test_pair_request) 6000 [] = (a, i, log)"
    by (metis prod_cases3)
  with quiet_found [of n] have "a = quiet_address" "log = [EvScan 6000]" by simp_all
  moreover have "quiet_address \<noteq> null_address" by (simp add: quiet_address_def null_address_def)
  ultimately show ?thesis
    using d by (simp add: pair_execute_def connect_switchbot_service_def quiet_log_def quiet_keypad_def
        answering_lock_def Let_def)
qed

lemma quiet_keypad_pairs:
  "case pair_session (quiet_keypad 100) stub_ciphers test_pair_request (pair_set_step 0 started_pairer)
      quiet_log of (p, log) \<Rightarrow> st_state (status p) = SUCCESS"
  by code_simp

lemma quiet_keypad_unfinalised:
  "case pair_session (quiet_keypad 7) stub_ciphers test_pair_request (pair_set_step 0 started_pairer)
      quiet_log of (p, log) \<Rightarrow> st_state (status p) = SUCCESS \<and> st_message (status p) = ''Keypad linked'' \<and>
      map snd (writes_of log) = replicate 7 True @ [False, False]"
  by code_simp


text \<open>
  A success that was not finalised: a keypad that answers nothing but the IV request, with a radio
  that refuses both finalising writes (the last two of nine), is reported as linked.
\<close>

theorem pairing_success_unfinalised:
  "case pair_execute (quiet_keypad 7) stub_ciphers test_pair_request started_pairer [] of
    (p, log) \<Rightarrow> st_state (status p) = SUCCESS \<and> st_message (status p) = ''Keypad linked'' \<and>
      map snd (writes_of log) = replicate 7 True @ [False, False]"
  unfolding quiet_execute by (rule quiet_keypad_unfinalised)

end
