(* ===== verification/Pairing_Ui.thy ===== *)
theory Pairing_Ui
  imports Wizard_Http Lock_Linker Keypad_Pairer
begin

text \<open>
  The setup wizard (\<open>pairing_ui.h\<close>, \<open>pairing_ui.cpp\<close>): its life cycle, the request handlers, and the
  observation of finished jobs from the main loop. A handler takes the request and what its calls to
  the outside return (clocks, cloud, radio), and returns the reply with the new state, or \<open>None\<close> if a
  cloud call never returns (see \<open>Cloud_Client\<close>).

  \<open>handle_pair\<close> and the pairing half of \<open>poll_jobs\<close> run in different tasks. They are the compositions
  of the pieces between their critical sections: \<open>pair_prepare\<close>, \<open>pair_launch\<close>, \<open>pair_bind\<close> and
  \<open>pairing_armed\<close>, \<open>job_state_of\<close>, \<open>pair_status_of\<close>, \<open>commit_pairing\<close>; the theory \<open>Wizard_Tasks\<close> interleaves
  these.
\<close>

subsection \<open>State\<close>

record wizard =
  wz_running :: bool
  wz_cloud :: cloud_client
  wz_pairer :: keypad_pairer
  wz_linker :: lock_linker
  wz_shared_key :: "byte list"
  wz_family :: keypad_family
  wz_html :: "string option"
  wz_keypad_paired :: bool
  wz_lock_linked :: bool
  wz_last_activity :: u32
  wz_pairing_name :: string
  wz_pairing_job :: string
  wz_success_notified :: bool
  wz_link_job :: string
  wz_link_notified :: bool
  wz_identified :: "string \<Rightarrow> keypad_ident option"

definition initial_wizard :: wizard where
  "initial_wizard =
    \<lparr>wz_running = False, wz_cloud = logged_out, wz_pairer = initial_pairer, wz_linker = initial_linker,
     wz_shared_key = replicate 16 0, wz_family = ORIGINAL, wz_html = None, wz_keypad_paired = False,
     wz_lock_linked = False, wz_last_activity = 0, wz_pairing_name = [], wz_pairing_job = [],
     wz_success_notified = False, wz_link_job = [], wz_link_notified = False, wz_identified = Map.empty\<rparr>"

text \<open>
  The outside of one request: \<open>millis()\<close>, \<open>esp_timer_get_time()\<close> and whether a task can be created when a
  job starts, cJSON, the network, the scan results and the device's own address.
\<close>

record wizard_env =
  we_millis :: u32
  we_timer :: nat
  we_task :: bool
  we_json :: json_lib
  we_http :: http_env
  we_adverts :: "nearby_advert list"
  we_own_addr :: "byte list"

subsection \<open>Life cycle\<close>

text \<open>\<open>httpd_start\<close> succeeds or not; registering the handlers cannot fail.\<close>

definition ui_start :: "bool \<Rightarrow> u32 \<Rightarrow> wizard \<Rightarrow> bool \<times> wizard" where
  "ui_start httpd_ok now w =
    (if wz_running w then (True, w)
     else if \<not> httpd_ok then (False, w)
     else (True, w\<lparr>wz_running := True, wz_last_activity := now\<rparr>))"

definition ui_stop :: "wizard \<Rightarrow> wizard" where
  "ui_stop w = w\<lparr>wz_running := False, wz_last_activity := 0\<rparr>"

definition stop_if_idle :: "u32 \<Rightarrow> u32 \<Rightarrow> wizard \<Rightarrow> bool \<times> wizard" where
  "stop_if_idle now_ms timeout_ms w =
    (if \<not> wz_running w then (False, w)
     else if wz_last_activity w = 0 \<or> now_ms - wz_last_activity w < timeout_ms then (False, w)
     else if job_state_of (wz_pairer w) = RUNNING \<or> job_state_of (wz_linker w) = RUNNING then (False, w)
     else (True, ui_stop w))"

definition IDLE_TIMEOUT_MS :: u32 where "IDLE_TIMEOUT_MS = 5 * 60 * 1000"

definition touch_activity :: "wizard_env \<Rightarrow> wizard \<Rightarrow> wizard" where
  "touch_activity env w = w\<lparr>wz_last_activity := we_millis env\<rparr>"

subsection \<open>Observing finished jobs\<close>

definition pairing_armed :: "wizard \<Rightarrow> (string \<times> string) option" where
  "pairing_armed w =
    (if \<not> wz_success_notified w \<and> wz_pairing_job w \<noteq> []
     then Some (wz_pairing_job w, wz_pairing_name w) else None)"

definition link_armed :: "wizard \<Rightarrow> string option" where
  "link_armed w = (if \<not> wz_link_notified w \<and> wz_link_job w \<noteq> [] then Some (wz_link_job w) else None)"

text \<open>The callback, if one is made: name, MAC and family of the paired keypad.\<close>

definition commit_pairing ::
  "string \<Rightarrow> string \<Rightarrow> pair_status \<Rightarrow> wizard \<Rightarrow> (string \<times> string \<times> keypad_family) option \<times> wizard" where
  "commit_pairing job name st w =
    (if st_job_id st \<noteq> job then (None, w)
     else if \<not> wz_success_notified w \<and> wz_pairing_job w = st_job_id st
     then (Some (name, ps_mac st, ps_family st), w\<lparr>wz_success_notified := True, wz_keypad_paired := True\<rparr>)
     else (None, w))"

definition commit_link ::
  "string \<Rightarrow> link_status \<Rightarrow> wizard \<Rightarrow> (string \<times> string \<times> physical_lock_model \<times> byte) option \<times> wizard" where
  "commit_link job st w =
    (if st_job_id st \<noteq> job then (None, w)
     else if \<not> wz_link_notified w \<and> wz_link_job w = st_job_id st
     then (Some (ls_name st, ls_mac st, ls_model st, ls_slot_id st),
           w\<lparr>wz_link_notified := True, wz_lock_linked := True\<rparr>)
     else (None, w))"

definition poll_jobs ::
  "wizard \<Rightarrow> (string \<times> string \<times> keypad_family) option \<times>
     (string \<times> string \<times> physical_lock_model \<times> byte) option \<times> wizard" where
  "poll_jobs w =
    (let pair_snapshot = pairing_armed w;
         link_snapshot = link_armed w;
         (paired, w1) =
           (case pair_snapshot of
              None \<Rightarrow> (None, w)
            | Some (job, name) \<Rightarrow>
                if job_state_of (wz_pairer w) = SUCCESS
                then commit_pairing job name (pair_status_of (wz_pairer w)) w else (None, w));
         (linked, w2) =
           (case link_snapshot of
              None \<Rightarrow> (None, w1)
            | Some job \<Rightarrow>
                if job_state_of (wz_linker w1) = SUCCESS
                then commit_link job (link_status_of (wz_linker w1)) w1 else (None, w1))
     in (paired, linked, w2))"

subsection \<open>Signing in and listing devices\<close>

type_synonym handled = "(http_reply \<times> wizard \<times> http_log) option"

definition handle_root :: "wizard_env \<Rightarrow> wizard \<Rightarrow> http_reply \<times> wizard" where
  "handle_root env w =
    (let w1 = touch_activity env w in
     (case wz_html w1 of
        Some html \<Rightarrow>
          if html = [] then reply_error (we_json env) ''500 Internal Server Error'' ''Setup UI was not embedded in this build.''
          else \<lparr>rp_status = ''200 OK'', rp_type = ''text/html; charset=utf-8'', rp_gzip = True, rp_body = html\<rparr>
      | None \<Rightarrow> reply_error (we_json env) ''500 Internal Server Error'' ''Setup UI was not embedded in this build.'',
      w1))"

definition handle_login :: "wizard_env \<Rightarrow> http_input \<Rightarrow> wizard \<Rightarrow> http_log \<Rightarrow> handled" where
  "handle_login env rq w log =
    (let w1 = touch_activity env w;
         jl = we_json env;
         body = read_body rq;
         email = extract_json_str jl body ''email'';
         password = extract_json_str jl body ''password''
     in if email = [] \<or> password = []
        then Some (reply_error jl ''400 Bad Request'' ''Missing email or password.'', w1, log)
        else do {
          (res, cloud, log1) \<leftarrow> login jl (we_http env) email password (wz_cloud w1) log;
          let w2 = w1\<lparr>wz_cloud := cloud\<rparr>;
          Some (case res of
              Inl err \<Rightarrow> (reply_error jl ''401 Unauthorized'' err, w2, log1)
            | Inr _ \<Rightarrow>
                (reply_ok (json_take jl (JObject
                   [(''region'', json_text (region cloud)), (''keypad_paired'', JBool (wz_keypad_paired w2)),
                    (''lock_linked'', JBool (wz_lock_linked w2))]) ''{}''), w2, log1))
        })"

text \<open>The loop of \<open>/api/keypads\<close>: the devices in range that are, or once were, identified as keypads.\<close>

definition identify_nearby ::
  "account_device \<Rightarrow> nearby_device \<Rightarrow> (string \<Rightarrow> keypad_ident option) \<Rightarrow> keypad_ident \<times> (string \<Rightarrow> keypad_ident option)" where
  "identify_nearby k hit identified =
    (let ident = identify_keypad (Some (nd_svc_data hit))
     in if is_keypad ident then (ident, identified(ad_mac_pretty k \<mapsto> ident))
        else (case identified (ad_mac_pretty k) of Some i \<Rightarrow> (i, identified) | None \<Rightarrow> (ident, identified)))"

fun list_keypads ::
  "(string \<Rightarrow> nearby_device option) \<Rightarrow> account_device list \<Rightarrow> (string \<Rightarrow> keypad_ident option) \<Rightarrow>
    json list \<times> (string \<Rightarrow> keypad_ident option)" where
  "list_keypads nearby [] identified = ([], identified)"
| "list_keypads nearby (k # ks) identified =
    (case nearby (ad_mac_pretty k) of
       None \<Rightarrow> list_keypads nearby ks identified
     | Some hit \<Rightarrow>
         let (ident, identified') = identify_nearby k hit identified;
             (rest, identified'') = list_keypads nearby ks identified'
         in if \<not> is_keypad ident then (rest, identified'')
            else (JObject
                    [(''mac'', json_text (ad_mac_pretty k)), (''name'', json_text (ad_name k)),
                     (''family'', json_text (keypad_family_str (ident_family ident))),
                     (''online'', JBool True), (''rssi'', JNumber (nd_rssi hit))] # rest, identified''))"

definition handle_keypads :: "wizard_env \<Rightarrow> wizard \<Rightarrow> http_log \<Rightarrow> handled" where
  "handle_keypads env w log =
    (let w1 = touch_activity env w; jl = we_json env
     in if \<not> is_logged_in (wz_cloud w1)
        then Some (reply_error jl ''401 Unauthorized'' ''Sign in first.'', w1, log)
        else do {
          (res, cloud, log1) \<leftarrow> list_devices jl (we_http env) False (wz_cloud w1) log;
          let w2 = w1\<lparr>wz_cloud := cloud\<rparr>;
          Some (case res of
              Inl err \<Rightarrow> (reply_error jl ''502 Bad Gateway'' err, w2, log1)
            | Inr devices \<Rightarrow>
                (case list_keypads (scan_nearby (we_adverts env)) devices (wz_identified w2) of
                   (shown, identified) \<Rightarrow>
                     (reply_ok (json_take jl (JArray shown) ''[]''), w2\<lparr>wz_identified := identified\<rparr>, log1)))
        })"

definition lock_json :: "(string \<Rightarrow> nearby_device option) \<Rightarrow> account_device \<Rightarrow> json option" where
  "lock_json nearby d =
    (let model = physical_lock_model_from_api_type (ad_device_type d)
     in if model = MODEL_UNKNOWN then None
        else Some (JObject
          [(''mac'', json_text (ad_mac_pretty d)), (''name'', json_text (ad_name d)),
           (''model'', json_text (physical_lock_model_str model)),
           (''device_type'', json_text (ad_device_type d)),
           (''online'', JBool (nearby (ad_mac_pretty d) \<noteq> None)),
           (''rssi'', case nearby (ad_mac_pretty d) of Some hit \<Rightarrow> JNumber (nd_rssi hit) | None \<Rightarrow> JNull)]))"

definition handle_locks :: "wizard_env \<Rightarrow> wizard \<Rightarrow> http_log \<Rightarrow> handled" where
  "handle_locks env w log =
    (let w1 = touch_activity env w; jl = we_json env
     in if \<not> is_logged_in (wz_cloud w1)
        then Some (reply_error jl ''401 Unauthorized'' ''Sign in first.'', w1, log)
        else if \<not> wz_keypad_paired w1
        then Some (reply_error jl ''409 Conflict'' ''Link a keypad before linking a lock.'', w1, log)
        else do {
          (res, cloud, log1) \<leftarrow> list_devices jl (we_http env) False (wz_cloud w1) log;
          let w2 = w1\<lparr>wz_cloud := cloud\<rparr>;
          Some (case res of
              Inl err \<Rightarrow> (reply_error jl ''502 Bad Gateway'' err, w2, log1)
            | Inr devices \<Rightarrow>
                (reply_ok (json_take jl (JArray (List.map_filter (lock_json (scan_nearby (we_adverts env))) devices))
                   ''[]''), w2, log1))
        })"

subsection \<open>Starting a pairing\<close>

text \<open>
  \<open>/api/pair\<close> up to the call of \<open>start\<close>: an error reply, or the request for the pairer with the name
  captured for the job.
\<close>

definition pair_request_for :: "wizard_env \<Rightarrow> keypad_family \<Rightarrow> account_device \<Rightarrow> byte \<Rightarrow> byte list \<Rightarrow> wizard \<Rightarrow> pair_request" where
  "pair_request_for env family d key_id key w =
    \<lparr>pr_mac = ad_mac_pretty d, pr_family = family, pr_key_id = uint key_id, pr_key = key,
     pr_shared_token = wz_shared_key w, pr_esp_mac = addr_bytes (we_own_addr env)\<rparr>"

definition ALREADY_PAIRED :: string where
  "ALREADY_PAIRED = ''A keypad is already linked to this bridge. Press the Reset button to start over.''"

definition pair_prepare ::
  "wizard_env \<Rightarrow> http_input \<Rightarrow> wizard \<Rightarrow> http_log \<Rightarrow>
    ((http_reply + (pair_request \<times> string)) \<times> wizard \<times> http_log) option" where
  "pair_prepare env rq w log =
    (let w1 = touch_activity env w;
         jl = we_json env;
         body = read_body rq;
         mac = extract_json_str jl body ''mac'';
         family = keypad_family_from_str (Some (extract_json_str jl body ''family''))
     in if mac = [] then Some (Inl (reply_error jl ''400 Bad Request'' ''Missing keypad mac.''), w1, log)
        else if \<not> is_logged_in (wz_cloud w1)
        then Some (Inl (reply_error jl ''401 Unauthorized'' ''Sign in first.''), w1, log)
        else if wz_keypad_paired w1
        then Some (Inl (reply_error jl ''409 Conflict'' ALREADY_PAIRED), w1, log)
        else do {
          (res, cloud, log1) \<leftarrow> list_devices jl (we_http env) False (wz_cloud w1) log;
          let w2 = w1\<lparr>wz_cloud := cloud\<rparr>;
          (case res of
             Inl err \<Rightarrow> Some (Inl (reply_error jl ''502 Bad Gateway'' err), w2, log1)
           | Inr devices \<Rightarrow>
               (case find_account_device devices mac of
                  None \<Rightarrow> Some (Inl (reply_error jl ''404 Not Found'' ''Keypad not in this SwitchBot account.''), w2, log1)
                | Some d \<Rightarrow>
                    do {
                      (keyed, log2) \<leftarrow> fetch_comm_key_16 jl (we_http env) (wz_cloud w2) d ''keypad'' log1;
                      Some (case keyed of
                          Inl err \<Rightarrow> Inl (reply_error jl ''502 Bad Gateway'' err)
                        | Inr (key_id, key) \<Rightarrow> Inr (pair_request_for env family d key_id key w2, ad_name d), w2, log2)
                    }))
        })"

definition pair_launch :: "wizard_env \<Rightarrow> pair_request \<Rightarrow> wizard \<Rightarrow> string \<times> wizard" where
  "pair_launch env kr w =
    (case pairer_start (we_timer env) (we_task env) kr (wz_pairer w) of
       (job_id, p) \<Rightarrow> (job_id, w\<lparr>wz_pairer := p\<rparr>))"

definition pair_bind :: "string \<Rightarrow> string \<Rightarrow> wizard \<Rightarrow> wizard" where
  "pair_bind job_id keypad_name w =
    w\<lparr>wz_pairing_name := keypad_name, wz_pairing_job := job_id, wz_success_notified := False\<rparr>"

definition handle_pair :: "wizard_env \<Rightarrow> http_input \<Rightarrow> wizard \<Rightarrow> http_log \<Rightarrow> handled" where
  "handle_pair env rq w log =
    do {
      (res, w1, log1) \<leftarrow> pair_prepare env rq w log;
      Some (case res of
          Inl reply \<Rightarrow> (reply, w1, log1)
        | Inr (kr, keypad_name) \<Rightarrow>
            (case pair_launch env kr w1 of
               (job_id, w2) \<Rightarrow>
                 if job_id = []
                 then (reply_error (we_json env) ''409 Conflict'' ''A keypad link job is already in progress.'', w2, log1)
                 else (reply_ok (job_started_json (we_json env) job_id (pair_step_count (pr_family kr))
                         (pair_step_label (pr_family kr))), pair_bind job_id keypad_name w2, log1)))
    }"

subsection \<open>Starting a lock link\<close>

definition ALREADY_LINKED :: string where
  "ALREADY_LINKED = ''A lock is already linked to this bridge. Press the Reset button to start over.''"

definition link_request_for :: "account_device \<Rightarrow> byte \<Rightarrow> byte list \<Rightarrow> wizard \<Rightarrow> link_request" where
  "link_request_for d lock_key_id lock_key w =
    \<lparr>lr_name = ad_name d, lr_mac = ad_mac_pretty d,
     lr_model = physical_lock_model_from_api_type (ad_device_type d), lr_shared_key = wz_shared_key w,
     lr_shared_slot_id = shared_slot_for_family (wz_family w), lr_lock_key_id = lock_key_id,
     lr_lock_key = lock_key\<rparr>"

definition link_prepare ::
  "wizard_env \<Rightarrow> http_input \<Rightarrow> wizard \<Rightarrow> http_log \<Rightarrow> ((http_reply + link_request) \<times> wizard \<times> http_log) option" where
  "link_prepare env rq w log =
    (let w1 = touch_activity env w;
         jl = we_json env;
         mac = extract_json_str jl (read_body rq) ''mac''
     in if mac = [] then Some (Inl (reply_error jl ''400 Bad Request'' ''Missing lock mac.''), w1, log)
        else if \<not> is_logged_in (wz_cloud w1)
        then Some (Inl (reply_error jl ''401 Unauthorized'' ''Sign in first.''), w1, log)
        else if \<not> wz_keypad_paired w1
        then Some (Inl (reply_error jl ''409 Conflict'' ''Link a keypad before linking a lock.''), w1, log)
        else if wz_lock_linked w1
        then Some (Inl (reply_error jl ''409 Conflict'' ALREADY_LINKED), w1, log)
        else do {
          (res, cloud, log1) \<leftarrow> list_devices jl (we_http env) False (wz_cloud w1) log;
          let w2 = w1\<lparr>wz_cloud := cloud\<rparr>;
          (case res of
             Inl err \<Rightarrow> Some (Inl (reply_error jl ''502 Bad Gateway'' err), w2, log1)
           | Inr devices \<Rightarrow>
               (case find_account_device devices mac of
                  None \<Rightarrow> Some (Inl (reply_error jl ''404 Not Found'' ''Lock not in this SwitchBot account.''), w2, log1)
                | Some d \<Rightarrow>
                    if physical_lock_model_from_api_type (ad_device_type d) = MODEL_UNKNOWN
                    then Some (Inl (reply_error jl ''400 Bad Request'' ''This SwitchBot device is not a supported Lock.''), w2, log1)
                    else do {
                      (keyed, log2) \<leftarrow> fetch_comm_key_16 jl (we_http env) (wz_cloud w2) d ''lock provisioning'' log1;
                      Some (case keyed of
                          Inl err \<Rightarrow> Inl (reply_error jl ''502 Bad Gateway'' err)
                        | Inr (key_id, key) \<Rightarrow> Inr (link_request_for d key_id key w2), w2, log2)
                    }))
        })"

definition link_launch :: "wizard_env \<Rightarrow> link_request \<Rightarrow> wizard \<Rightarrow> string \<times> wizard" where
  "link_launch env lr w =
    (case linker_start (we_timer env) (we_task env) lr (wz_linker w) of
       (job_id, j) \<Rightarrow> (job_id, w\<lparr>wz_linker := j\<rparr>))"

definition link_bind :: "string \<Rightarrow> wizard \<Rightarrow> wizard" where
  "link_bind job_id w = w\<lparr>wz_link_job := job_id, wz_link_notified := False\<rparr>"

definition handle_lock_link :: "wizard_env \<Rightarrow> http_input \<Rightarrow> wizard \<Rightarrow> http_log \<Rightarrow> handled" where
  "handle_lock_link env rq w log =
    do {
      (res, w1, log1) \<leftarrow> link_prepare env rq w log;
      Some (case res of
          Inl reply \<Rightarrow> (reply, w1, log1)
        | Inr lr \<Rightarrow>
            (case link_launch env lr w1 of
               (job_id, w2) \<Rightarrow>
                 if job_id = []
                 then (reply_error (we_json env) ''409 Conflict'' ''A lock-link job is already in progress.'', w2, log1)
                 else (reply_ok (job_started_json (we_json env) job_id LINK_STEP_COUNT link_step_label),
                       link_bind job_id w2, log1)))
    }"

subsection \<open>Job status\<close>

definition handle_pair_status :: "wizard_env \<Rightarrow> wizard \<Rightarrow> http_reply \<times> wizard" where
  "handle_pair_status env w =
    (let w1 = touch_activity env w
     in (reply_ok (job_status_json (we_json env) (pair_status_of (wz_pairer w1))), w1))"

definition handle_lock_link_status :: "wizard_env \<Rightarrow> wizard \<Rightarrow> http_reply \<times> wizard" where
  "handle_lock_link_status env w =
    (let w1 = touch_activity env w
     in (reply_ok (job_status_json (we_json env) (link_status_of (wz_linker w1))), w1))"

subsection \<open>Routes\<close>

datatype http_method = GET | POST

text \<open>The table \<open>start\<close> registers; the server itself answers what is not in it.\<close>

definition handle_request ::
  "wizard_env \<Rightarrow> http_method \<Rightarrow> string \<Rightarrow> http_input \<Rightarrow> wizard \<Rightarrow> http_log \<Rightarrow> handled option" where
  "handle_request env m uri rq w log =
    (let now = (\<lambda>(reply, w'). Some (reply, w', log)) in
     if (uri, m) = (''/'', GET) then Some (now (handle_root env w))
     else if (uri, m) = (''/api/login'', POST) then Some (handle_login env rq w log)
     else if (uri, m) = (''/api/keypads'', GET) then Some (handle_keypads env w log)
     else if (uri, m) = (''/api/pair'', POST) then Some (handle_pair env rq w log)
     else if (uri, m) = (''/api/pair/status'', GET) then Some (now (handle_pair_status env w))
     else if (uri, m) = (''/api/locks'', GET) then Some (handle_locks env w log)
     else if (uri, m) = (''/api/lock/link'', POST) then Some (handle_lock_link env rq w log)
     else if (uri, m) = (''/api/lock/link/status'', GET) then Some (now (handle_lock_link_status env w))
     else None)"

subsection \<open>What a request may change\<close>

text \<open>A request that starts nothing: it signs in, fills caches and counts as activity.\<close>

definition browses :: "wizard_env \<Rightarrow> wizard \<Rightarrow> wizard \<Rightarrow> bool" where
  "browses env w w' \<longleftrightarrow>
    (\<exists>cloud idents. w' = w\<lparr>wz_cloud := cloud, wz_identified := idents, wz_last_activity := we_millis env\<rparr>)"

lemma browsesI: "browses env w (w\<lparr>wz_last_activity := we_millis env, wz_cloud := cloud\<rparr>)"
  "browses env w (w\<lparr>wz_last_activity := we_millis env\<rparr>)"
  "browses env w (w\<lparr>wz_last_activity := we_millis env, wz_cloud := cloud, wz_identified := idents\<rparr>)"
  unfolding browses_def
    apply (rule exI [where x = cloud], rule exI [where x = "wz_identified w"], simp)
   apply (rule exI [where x = "wz_cloud w"], rule exI [where x = "wz_identified w"], simp)
  apply (rule exI [where x = cloud], rule exI [where x = idents], simp)
  done

lemma handle_login_browses:
  assumes "handle_login env rq w log = Some (r, w', log')"
  shows "browses env w w'"
proof (cases "extract_json_str (we_json env) (read_body rq) ''email'' = [] \<or> extract_json_str (we_json env) (read_body rq) ''password'' = []")
  case True
  with assms show ?thesis by (auto simp: handle_login_def touch_activity_def Let_def browsesI split: if_splits)
next
  case False
  with assms obtain res cloud log1 where
    l: "login (we_json env) (we_http env) (extract_json_str (we_json env) (read_body rq) ''email'')
      (extract_json_str (we_json env) (read_body rq) ''password'') (wz_cloud w) log = Some (res, cloud, log1)"
    by (auto simp: handle_login_def touch_activity_def Let_def bind_eq_Some_conv)
  with assms False show ?thesis
    by (cases res) (auto simp: handle_login_def touch_activity_def Let_def browsesI)
qed

lemma handle_keypads_browses:
  assumes "handle_keypads env w log = Some (r, w', log')"
  shows "browses env w w'"
proof (cases "\<not> is_logged_in (wz_cloud w)")
  case True
  with assms show ?thesis by (auto simp: handle_keypads_def touch_activity_def Let_def browsesI split: if_splits)
next
  case False
  with assms obtain res cloud log1 where
    l: "list_devices (we_json env) (we_http env) False (wz_cloud w) log = Some (res, cloud, log1)"
    by (auto simp: handle_keypads_def touch_activity_def Let_def bind_eq_Some_conv)
  with assms False show ?thesis
    by (cases res) (auto simp: handle_keypads_def touch_activity_def Let_def browsesI split: prod.splits)
qed

lemma handle_locks_browses:
  assumes "handle_locks env w log = Some (r, w', log')"
  shows "browses env w w'"
proof (cases "\<not> is_logged_in (wz_cloud w) \<or> \<not> wz_keypad_paired w")
  case True
  with assms show ?thesis by (auto simp: handle_locks_def touch_activity_def Let_def browsesI split: if_splits)
next
  case False
  with assms obtain res cloud log1 where
    l: "list_devices (we_json env) (we_http env) False (wz_cloud w) log = Some (res, cloud, log1)"
    by (auto simp: handle_locks_def touch_activity_def Let_def bind_eq_Some_conv)
  with assms False show ?thesis
    by (cases res) (auto simp: handle_locks_def touch_activity_def Let_def browsesI)
qed

lemma handle_now_browses:
  "handle_root env w = (r, w') \<Longrightarrow> browses env w w'"
  "handle_pair_status env w = (r, w') \<Longrightarrow> browses env w w'"
  "handle_lock_link_status env w = (r, w') \<Longrightarrow> browses env w w'"
  by (auto simp: handle_root_def handle_pair_status_def handle_lock_link_status_def touch_activity_def
      Let_def browsesI)

text \<open>The account device behind a job: it is in the list the cloud gave for this very request.\<close>

definition listed_device :: "wizard_env \<Rightarrow> wizard \<Rightarrow> http_log \<Rightarrow> account_device \<Rightarrow> bool" where
  "listed_device env w log d \<longleftrightarrow>
    (\<exists>devices cloud log1. list_devices (we_json env) (we_http env) False (wz_cloud w) log = Some (Inr devices, cloud, log1) \<and>
      d \<in> set devices)"

lemma find_account_device_in: "find_account_device devices mac = Some d \<Longrightarrow> d \<in> set devices"
  by (auto simp: find_account_device_def find_Some_iff)

lemma fetch_comm_key_length:
  assumes "fetch_comm_key_16 jl env cloud d label log = Some (Inr (key_id, key), log')"
  shows "length key = 16"
proof -
  from assms obtain res log1 where "fetch_device_key jl env (ad_mac d) cloud log = Some (res, log1)"
    by (auto simp: fetch_comm_key_16_def bind_eq_Some_conv)
  with assms show ?thesis
    by (cases res) (auto simp: fetch_comm_key_16_def split: if_splits option.splits)
qed

lemma pair_prepare_cases:
  assumes "pair_prepare env rq w log = Some (res, w', log')"
  shows "browses env w w' \<and>
    (case res of
       Inl reply \<Rightarrow> True
     | Inr (kr, keypad_name) \<Rightarrow> is_logged_in (wz_cloud w) \<and> \<not> wz_keypad_paired w \<and>
         (\<exists>d key_id key. listed_device env w log d \<and> length key = 16 \<and> keypad_name = ad_name d \<and>
           kr = pair_request_for env
             (keypad_family_from_str (Some (extract_json_str (we_json env) (read_body rq) ''family''))) d key_id key w))"
proof (cases "extract_json_str (we_json env) (read_body rq) ''mac'' = [] \<or> \<not> is_logged_in (wz_cloud w) \<or> wz_keypad_paired w")
  case True
  with assms show ?thesis by (auto simp: pair_prepare_def touch_activity_def Let_def browsesI split: if_splits)
next
  case False
  with assms obtain listed cloud log1 where
    l: "list_devices (we_json env) (we_http env) False (wz_cloud w) log = Some (listed, cloud, log1)"
    by (auto simp: pair_prepare_def touch_activity_def Let_def bind_eq_Some_conv)
  show ?thesis
  proof (cases listed)
    case (Inl err)
    with assms False l show ?thesis by (auto simp: pair_prepare_def touch_activity_def Let_def browsesI)
  next
    case (Inr devices)
    show ?thesis
    proof (cases "find_account_device devices (extract_json_str (we_json env) (read_body rq) ''mac'')")
      case None
      with assms False l Inr show ?thesis by (auto simp: pair_prepare_def touch_activity_def Let_def browsesI)
    next
      case (Some d)
      with assms False l Inr obtain keyed log2 where
        k: "fetch_comm_key_16 (we_json env) (we_http env) cloud d ''keypad'' log1 = Some (keyed, log2)"
        by (auto simp: pair_prepare_def touch_activity_def Let_def bind_eq_Some_conv)
      have dev: "listed_device env w log d"
        using l Inr find_account_device_in [OF Some] by (auto simp: listed_device_def)
      show ?thesis
      proof (cases keyed)
        case (Inl err)
        with assms False l Inr Some k show ?thesis
          by (auto simp: pair_prepare_def touch_activity_def Let_def browsesI)
      next
        case (Inr kk)
        obtain key_id key where kk: "kk = (key_id, key)" by force
        have "length key = 16" using fetch_comm_key_length k Inr kk by blast
        moreover have "res = Inr (pair_request_for env
              (keypad_family_from_str (Some (extract_json_str (we_json env) (read_body rq) ''family''))) d key_id key w,
            ad_name d) \<and> browses env w w'"
          using assms False l \<open>listed = _\<close> Some k Inr kk
          by (auto simp: pair_prepare_def touch_activity_def Let_def browsesI pair_request_for_def)
        ultimately show ?thesis using False dev by auto
      qed
    qed
  qed
qed

lemma link_prepare_cases:
  assumes "link_prepare env rq w log = Some (res, w', log')"
  shows "browses env w w' \<and>
    (case res of
       Inl reply \<Rightarrow> True
     | Inr lr \<Rightarrow> is_logged_in (wz_cloud w) \<and> wz_keypad_paired w \<and> \<not> wz_lock_linked w \<and>
         (\<exists>d key_id key. listed_device env w log d \<and> length key = 16 \<and> lr = link_request_for d key_id key w \<and>
           lr_model lr \<noteq> MODEL_UNKNOWN))"
proof (cases "extract_json_str (we_json env) (read_body rq) ''mac'' = [] \<or> \<not> is_logged_in (wz_cloud w) \<or>
    \<not> wz_keypad_paired w \<or> wz_lock_linked w")
  case True
  with assms show ?thesis by (auto simp: link_prepare_def touch_activity_def Let_def browsesI split: if_splits)
next
  case False
  with assms obtain listed cloud log1 where
    l: "list_devices (we_json env) (we_http env) False (wz_cloud w) log = Some (listed, cloud, log1)"
    by (auto simp: link_prepare_def touch_activity_def Let_def bind_eq_Some_conv)
  show ?thesis
  proof (cases listed)
    case (Inl err)
    with assms False l show ?thesis by (auto simp: link_prepare_def touch_activity_def Let_def browsesI)
  next
    case (Inr devices)
    show ?thesis
    proof (cases "find_account_device devices (extract_json_str (we_json env) (read_body rq) ''mac'')")
      case None
      with assms False l Inr show ?thesis by (auto simp: link_prepare_def touch_activity_def Let_def browsesI)
    next
      case (Some d)
      have dev: "listed_device env w log d"
        using l Inr find_account_device_in [OF Some] by (auto simp: listed_device_def)
      show ?thesis
      proof (cases "physical_lock_model_from_api_type (ad_device_type d) = MODEL_UNKNOWN")
        case True
        with assms False l Inr Some show ?thesis
          by (auto simp: link_prepare_def touch_activity_def Let_def browsesI)
      next
        case known: False
        with assms False l Inr Some obtain keyed log2 where
          k: "fetch_comm_key_16 (we_json env) (we_http env) cloud d ''lock provisioning'' log1 = Some (keyed, log2)"
          by (auto simp: link_prepare_def touch_activity_def Let_def bind_eq_Some_conv)
        show ?thesis
        proof (cases keyed)
          case (Inl err)
          with assms False l Inr Some k known show ?thesis
            by (auto simp: link_prepare_def touch_activity_def Let_def browsesI)
        next
          case (Inr kk)
          obtain key_id key where kk: "kk = (key_id, key)" by force
          have "length key = 16" using fetch_comm_key_length k Inr kk by blast
          moreover have "res = Inr (link_request_for d key_id key w) \<and> browses env w w'"
            using assms False l \<open>listed = _\<close> Some k Inr kk known
            by (auto simp: link_prepare_def touch_activity_def Let_def browsesI link_request_for_def)
          ultimately show ?thesis using False dev known by (auto simp: link_request_for_def)
        qed
      qed
    qed
  qed
qed

text \<open>
  A request that tried to start a job: the gates were open, the device is one the account listed, the
  request of the job is built from it, and the id is bound only if the job did start.
\<close>

definition tried_pairing ::
  "wizard_env \<Rightarrow> http_input \<Rightarrow> wizard \<Rightarrow> http_log \<Rightarrow> account_device \<Rightarrow> byte \<Rightarrow> byte list \<Rightarrow> string \<Rightarrow> wizard \<Rightarrow> wizard \<Rightarrow> bool" where
  "tried_pairing env rq w log d key_id key job w1 w' \<longleftrightarrow>
    is_logged_in (wz_cloud w) \<and> \<not> wz_keypad_paired w \<and> listed_device env w log d \<and> length key = 16 \<and>
    browses env w w1 \<and>
    (\<exists>p'. pairer_start (we_timer env) (we_task env)
        (pair_request_for env (keypad_family_from_str (Some (extract_json_str (we_json env) (read_body rq) ''family'')))
          d key_id key w) (wz_pairer w) = (job, p') \<and>
      w' = (if job = [] then w1\<lparr>wz_pairer := p'\<rparr>
            else w1\<lparr>wz_pairer := p', wz_pairing_name := ad_name d, wz_pairing_job := job,
                    wz_success_notified := False\<rparr>))"

definition tried_link ::
  "wizard_env \<Rightarrow> wizard \<Rightarrow> http_log \<Rightarrow> account_device \<Rightarrow> byte \<Rightarrow> byte list \<Rightarrow> string \<Rightarrow> wizard \<Rightarrow> wizard \<Rightarrow> bool" where
  "tried_link env w log d key_id key job w1 w' \<longleftrightarrow>
    is_logged_in (wz_cloud w) \<and> wz_keypad_paired w \<and> \<not> wz_lock_linked w \<and> listed_device env w log d \<and>
    length key = 16 \<and> physical_lock_model_from_api_type (ad_device_type d) \<noteq> MODEL_UNKNOWN \<and>
    browses env w w1 \<and>
    (\<exists>j'. linker_start (we_timer env) (we_task env) (link_request_for d key_id key w) (wz_linker w) = (job, j') \<and>
      w' = (if job = [] then w1\<lparr>wz_linker := j'\<rparr>
            else w1\<lparr>wz_linker := j', wz_link_job := job, wz_link_notified := False\<rparr>))"

definition jobs_started :: "wizard_env \<Rightarrow> http_input \<Rightarrow> wizard \<Rightarrow> http_log \<Rightarrow> string \<Rightarrow> wizard \<Rightarrow> bool" where
  "jobs_started env rq w log uri w' \<longleftrightarrow>
    browses env w w' \<or>
    (uri = ''/api/pair'' \<and> (\<exists>d key_id key job w1. tried_pairing env rq w log d key_id key job w1 w')) \<or>
    (uri = ''/api/lock/link'' \<and> (\<exists>d key_id key job w1. tried_link env w log d key_id key job w1 w'))"

lemma browses_jobs:
  assumes "browses env w w'"
  shows "wz_pairer w' = wz_pairer w" "wz_linker w' = wz_linker w"
  using assms by (auto simp: browses_def)

lemma handle_pair_starts:
  assumes "handle_pair env rq w log = Some (r, w', log')"
  shows "jobs_started env rq w log ''/api/pair'' w'"
proof -
  obtain res w1 log1 where p: "pair_prepare env rq w log = Some (res, w1, log1)"
    using assms by (auto simp: handle_pair_def bind_eq_Some_conv)
  note cases = pair_prepare_cases [OF p]
  show ?thesis
  proof (cases res)
    case (Inl reply)
    with assms p cases show ?thesis by (auto simp: handle_pair_def jobs_started_def)
  next
    case (Inr kn)
    obtain kr keypad_name where kn: "kn = (kr, keypad_name)" by force
    obtain job p' where s: "pairer_start (we_timer env) (we_task env) kr (wz_pairer w) = (job, p')" by force
    have "w' = (if job = [] then w1\<lparr>wz_pairer := p'\<rparr> else pair_bind job keypad_name (w1\<lparr>wz_pairer := p'\<rparr>))"
      using assms p Inr kn s browses_jobs cases
      by (auto simp: handle_pair_def pair_launch_def split: if_splits)
    moreover obtain d key_id key where "listed_device env w log d" "length key = 16" "keypad_name = ad_name d"
      "kr = pair_request_for env (keypad_family_from_str
        (Some (extract_json_str (we_json env) (read_body rq) ''family''))) d key_id key w"
      using cases Inr kn by auto
    ultimately have "tried_pairing env rq w log d key_id key job w1 w'"
      using cases Inr kn s by (simp add: tried_pairing_def pair_bind_def)
    then show ?thesis by (auto simp: jobs_started_def)
  qed
qed

lemma handle_lock_link_starts:
  assumes "handle_lock_link env rq w log = Some (r, w', log')"
  shows "jobs_started env rq w log ''/api/lock/link'' w'"
proof -
  obtain res w1 log1 where p: "link_prepare env rq w log = Some (res, w1, log1)"
    using assms by (auto simp: handle_lock_link_def bind_eq_Some_conv)
  note cases = link_prepare_cases [OF p]
  show ?thesis
  proof (cases res)
    case (Inl reply)
    with assms p cases show ?thesis by (auto simp: handle_lock_link_def jobs_started_def)
  next
    case (Inr lr)
    obtain job j' where s: "linker_start (we_timer env) (we_task env) lr (wz_linker w) = (job, j')" by force
    have "w' = (if job = [] then w1\<lparr>wz_linker := j'\<rparr> else link_bind job (w1\<lparr>wz_linker := j'\<rparr>))"
      using assms p Inr s browses_jobs cases
      by (auto simp: handle_lock_link_def link_launch_def split: if_splits)
    moreover obtain d key_id key where "listed_device env w log d" "length key = 16"
      "lr = link_request_for d key_id key w" "physical_lock_model_from_api_type (ad_device_type d) \<noteq> MODEL_UNKNOWN"
      using cases Inr by (auto simp: link_request_for_def)
    ultimately have "tried_link env w log d key_id key job w1 w'"
      using cases Inr s by (simp add: tried_link_def link_bind_def)
    then show ?thesis by (auto simp: jobs_started_def)
  qed
qed


subsection \<open>Closing an idle wizard\<close>

lemma stop_if_idle_fields:
  "stop_if_idle now timeout w = (stopped, w') \<Longrightarrow>
    w' = (if stopped then w\<lparr>wz_running := False, wz_last_activity := 0\<rparr> else w)"
  by (auto simp: stop_if_idle_def ui_stop_def split: if_splits)


subsection \<open>Every request is answered\<close>

text \<open>
  C18. Every request of the wizard is answered: for each address in the table, whatever is in the body
  and whatever the cloud, the radio and the keypads do, the handler returns a reply, as long as the
  tick counter runs as FreeRTOS documents (at any rate from 5 Hz to 400 kHz). The address table is the
  eight pairs the wizard registers.
\<close>

theorem every_request_answered:
  assumes "ticking (we_http env)" "5 \<le> unat (he_hz (we_http env))" "unat (he_hz (we_http env)) \<le> 400000"
  shows "handle_request env m uri rq w log \<noteq> Some None \<and>
    (handle_request env m uri rq w log = None \<longleftrightarrow> (uri, m) \<notin>
      {(''/'', GET), (''/api/login'', POST), (''/api/keypads'', GET), (''/api/pair'', POST),
       (''/api/pair/status'', GET), (''/api/locks'', GET), (''/api/lock/link'', POST),
       (''/api/lock/link/status'', GET)})"
proof -
  define L where "L jl e p c lg = the (login jl (we_http env) e p c lg)" for jl e p c lg
  define D where "D jl f c lg = the (list_devices jl (we_http env) f c lg)" for jl f c lg
  define K where "K jl mac c lg = the (fetch_device_key jl (we_http env) mac c lg)" for jl mac c lg
  have l: "login jl (we_http env) e p c lg = Some (L jl e p c lg)"
    and d: "list_devices jl (we_http env) f c lg = Some (D jl f c lg)"
    and k: "fetch_device_key jl (we_http env) mac c lg = Some (K jl mac c lg)" for jl e p c lg f mac
    using cloud_calls_return [OF assms] unfolding L_def D_def K_def by (metis option.collapse)+
  have "handle_login env rq w log \<noteq> None"
    by (simp add: handle_login_def Let_def l split: prod.split sum.split)
  moreover have "handle_keypads env w log \<noteq> None"
    by (simp add: handle_keypads_def Let_def d split: prod.split sum.split)
  moreover have "handle_locks env w log \<noteq> None"
    by (simp add: handle_locks_def Let_def d split: prod.split sum.split)
  moreover have "pair_prepare env rq w log \<noteq> None"
    by (simp add: pair_prepare_def fetch_comm_key_16_def Let_def d k split: prod.split sum.split option.split)
  then have "handle_pair env rq w log \<noteq> None"
    by (auto simp: handle_pair_def split: prod.splits sum.split)
  moreover have "link_prepare env rq w log \<noteq> None"
    by (simp add: link_prepare_def fetch_comm_key_16_def Let_def d k split: prod.split sum.split option.split)
  then have "handle_lock_link env rq w log \<noteq> None"
    by (auto simp: handle_lock_link_def split: prod.splits sum.split)
  ultimately show ?thesis
    unfolding handle_request_def Let_def by (auto split: prod.splits)
qed

subsection \<open>A concrete wizard\<close>

definition test_wizard :: wizard where
  "test_wizard = initial_wizard\<lparr>wz_running := True, wz_last_activity := 7,
     wz_cloud := logged_out\<lparr>auth_token := ''token'', region := ''eu''\<rparr>\<rparr>"

definition test_wizard_env :: wizard_env where
  "test_wizard_env = \<lparr>we_millis = 1000, we_timer = 5000, we_task = True, we_json = test_json, we_http = online,
     we_adverts = [], we_own_addr = [3, 2, 1, 0xFE, 0xE9, 0xB0]\<rparr>"

definition test_body :: http_input where
  "test_body = \<lparr>rq_content_len = 0, rq_recv = (\<lambda>_ _. None)\<rparr>"

definition test_device :: account_device where
  "test_device = \<lparr>ad_mac = ''B0E9FE612E75'', ad_mac_pretty = ''B0:E9:FE:61:2E:75'',
     ad_name = ''B0:E9:FE:61:2E:75'', ad_device_type = []\<rparr>"

lemma test_fields: "extract_json_str test_json body ''mac'' = ''B0E9FE612E75''"
  "extract_json_str test_json body ''family'' = ''vision''"
  by (simp_all add: extract_json_str_def test_json_def c_str_def)

lemma test_key_id: "parse_key_id_hex ''C6'' = Some 0xC6"
  by code_simp

lemma test_pair_prepare:
  assumes "is_logged_in (wz_cloud w)" "devices_cache (wz_cloud w) \<in> {[], [test_device]}" "\<not> wz_keypad_paired w"
  shows "\<exists>log'. pair_prepare test_wizard_env test_body w log =
    Some (Inr (pair_request_for test_wizard_env VISION test_device 0xC6 online_key w, ''B0:E9:FE:61:2E:75''),
      w\<lparr>wz_last_activity := 1000, wz_cloud := (wz_cloud w)\<lparr>devices_cache := [test_device]\<rparr>\<rparr>, log')"
proof -
  have key: "length online_key = 16" by (simp add: online_key_def)
  have fetch: "fetch_device_key test_json online mac ((wz_cloud w)\<lparr>devices_cache := x\<rparr>) lg =
      Some (Inr (''C6'', online_key), lg @ [HInit (communicate_url ((wz_cloud w)\<lparr>devices_cache := x\<rparr>)),
        HPerform \<lparr>hr_url = communicate_url ((wz_cloud w)\<lparr>devices_cache := x\<rparr>), hr_bearer = Some (auth_token (wz_cloud w)),
          hr_body = communicate_body mac\<rparr>, HCleanup])" for mac x lg
    using online_fetch [of "(wz_cloud w)\<lparr>devices_cache := x\<rparr>"] assms(1) by (simp add: is_logged_in_def)
  have listed: "\<exists>log1. list_devices test_json online False (wz_cloud w) log =
      Some (Inr [test_device], (wz_cloud w)\<lparr>devices_cache := [test_device]\<rparr>, log1)"
  proof (cases "devices_cache (wz_cloud w) = []")
    case True
    with assms(1) show ?thesis by (simp add: online_devices test_device_def)
  next
    case False
    with assms(1,2) show ?thesis by (simp add: cached_devices flip: cloud_client.surjective)
  qed
  then obtain log1 where "list_devices test_json online False (wz_cloud w) log =
      Some (Inr [test_device], (wz_cloud w)\<lparr>devices_cache := [test_device]\<rparr>, log1)" by blast
  with assms(1,3) key show ?thesis
    by (simp add: pair_prepare_def test_wizard_env_def touch_activity_def Let_def test_fields
        find_account_device_def fetch_comm_key_16_def fetch test_key_id test_device_def pair_request_for_def
        keypad_family_from_str_def)
qed

lemma test_wizard_fields:
  "is_logged_in (wz_cloud test_wizard)" "devices_cache (wz_cloud test_wizard) \<in> {[], [test_device]}" "\<not> wz_keypad_paired test_wizard"
  by (simp_all add: test_wizard_def initial_wizard_def logged_out_def is_logged_in_def)

lemma test_pair_request_runs:
  "\<exists>reply w' log'. handle_request test_wizard_env POST ''/api/pair'' test_body test_wizard [] = Some (Some (reply, w', log')) \<and>
    wz_pairing_job w' = ''p-5'' \<and> wz_pairing_name w' = ''B0:E9:FE:61:2E:75''"
proof -
  obtain log' where p: "pair_prepare test_wizard_env test_body test_wizard [] =
    Some (Inr (pair_request_for test_wizard_env VISION test_device 0xC6 online_key test_wizard, ''B0:E9:FE:61:2E:75''),
      test_wizard\<lparr>wz_last_activity := 1000, wz_cloud := (wz_cloud test_wizard)\<lparr>devices_cache := [test_device]\<rparr>\<rparr>, log')"
    using test_pair_prepare [OF test_wizard_fields, of "[]"] by blast
  have "char_of (53 :: nat) = CHR ''5''" by code_simp
  then have "job_id_of CHR ''p'' 5000 = ''p-5''" by (simp add: job_id_of_def dec_string.simps)
  then have "pairer_start 5000 True kr (wz_pairer test_wizard) = (''p-5'', snd (pairer_start 5000 True kr (wz_pairer test_wizard)))" for kr
    by (simp add: pairer_start_def start_job_def test_wizard_def initial_wizard_def initial_pairer_def idle_status_def Let_def)
  then have "pair_launch test_wizard_env kr (test_wizard\<lparr>wz_last_activity := a, wz_cloud := c\<rparr>) =
      (''p-5'', test_wizard\<lparr>wz_last_activity := a, wz_cloud := c, wz_pairer := snd (pairer_start 5000 True kr (wz_pairer test_wizard))\<rparr>)"
    for kr a c
    by (simp add: pair_launch_def test_wizard_env_def split: prod.split) (metis snd_conv fst_conv)
  with p show ?thesis by (simp add: handle_request_def handle_pair_def pair_bind_def)
qed



theorem every_request_answered_witness:
  "handle_request (test_wizard_env\<lparr>we_http := unset_clock\<rparr>) POST ''/api/pair'' test_body test_wizard [] \<notin> {None, Some None}"
  using every_request_answered [where env = "test_wizard_env\<lparr>we_http := unset_clock\<rparr>"] ticking_delays
  by (simp add: unset_clock_def online_def)

end
