(* ===== verification/Wizard_Tasks.thy ===== *)
theory Wizard_Tasks
  imports Pairing_Ui
begin

text \<open>
  The three tasks of a pairing, interleaved: the HTTP server runs one handler at a time, the pairing
  task runs the handshake, the main loop observes finished jobs. A step is one critical section, the
  order of the steps is arbitrary. The preparation of a pairing, which only reads the flags other tasks
  write, is one step; starting the job and binding its id and name are separate steps, and so are the
  four accesses of \<open>poll_jobs\<close> (snapshot, state, status, commit).

  The last fields are what happened so far: the id of every start, the jobs that started with their
  request and the name captured for them, and the callbacks made.
\<close>

record ui_system =
  us_wizard :: wizard
  us_prepared :: "(pair_request \<times> string) option"
  us_launched :: "(string \<times> string) option"
  us_snapshot :: "(string \<times> string) option"
  us_saw_success :: bool
  us_read :: "pair_status option"
  us_flight :: "pair_request option"
  us_ids :: "string list"
  us_jobs :: "(string \<times> pair_request \<times> string) list"
  us_fired :: "(string \<times> string \<times> string \<times> keypad_family) list"

definition system_start :: "wizard \<Rightarrow> ui_system" where
  "system_start w =
    \<lparr>us_wizard = w, us_prepared = None, us_launched = None, us_snapshot = None, us_saw_success = False,
     us_read = None, us_flight = None, us_ids = [], us_jobs = [], us_fired = []\<rparr>"

definition fired_by :: "pair_status \<Rightarrow> (string \<times> string \<times> keypad_family) option \<Rightarrow>
    (string \<times> string \<times> string \<times> keypad_family) list" where
  "fired_by st callback = (case callback of None \<Rightarrow> [] | Some (n, m, f) \<Rightarrow> [(st_job_id st, n, m, f)])"

inductive ui_step :: "ui_system \<Rightarrow> ui_system \<Rightarrow> bool" where
  other_request: "us_prepared s = None \<Longrightarrow> us_launched s = None \<Longrightarrow> (uri, m) \<noteq> (''/api/pair'', POST) \<Longrightarrow>
    handle_request env m uri rq (us_wizard s) log = Some (Some (reply, w', log')) \<Longrightarrow>
    ui_step s (s\<lparr>us_wizard := w'\<rparr>)"
| refused: "us_prepared s = None \<Longrightarrow> us_launched s = None \<Longrightarrow>
    pair_prepare env rq (us_wizard s) log = Some (Inl reply, w', log') \<Longrightarrow>
    ui_step s (s\<lparr>us_wizard := w'\<rparr>)"
| prepared: "us_prepared s = None \<Longrightarrow> us_launched s = None \<Longrightarrow>
    pair_prepare env rq (us_wizard s) log = Some (Inr kn, w', log') \<Longrightarrow>
    ui_step s (s\<lparr>us_wizard := w', us_prepared := Some kn\<rparr>)"
| busy: "us_prepared s = Some (kr, n) \<Longrightarrow> job_state_of (wz_pairer (us_wizard s)) = RUNNING \<Longrightarrow>
    pair_launch env kr (us_wizard s) = (job, w') \<Longrightarrow>
    ui_step s (s\<lparr>us_wizard := w', us_prepared := None\<rparr>)"
| launched: "us_prepared s = Some (kr, n) \<Longrightarrow> job_state_of (wz_pairer (us_wizard s)) \<noteq> RUNNING \<Longrightarrow>
    pair_launch env kr (us_wizard s) = (job, w') \<Longrightarrow> job \<noteq> [] \<Longrightarrow>
    ui_step s (s\<lparr>us_wizard := w', us_prepared := None, us_launched := Some (job, n), us_flight := Some kr,
      us_ids := us_ids s @ [job], us_jobs := us_jobs s @ [(job, kr, n)]\<rparr>)"
| no_task: "us_prepared s = Some (kr, n) \<Longrightarrow> job_state_of (wz_pairer (us_wizard s)) \<noteq> RUNNING \<Longrightarrow>
    pair_launch env kr (us_wizard s) = ([], w') \<Longrightarrow>
    ui_step s (s\<lparr>us_wizard := w', us_prepared := None, us_ids := us_ids s @ [job_id_of CHR ''p'' (we_timer env)]\<rparr>)"
| bound: "us_launched s = Some (job, n) \<Longrightarrow>
    ui_step s (s\<lparr>us_wizard := pair_bind job n (us_wizard s), us_launched := None\<rparr>)"
| job_ends: "us_flight s = Some kr \<Longrightarrow>
    ui_step s (s\<lparr>us_wizard := (us_wizard s)\<lparr>wz_pairer := pairer_run e kr (wz_pairer (us_wizard s))\<rparr>, us_flight := None\<rparr>)"
| snapshot: "us_snapshot s = None \<Longrightarrow> pairing_armed (us_wizard s) = Some jn \<Longrightarrow>
    ui_step s (s\<lparr>us_snapshot := Some jn, us_saw_success := False, us_read := None\<rparr>)"
| saw_success: "us_snapshot s = Some jn \<Longrightarrow> us_read s = None \<Longrightarrow>
    job_state_of (wz_pairer (us_wizard s)) = SUCCESS \<Longrightarrow>
    ui_step s (s\<lparr>us_saw_success := True\<rparr>)"
| read_status: "us_saw_success s \<Longrightarrow> us_read s = None \<Longrightarrow>
    ui_step s (s\<lparr>us_read := Some (pair_status_of (wz_pairer (us_wizard s)))\<rparr>)"
| committed: "us_snapshot s = Some (job, n) \<Longrightarrow> us_read s = Some st \<Longrightarrow>
    commit_pairing job n st (us_wizard s) = (callback, w') \<Longrightarrow>
    ui_step s (s\<lparr>us_wizard := w', us_fired := us_fired s @ fired_by st callback,
      us_snapshot := None, us_saw_success := False, us_read := None\<rparr>)"
| nothing_yet: "us_snapshot s = Some jn \<Longrightarrow> us_read s = None \<Longrightarrow>
    ui_step s (s\<lparr>us_snapshot := None, us_saw_success := False\<rparr>)"
| settings: "ui_step s (s\<lparr>us_wizard := (us_wizard s)\<lparr>wz_keypad_paired := a, wz_family := f,
    wz_lock_linked := b, wz_shared_key := k\<rparr>\<rparr>)"
| started: "ui_step s (s\<lparr>us_wizard := snd (ui_start httpd_ok now (us_wizard s))\<rparr>)"
| idle: "ui_step s (s\<lparr>us_wizard := snd (stop_if_idle now timeout (us_wizard s))\<rparr>)"
| link_job: "ui_step s (s\<lparr>us_wizard := (us_wizard s)\<lparr>wz_linker := linker_run e lr (wz_linker (us_wizard s))\<rparr>\<rparr>)"
| link_committed: "ui_step s (s\<lparr>us_wizard := snd (commit_link job st (us_wizard s))\<rparr>)"

subsection \<open>What the steps do to the pairing\<close>

definition same_pairing :: "wizard \<Rightarrow> wizard \<Rightarrow> bool" where
  "same_pairing w w' \<longleftrightarrow> wz_pairer w' = wz_pairer w \<and> wz_pairing_name w' = wz_pairing_name w \<and>
    wz_pairing_job w' = wz_pairing_job w \<and> wz_success_notified w' = wz_success_notified w"

lemma browses_same: "browses env w w' \<Longrightarrow> same_pairing w w'"
  by (auto simp: browses_def same_pairing_def)

lemma main_loop_same:
  "same_pairing w (snd (ui_start ok now w))" "same_pairing w (snd (stop_if_idle now timeout w))"
  "same_pairing w (snd (commit_link job st w))"
  "same_pairing w (w\<lparr>wz_keypad_paired := a, wz_family := f, wz_lock_linked := b, wz_shared_key := k\<rparr>)"
  "same_pairing w (w\<lparr>wz_linker := l\<rparr>)"
  by (auto simp: same_pairing_def ui_start_def stop_if_idle_def ui_stop_def commit_link_def)

lemma other_request_same:
  assumes "handle_request env m uri rq w log = Some (Some (reply, w', log'))" "(uri, m) \<noteq> (''/api/pair'', POST)"
  shows "same_pairing w w'"
proof -
  have "jobs_started env rq w log uri w'"
    using assms handle_now_browses handle_login_browses handle_keypads_browses handle_locks_browses
      handle_lock_link_starts
    unfolding handle_request_def Let_def
    by (auto simp: jobs_started_def split: if_splits prod.splits)
  moreover have "uri \<noteq> ''/api/pair''"
    using assms by (cases m) (auto simp: handle_request_def)
  ultimately show ?thesis
    by (auto simp: jobs_started_def tried_link_def same_pairing_def browses_def split: if_splits)
qed

lemma pair_launch_busy:
  "job_state_of (wz_pairer w) = RUNNING \<Longrightarrow> pair_launch env kr w = (job, w') \<Longrightarrow> job = [] \<and> w' = w"
  by (auto simp: pair_launch_def pairer_start_def start_job_busy job_state_of_def split: prod.splits)

lemma pair_launch_idle:
  assumes "job_state_of (wz_pairer w) \<noteq> RUNNING" "pair_launch env kr w = (job, w')"
  obtains p' where "w' = w\<lparr>wz_pairer := p'\<rparr>" "st_job_id (status p') = job_id_of CHR ''p'' (we_timer env)"
    "if job = [] then st_state (status p') = FAILED
     else job = job_id_of CHR ''p'' (we_timer env) \<and> st_state (status p') = RUNNING"
  using assms
  by (auto simp: pair_launch_def pairer_start_def start_job_def job_state_of_def Let_def running_status_def
      mark_failed_def split: prod.splits if_splits)

lemma pair_prepare_same: "pair_prepare env rq w log = Some (res, w', log') \<Longrightarrow> same_pairing w w'"
  using pair_prepare_cases browses_same by blast

text \<open>A request for the pairer and the name captured with it belong to one device.\<close>

definition for_device :: "account_device \<Rightarrow> pair_request \<Rightarrow> string \<Rightarrow> bool" where
  "for_device d kr n \<longleftrightarrow> n = ad_name d \<and> pr_mac kr = ad_mac_pretty d"

lemma pair_prepare_device:
  "pair_prepare env rq w log = Some (Inr (kr, n), w', log') \<Longrightarrow> \<exists>d. for_device d kr n"
  using pair_prepare_cases [of env rq w log "Inr (kr, n)"]
  by (auto simp: for_device_def pair_request_for_def)

subsection \<open>The invariant\<close>

definition job_of :: "ui_system \<Rightarrow> string \<Rightarrow> string \<Rightarrow> pair_request \<Rightarrow> bool" where
  "job_of s job n kr \<longleftrightarrow> (job, kr, n) \<in> set (us_jobs s)"

text \<open>The job table: ids are fresh, and the status of the pairer is that of the job it last ran.\<close>

definition inv_jobs :: "ui_system \<Rightarrow> bool" where
  "inv_jobs s \<longleftrightarrow>
    (let p = wz_pairer (us_wizard s) in
     distinct (map fst (us_jobs s)) \<and> set (map fst (us_jobs s)) \<subseteq> set (us_ids s) \<and>
     [] \<notin> set (map fst (us_jobs s)) \<and>
     (\<forall>job n kr. job_of s job n kr \<longrightarrow> (\<exists>d. for_device d kr n)) \<and>
     (\<forall>kr n. us_prepared s = Some (kr, n) \<longrightarrow> (\<exists>d. for_device d kr n)) \<and>
     (st_state (status p) = RUNNING \<longleftrightarrow> us_flight s \<noteq> None) \<and>
     (\<forall>kr. us_flight s = Some kr \<longrightarrow> (\<exists>n. job_of s (st_job_id (status p)) n kr)) \<and>
     (st_state (status p) = SUCCESS \<longrightarrow>
       (\<exists>n kr. job_of s (st_job_id (status p)) n kr \<and> pair_describes kr p)))"

text \<open>What is armed is a job that started, with its name, and has not been reported.\<close>

definition inv_armed :: "ui_system \<Rightarrow> bool" where
  "inv_armed s \<longleftrightarrow>
    (let w = us_wizard s; reported = set (map fst (us_fired s)) in
     (\<forall>job n. us_launched s = Some (job, n) \<longrightarrow>
        (\<exists>kr. job_of s job n kr) \<and> job \<noteq> wz_pairing_job w \<and> job \<notin> reported) \<and>
     (wz_pairing_job w \<noteq> [] \<longrightarrow> (\<exists>kr. job_of s (wz_pairing_job w) (wz_pairing_name w) kr)) \<and>
     (\<not> wz_success_notified w \<longrightarrow> wz_pairing_job w \<notin> reported))"

text \<open>What the main loop holds while it observes: a started job, a success only of that job.\<close>

definition inv_poll :: "ui_system \<Rightarrow> bool" where
  "inv_poll s \<longleftrightarrow>
    (let p = wz_pairer (us_wizard s) in
     (us_snapshot s = None \<longrightarrow> \<not> us_saw_success s \<and> us_read s = None) \<and>
     (\<forall>job n. us_snapshot s = Some (job, n) \<longrightarrow>
        (\<exists>kr. job_of s job n kr) \<and>
        (us_saw_success s \<longrightarrow> st_job_id (status p) = job \<longrightarrow> st_state (status p) = SUCCESS) \<and>
        (\<forall>st. us_read s = Some st \<longrightarrow> st_job_id st = job \<longrightarrow>
          (\<exists>kr. job_of s job n kr \<and> ps_mac st = pr_mac kr \<and> ps_family st = pr_family kr))))"

definition inv_fired :: "ui_system \<Rightarrow> bool" where
  "inv_fired s \<longleftrightarrow> distinct (map fst (us_fired s)) \<and>
    (\<forall>(job, n, m, f) \<in> set (us_fired s). \<exists>kr. job_of s job n kr \<and> pr_mac kr = m \<and> pr_family kr = f)"

definition ui_inv :: "ui_system \<Rightarrow> bool" where
  "ui_inv s \<longleftrightarrow> inv_jobs s \<and> inv_armed s \<and> inv_poll s \<and> inv_fired s"

lemmas ui_inv_defs = ui_inv_def inv_jobs_def inv_armed_def inv_poll_def inv_fired_def

lemma job_of_simps [simp]:
  "job_of (s\<lparr>us_wizard := w\<rparr>) = job_of s" "job_of (s\<lparr>us_prepared := a\<rparr>) = job_of s"
  "job_of (s\<lparr>us_launched := b\<rparr>) = job_of s" "job_of (s\<lparr>us_snapshot := c\<rparr>) = job_of s"
  "job_of (s\<lparr>us_saw_success := d\<rparr>) = job_of s" "job_of (s\<lparr>us_read := e\<rparr>) = job_of s"
  "job_of (s\<lparr>us_flight := g\<rparr>) = job_of s" "job_of (s\<lparr>us_ids := h\<rparr>) = job_of s"
  "job_of (s\<lparr>us_fired := i\<rparr>) = job_of s"
  by (auto simp: job_of_def fun_eq_iff)

lemma job_of_id: "job_of s job n kr \<Longrightarrow> job \<in> set (map fst (us_jobs s))"
  by (force simp: job_of_def)

lemma job_of_unique:
  "distinct (map fst (us_jobs s)) \<Longrightarrow> job_of s job n kr \<Longrightarrow> job_of s job n' kr' \<Longrightarrow> n' = n \<and> kr' = kr"
  unfolding job_of_def by (metis Pair_inject eq_key_imp_eq_value)

lemma ui_inv_same:
  "same_pairing (us_wizard s) w' \<Longrightarrow> ui_inv s \<Longrightarrow> ui_inv (s\<lparr>us_wizard := w'\<rparr>)"
  unfolding ui_inv_defs same_pairing_def Let_def by simp

lemma ui_inv_start:
  "wz_pairer w = initial_pairer \<Longrightarrow> wz_pairing_job w = [] \<Longrightarrow> ui_inv (system_start w)"
  by (simp add: ui_inv_defs system_start_def initial_pairer_def idle_status_def job_of_def)

lemma fresh_job:
  assumes "ui_inv s" "job \<notin> set (us_ids s)"
  shows "\<not> job_of s job n kr"
proof -
  have "set (map fst (us_jobs s)) \<subseteq> set (us_ids s)"
    using assms(1) unfolding ui_inv_def inv_jobs_def Let_def by blast
  with assms(2) show ?thesis using job_of_id by blast
qed

lemma ui_inv_launched:
  assumes inv: "ui_inv s" and prep: "us_prepared s = Some (kr, n)"
    and idle: "job_state_of (wz_pairer (us_wizard s)) \<noteq> RUNNING"
    and launch: "pair_launch env kr (us_wizard s) = (job, w')" "job \<noteq> []"
    and fresh: "job \<notin> set (us_ids s)"
  shows "ui_inv (s\<lparr>us_wizard := w', us_prepared := None, us_launched := Some (job, n), us_flight := Some kr,
      us_ids := us_ids s @ [job], us_jobs := us_jobs s @ [(job, kr, n)]\<rparr>)"
proof -
  let ?s' = "s\<lparr>us_wizard := w', us_prepared := None, us_launched := Some (job, n), us_flight := Some kr,
      us_ids := us_ids s @ [job], us_jobs := us_jobs s @ [(job, kr, n)]\<rparr>"
  have jobs: "job_of ?s' = (\<lambda>a b c. job_of s a b c \<or> (a = job \<and> b = n \<and> c = kr))"
    by (auto simp: job_of_def fun_eq_iff)
  obtain p' where w': "w' = (us_wizard s)\<lparr>wz_pairer := p'\<rparr>" "st_job_id (status p') = job"
    "st_state (status p') = RUNNING"
    using pair_launch_idle [OF idle launch(1)] launch(2) by (metis (full_types))
  note new = fresh_job [OF inv fresh]
  have unreported: "job \<notin> set (map fst (us_fired s))" "wz_pairing_job (us_wizard s) \<noteq> job"
    using inv new launch(2) unfolding ui_inv_def inv_fired_def inv_armed_def Let_def by fastforce+
  have "inv_jobs ?s'"
    using inv prep fresh launch(2) unfolding ui_inv_def inv_jobs_def jobs Let_def
    by (auto simp: w')
  moreover have "inv_armed ?s'"
    using inv unreported unfolding ui_inv_def inv_armed_def jobs Let_def by (auto simp: w')
  moreover have "inv_poll ?s'"
    using inv new unfolding ui_inv_def inv_poll_def jobs Let_def by (auto simp: w')
  moreover have "inv_fired ?s'"
    using inv unfolding ui_inv_def inv_fired_def jobs by fastforce
  ultimately show ?thesis by (simp add: ui_inv_def)
qed

lemma ui_inv_no_task:
  assumes inv: "ui_inv s" and prep: "us_prepared s = Some (kr, n)"
    and idle: "job_state_of (wz_pairer (us_wizard s)) \<noteq> RUNNING"
    and launch: "pair_launch env kr (us_wizard s) = ([], w')"
    and fresh: "job_id_of CHR ''p'' (we_timer env) \<notin> set (us_ids s)"
  shows "ui_inv (s\<lparr>us_wizard := w', us_prepared := None,
      us_ids := us_ids s @ [job_id_of CHR ''p'' (we_timer env)]\<rparr>)"
proof -
  obtain p' where w': "w' = (us_wizard s)\<lparr>wz_pairer := p'\<rparr>"
    "st_job_id (status p') = job_id_of CHR ''p'' (we_timer env)" "st_state (status p') = FAILED"
    using pair_launch_idle [OF idle launch] by (metis (full_types))
  note new = fresh_job [OF inv fresh]
  have "us_flight s = None" using inv idle by (auto simp: ui_inv_def inv_jobs_def Let_def job_state_of_def)
  with inv have "inv_jobs (s\<lparr>us_wizard := w', us_prepared := None,
      us_ids := us_ids s @ [job_id_of CHR ''p'' (we_timer env)]\<rparr>)"
    unfolding ui_inv_def inv_jobs_def Let_def by (auto simp: w')
  moreover have "inv_poll (s\<lparr>us_wizard := w', us_prepared := None,
      us_ids := us_ids s @ [job_id_of CHR ''p'' (we_timer env)]\<rparr>)"
    using inv new unfolding ui_inv_def inv_poll_def Let_def by (auto simp: w')
  ultimately show ?thesis
    using inv unfolding ui_inv_def inv_armed_def inv_fired_def Let_def by (simp add: w')
qed

lemma ui_inv_job_ends:
  assumes inv: "ui_inv s" and flight: "us_flight s = Some kr"
  shows "ui_inv (s\<lparr>us_wizard := (us_wizard s)\<lparr>wz_pairer := pairer_run e kr (wz_pairer (us_wizard s))\<rparr>, us_flight := None\<rparr>)"
proof -
  have running: "st_state (status (wz_pairer (us_wizard s))) = RUNNING"
    using inv flight by (auto simp: ui_inv_def inv_jobs_def Let_def)
  let ?p = "pairer_run e kr (wz_pairer (us_wizard s))"
  note ends = pairer_run_cases [of e kr "wz_pairer (us_wizard s)"]
  obtain n where "job_of s (st_job_id (status (wz_pairer (us_wizard s)))) n kr"
    using inv flight by (auto simp: ui_inv_def inv_jobs_def Let_def)
  then have "inv_jobs (s\<lparr>us_wizard := (us_wizard s)\<lparr>wz_pairer := ?p\<rparr>, us_flight := None\<rparr>)"
    using inv ends by (auto simp: ui_inv_def inv_jobs_def Let_def)
  moreover have "inv_poll (s\<lparr>us_wizard := (us_wizard s)\<lparr>wz_pairer := ?p\<rparr>, us_flight := None\<rparr>)"
    using inv running ends unfolding ui_inv_def inv_poll_def Let_def by simp
  ultimately show ?thesis using inv unfolding ui_inv_def inv_armed_def inv_fired_def Let_def by simp
qed

lemma ui_inv_read:
  assumes inv: "ui_inv s" and saw: "us_saw_success s" and "us_read s = None"
  shows "ui_inv (s\<lparr>us_read := Some (pair_status_of (wz_pairer (us_wizard s)))\<rparr>)"
proof -
  let ?p = "wz_pairer (us_wizard s)"
  obtain job n where snap: "us_snapshot s = Some (job, n)"
    using inv saw by (cases "us_snapshot s") (auto simp: ui_inv_def inv_poll_def Let_def)
  have "\<exists>kr. job_of s job n kr \<and> kp_mac ?p = pr_mac kr \<and> kp_family ?p = pr_family kr"
    if "st_job_id (status ?p) = job"
  proof -
    have "st_state (status ?p) = SUCCESS"
      using inv snap saw that by (auto simp: ui_inv_def inv_poll_def Let_def)
    moreover have "st_state (status ?p) = SUCCESS \<longrightarrow>
        (\<exists>n kr. job_of s (st_job_id (status ?p)) n kr \<and> pair_describes kr ?p)"
      using inv unfolding ui_inv_def inv_jobs_def Let_def by blast
    ultimately obtain n' kr' where own: "job_of s (st_job_id (status ?p)) n' kr'" "pair_describes kr' ?p"
      by blast
    moreover obtain kr where "job_of s job n kr" using inv snap by (auto simp: ui_inv_def inv_poll_def Let_def)
    moreover have "job_of s job n' kr'" using own(1) unfolding that .
    moreover have "distinct (map fst (us_jobs s))" using inv by (simp add: ui_inv_def inv_jobs_def Let_def)
    ultimately show ?thesis using job_of_unique by (metis pair_describes_def)
  qed
  then have "inv_poll (s\<lparr>us_read := Some (pair_status_of ?p)\<rparr>)"
    using inv snap by (auto simp: ui_inv_def inv_poll_def Let_def pair_status_of_def job_status.defs)
  then show ?thesis
    using inv unfolding ui_inv_def inv_jobs_def inv_armed_def inv_fired_def Let_def by simp
qed

lemma ui_inv_committed:
  assumes inv: "ui_inv s" and "us_snapshot s = Some (job, n)" "us_read s = Some st"
    and commit: "commit_pairing job n st (us_wizard s) = (callback, w')"
  shows "ui_inv (s\<lparr>us_wizard := w', us_fired := us_fired s @ fired_by st callback,
      us_snapshot := None, us_saw_success := False, us_read := None\<rparr>)"
proof (cases callback)
  case None
  with commit have "w' = us_wizard s" by (auto simp: commit_pairing_def split: if_splits)
  with inv show ?thesis unfolding ui_inv_defs Let_def None fired_by_def by simp
next
  case (Some c)
  with commit have c: "st_job_id st = job" "wz_pairing_job (us_wizard s) = job"
    "\<not> wz_success_notified (us_wizard s)" "c = (n, ps_mac st, ps_family st)"
    "w' = (us_wizard s)\<lparr>wz_success_notified := True, wz_keypad_paired := True\<rparr>"
    by (auto simp: commit_pairing_def split: if_splits)
  obtain kr where kr: "job_of s job n kr" "ps_mac st = pr_mac kr" "ps_family st = pr_family kr"
    using inv assms(2,3) c(1) unfolding ui_inv_def inv_poll_def Let_def by blast
  have "job \<notin> set (map fst (us_fired s))" using inv c(2,3) by (auto simp: ui_inv_def inv_armed_def Let_def)
  with inv c kr show ?thesis
    unfolding ui_inv_def inv_jobs_def inv_armed_def inv_poll_def inv_fired_def Let_def Some
    by (auto simp: fired_by_def)
qed

lemma ui_inv_bound:
  assumes inv: "ui_inv s" and l: "us_launched s = Some (job, n)"
  shows "ui_inv (s\<lparr>us_wizard := pair_bind job n (us_wizard s), us_launched := None\<rparr>)"
  using inv l unfolding ui_inv_defs Let_def pair_bind_def by simp

lemma ui_inv_snapshot:
  assumes inv: "ui_inv s" and "pairing_armed (us_wizard s) = Some jn"
  shows "ui_inv (s\<lparr>us_snapshot := Some jn, us_saw_success := False, us_read := None\<rparr>)"
proof -
  have jn: "jn = (wz_pairing_job (us_wizard s), wz_pairing_name (us_wizard s))" "wz_pairing_job (us_wizard s) \<noteq> []"
    using assms(2) by (auto simp: pairing_armed_def split: if_splits)
  with inv show ?thesis unfolding ui_inv_defs Let_def jn(1) by simp
qed

lemma ui_inv_ready:
  assumes inv: "ui_inv s" and "same_pairing (us_wizard s) w'" and "\<exists>d. for_device d (fst kn) (snd kn)"
  shows "ui_inv (s\<lparr>us_wizard := w', us_prepared := Some kn\<rparr>)"
  using ui_inv_same [OF assms(2) inv] assms(3) unfolding ui_inv_defs Let_def by auto

lemma ui_inv_step:
  assumes step: "ui_step s s'" and inv: "ui_inv s" and fresh: "distinct (us_ids s')"
  shows "ui_inv s'"
  using step
proof cases
  case (other_request uri m env rq log reply w' log')
  with inv show ?thesis by (auto intro: ui_inv_same other_request_same)
next
  case (refused env rq log reply w' log')
  with inv show ?thesis by (auto intro: ui_inv_same pair_prepare_same)
next
  case (prepared env rq log kn w' log')
  then have "same_pairing (us_wizard s) w'" "\<exists>d. for_device d (fst kn) (snd kn)"
    using pair_prepare_same pair_prepare_device [of env rq "us_wizard s" log "fst kn" "snd kn"] by auto
  with inv prepared(1) show ?thesis by (auto intro: ui_inv_ready)
next
  case (busy kr n env job w')
  then have "w' = us_wizard s" using pair_launch_busy by blast
  with inv busy(1) show ?thesis unfolding ui_inv_defs Let_def by simp
next
  case (launched kr n env job w')
  with fresh have "job \<notin> set (us_ids s)" by simp
  with launched inv show ?thesis by (simp add: ui_inv_launched)
next
  case (no_task kr n env w')
  with fresh have "job_id_of CHR ''p'' (we_timer env) \<notin> set (us_ids s)" by simp
  with no_task inv show ?thesis by (simp add: ui_inv_no_task)
next
  case (saw_success jn)
  with inv show ?thesis unfolding ui_inv_defs Let_def job_state_of_def by simp
next
  case (nothing_yet jn)
  with inv show ?thesis unfolding ui_inv_defs Let_def by simp
qed (use inv in \<open>auto intro: ui_inv_bound ui_inv_job_ends ui_inv_snapshot ui_inv_read ui_inv_committed
    ui_inv_same main_loop_same\<close>)

lemma step_ids: "ui_step s s' \<Longrightarrow> \<exists>xs. us_ids s' = us_ids s @ xs"
  by (cases rule: ui_step.cases) auto

lemma reachable_inv:
  assumes "ui_step\<^sup>*\<^sup>* (system_start w) s" "distinct (us_ids s)"
    and "wz_pairer w = initial_pairer" "wz_pairing_job w = []"
  shows "ui_inv s"
  using assms(1,2)
proof (induction rule: rtranclp_induct)
  case base
  show ?case using assms(3,4) by (rule ui_inv_start)
next
  case (step s s')
  then have "distinct (us_ids s)" using step_ids by fastforce
  with step show ?case by (blast intro: ui_inv_step)
qed


subsection \<open>A run, and a race\<close>

definition race_request :: pair_request where
  "race_request = \<lparr>pr_mac = ''B0:E9:FE:61:2E:75'', pr_family = VISION, pr_key_id = 0xC6, pr_key = online_key,
     pr_shared_token = replicate 16 0, pr_esp_mac = [0xB0, 0xE9, 0xFE, 1, 2, 3]\<rparr>"

definition race_pairer :: keypad_pairer where
  "race_pairer = initial_pairer\<lparr>kp_key := online_key, kp_key_id := 0xC6,
     status := running_status 9 ''p-5'' (Some (PAIR_STEP_LABELS ! 0))\<rparr>"

definition race_radio :: pair_env where
  "race_radio = (quiet_keypad 100)\<lparr>pe_adverts := (\<lambda>_. [(\<lparr>addr_text = ''b0:e9:fe:61:2e:75'', addr_type = 0\<rparr>, [])])\<rparr>"

lemma race_pairs: "case pair_execute race_radio stub_ciphers race_request race_pairer [] of (p, _) \<Rightarrow> st_state (status p) = SUCCESS"
  by code_simp

definition race_env :: "nat \<Rightarrow> wizard_env" where
  "race_env timer = test_wizard_env\<lparr>we_timer := timer\<rparr>"

lemma race_request_for:
  "wz_shared_key w = replicate 16 0 \<Longrightarrow>
    pair_request_for test_wizard_env VISION test_device 0xC6 online_key w = race_request"
proof -
  have "addr_bytes [3, 2, 1, 0xFE, 0xE9, 0xB0] = [0xB0, 0xE9, 0xFE, 1, 2, 3]" by code_simp
  then show "wz_shared_key w = replicate 16 0 \<Longrightarrow> ?thesis"
    by (simp add: pair_request_for_def race_request_def test_wizard_env_def test_device_def)
qed

lemma race_prepare:
  assumes "is_logged_in (wz_cloud w)" "devices_cache (wz_cloud w) \<in> {[], [test_device]}" "\<not> wz_keypad_paired w"
    and "wz_shared_key w = replicate 16 0"
  shows "\<exists>log'. pair_prepare test_wizard_env test_body w [] = Some (Inr (race_request, ''B0:E9:FE:61:2E:75''),
    w\<lparr>wz_last_activity := 1000, wz_cloud := (wz_cloud w)\<lparr>devices_cache := [test_device]\<rparr>\<rparr>, log')"
  using test_pair_prepare [OF assms(1-3)] race_request_for [OF assms(4)] by metis

lemma race_ids: "job_id_of CHR ''p'' 5000 = ''p-5''" "job_id_of CHR ''p'' 9000000 = ''p-9000''"
proof -
  have "char_of (53 :: nat) = CHR ''5''" "char_of (57 :: nat) = CHR ''9''" "char_of (48 :: nat) = CHR ''0''"
    by code_simp+
  then show "job_id_of CHR ''p'' 5000 = ''p-5''" "job_id_of CHR ''p'' 9000000 = ''p-9000''"
    by (simp_all add: job_id_of_def dec_string.simps)
qed

lemma race_launch:
  "pair_launch (race_env 5000) race_request w = (''p-5'', w\<lparr>wz_pairer := race_pairer\<rparr>)"
  if "wz_pairer w = initial_pairer"
  using that by (simp add: pair_launch_def race_env_def test_wizard_env_def pairer_start_def start_job_def race_ids
      initial_pairer_def idle_status_def race_pairer_def race_request_def pair_step_count_def VISION_STEP_COUNT_def
      Let_def)

lemma race_launch_again:
  "st_state (status (wz_pairer w)) \<noteq> RUNNING \<Longrightarrow>
    \<exists>p'. pair_launch (race_env 9000000) race_request w = (''p-9000'', w\<lparr>wz_pairer := p'\<rparr>)"
  by (auto simp: pair_launch_def race_env_def test_wizard_env_def pairer_start_def start_job_def race_ids Let_def)

definition race_wizard :: "wizard \<Rightarrow> wizard" where
  "race_wizard w = w\<lparr>wz_last_activity := 1000, wz_cloud := (wz_cloud w)\<lparr>devices_cache := [test_device]\<rparr>\<rparr>"

text \<open>
  Two requests for the same keypad: the second passes the gate while the first job runs, the first job
  succeeds and is reported, and the second request still starts its job.
\<close>

lemma race_run:
  "\<exists>s. ui_step\<^sup>*\<^sup>* (system_start test_wizard) s \<and> us_ids s = [''p-5'', ''p-9000''] \<and>
    us_fired s = [(''p-5'', ''B0:E9:FE:61:2E:75'', ''B0:E9:FE:61:2E:75'', VISION)] \<and>
    wz_keypad_paired (us_wizard s) \<and> us_flight s = Some race_request"
proof -
  let ?n = "''B0:E9:FE:61:2E:75''" and ?w = test_wizard
  have w: "is_logged_in (wz_cloud ?w)" "devices_cache (wz_cloud ?w) \<in> {[], [test_device]}" "\<not> wz_keypad_paired ?w"
    "wz_shared_key ?w = replicate 16 0" "wz_pairer ?w = initial_pairer" "\<not> wz_success_notified ?w"
    using test_wizard_fields by (simp_all add: test_wizard_def initial_wizard_def)
  define w1 where "w1 = race_wizard ?w"
  define w2 where "w2 = pair_bind ''p-5'' ?n (w1\<lparr>wz_pairer := race_pairer\<rparr>)"
  define w3 where "w3 = race_wizard w2"
  define p where "p = pairer_run (race_radio, stub_ciphers, []) race_request race_pairer"
  define w4 where "w4 = w3\<lparr>wz_pairer := p\<rparr>"
  define w5 where "w5 = w4\<lparr>wz_success_notified := True, wz_keypad_paired := True\<rparr>"
  note ws = w1_def w2_def w3_def w4_def w5_def race_wizard_def pair_bind_def
  have p: "st_state (status p) = SUCCESS" "st_job_id (status p) = ''p-5''" "kp_mac p = ?n" "kp_family p = VISION"
  proof -
    have "st_state (status p) = SUCCESS"
      using race_pairs by (auto simp: p_def pairer_run_def split: prod.splits)
    moreover have "st_job_id (status race_pairer) = ''p-5''"
      by (simp add: race_pairer_def running_status_def idle_status_def)
    ultimately show "st_state (status p) = SUCCESS" "st_job_id (status p) = ''p-5''" "kp_mac p = ?n" "kp_family p = VISION"
      using pairer_run_cases [of "(race_radio, stub_ciphers, [])" race_request race_pairer]
      by (simp_all add: p_def pair_describes_def race_request_def)
  qed
  let ?st = "pair_status_of p"
  let ?s0 = "system_start ?w"
  let ?s1 = "?s0\<lparr>us_wizard := w1, us_prepared := Some (race_request, ?n)\<rparr>"
  let ?s2 = "?s0\<lparr>us_wizard := w1\<lparr>wz_pairer := race_pairer\<rparr>, us_launched := Some (''p-5'', ?n),
      us_flight := Some race_request, us_ids := [''p-5''], us_jobs := [(''p-5'', race_request, ?n)]\<rparr>"
  let ?s3 = "?s2\<lparr>us_wizard := w2, us_launched := None\<rparr>"
  let ?s4 = "?s3\<lparr>us_wizard := w3, us_prepared := Some (race_request, ?n)\<rparr>"
  let ?s5 = "?s4\<lparr>us_wizard := w4, us_flight := None\<rparr>"
  let ?s6 = "?s5\<lparr>us_snapshot := Some (''p-5'', ?n)\<rparr>"
  let ?s7 = "?s6\<lparr>us_saw_success := True\<rparr>"
  let ?s8 = "?s7\<lparr>us_read := Some ?st\<rparr>"
  let ?s9 = "?s5\<lparr>us_wizard := w5, us_fired := [(''p-5'', ?n, ?n, VISION)]\<rparr>"
  obtain log1 where "pair_prepare test_wizard_env test_body ?w [] = Some (Inr (race_request, ?n), w1, log1)"
    using race_prepare [OF w(1-4)] by (auto simp: w1_def race_wizard_def)
  then have "ui_step ?s0 ?s1"
    using ui_step.prepared [of ?s0 test_wizard_env test_body "[]"] by (simp add: system_start_def)
  moreover have "ui_step ?s1 ?s2"
    using ui_step.launched [of ?s1 race_request ?n "race_env 5000"] race_launch [of w1] w(5)
    by (simp add: system_start_def w1_def race_wizard_def job_state_of_def initial_pairer_def idle_status_def)
  moreover have "ui_step ?s2 ?s3"
    using ui_step.bound [of ?s2] by (simp add: system_start_def w2_def)
  moreover obtain log2 where "pair_prepare test_wizard_env test_body w2 [] = Some (Inr (race_request, ?n), w3, log2)"
    using race_prepare [of w2] w by (auto simp: ws is_logged_in_def)
  then have "ui_step ?s3 ?s4"
    using ui_step.prepared [of ?s3 test_wizard_env test_body "[]"] by (simp add: system_start_def)
  moreover have "ui_step ?s4 ?s5"
    using ui_step.job_ends [of ?s4 race_request "(race_radio, stub_ciphers, [])"]
    by (simp add: system_start_def ws p_def)
  moreover have "ui_step ?s5 ?s6"
    using ui_step.snapshot [of ?s5 "(''p-5'', ?n)"] by (simp add: system_start_def pairing_armed_def ws)
  moreover have "ui_step ?s6 ?s7"
    using ui_step.saw_success [of ?s6] p(1) by (simp add: system_start_def job_state_of_def w4_def)
  moreover have "ui_step ?s7 ?s8"
    using ui_step.read_status [of ?s7] by (simp add: system_start_def w4_def)
  moreover have "commit_pairing ''p-5'' ?n ?st w4 = (Some (?n, ?n, VISION), w5)"
    using p by (simp add: commit_pairing_def pair_status_of_def job_status.defs ws)
  then have "ui_step ?s8 ?s9"
    using ui_step.committed [of ?s8 "''p-5''" ?n ?st] p(2)
    by (simp add: system_start_def fired_by_def pair_status_of_def job_status.defs)
  ultimately have run: "ui_step\<^sup>*\<^sup>* ?s0 ?s9" by (meson converse_rtranclp_into_rtranclp rtranclp.rtrancl_refl)
  obtain p' where again: "pair_launch (race_env 9000000) race_request w5 = (''p-9000'', w5\<lparr>wz_pairer := p'\<rparr>)"
    using race_launch_again [of w5] p(1) by (auto simp: ws)
  let ?s10 = "?s9\<lparr>us_wizard := w5\<lparr>wz_pairer := p'\<rparr>, us_prepared := None, us_launched := Some (''p-9000'', ?n),
      us_flight := Some race_request, us_ids := [''p-5'', ''p-9000''],
      us_jobs := [(''p-5'', race_request, ?n), (''p-9000'', race_request, ?n)]\<rparr>"
  have "ui_step ?s9 ?s10"
    using ui_step.launched [of ?s9 race_request ?n "race_env 9000000"] again p(1)
    by (simp add: system_start_def job_state_of_def ws)
  with run have "ui_step\<^sup>*\<^sup>* ?s0 ?s10" by (rule rtranclp.rtrancl_into_rtrancl)
  moreover have "us_ids ?s10 = [''p-5'', ''p-9000'']" "us_fired ?s10 = [(''p-5'', ?n, ?n, VISION)]"
    "wz_keypad_paired (us_wizard ?s10)" "us_flight ?s10 = Some race_request"
    by (simp_all add: w5_def)
  ultimately show ?thesis by blast
qed


end
