(* ===== verification/Bridge_Loop.thy ===== *)
theory Bridge_Loop
  imports Bridge_Links Wizard_Tasks
begin

text \<open>
  The whole device: the bridge component, the wizard it owns and the client its relay task uses, driven
  by the main loop (\<open>SwitchbotKeypadBridge::loop\<close>), by the other tasks and by the Reset button. The loop
  is three steps, since other tasks may run between its parts: the jobs (poll and apply), the idle
  shutdown, and the rest (drain the queue, battery refresh).
\<close>

subsection \<open>The callbacks of the wizard\<close>

definition queue_paired :: "(string \<times> string \<times> keypad_family) option \<Rightarrow> bridge \<Rightarrow> bridge" where
  "queue_paired callback b =
    (case callback of
       None \<Rightarrow> b
     | Some (n, m, f) \<Rightarrow> b\<lparr>pending_pair := Some \<lparr>pp_name = n, pp_mac = m, pp_family = f\<rparr>\<rparr>)"

definition queue_linked :: "(string \<times> string \<times> physical_lock_model \<times> byte) option \<Rightarrow> bridge \<Rightarrow> bridge" where
  "queue_linked callback b =
    (case callback of
       None \<Rightarrow> b
     | Some (n, m, model, slot) \<Rightarrow>
         b\<lparr>pending_lock := Some \<lparr>pl_name = n, pl_mac = m, pl_model = model, pl_slot_id = slot\<rparr>\<rparr>)"

text \<open>What the bridge tells the wizard when it applies a result, boots or resets.\<close>

definition tell_pairing :: "bridge \<Rightarrow> wizard \<Rightarrow> wizard" where
  "tell_pairing b w = w\<lparr>wz_keypad_paired := ui_keypad_paired (ui b), wz_family := ui_keypad_family (ui b)\<rparr>"

definition tell_link :: "bridge \<Rightarrow> wizard \<Rightarrow> wizard" where
  "tell_link b w = w\<lparr>wz_lock_linked := ui_lock_linked (ui b)\<rparr>"

definition tell_key :: "bridge \<Rightarrow> wizard \<Rightarrow> wizard" where
  "tell_key b w = w\<lparr>wz_shared_key := ui_shared_key (ui b)\<rparr>"

subsection \<open>The main loop\<close>

definition loop_poll :: "bridge \<times> wizard \<Rightarrow> bridge \<times> wizard" where
  "loop_poll s =
    (case s of (b, w) \<Rightarrow>
       if wz_running w
       then (case poll_jobs w of (paired, linked, w1) \<Rightarrow> (queue_linked linked (queue_paired paired b), w1))
       else (b, w))"

definition loop_apply_pairing :: "u32 \<Rightarrow> bridge \<times> wizard \<Rightarrow> bridge \<times> wizard" where
  "loop_apply_pairing now s =
    (case s of (b, w) \<Rightarrow>
       let b1 = apply_pending_pairing now b
       in (b1, if bridge.pending_pair b = None then w else tell_pairing b1 w))"

definition loop_apply_link :: "u32 \<Rightarrow> bridge \<times> wizard \<Rightarrow> bridge \<times> wizard" where
  "loop_apply_link now s =
    (case s of (b, w) \<Rightarrow>
       let b1 = apply_pending_lock_link now b
       in (b1, if bridge.pending_lock b = None then w else tell_link b1 w))"

definition loop_jobs :: "u32 \<Rightarrow> u32 \<Rightarrow> bridge \<times> wizard \<Rightarrow> bridge \<times> wizard" where
  "loop_jobs now1 now2 s =
    (case loop_apply_link now2 (loop_apply_pairing now1 (loop_poll s)) of
       (b, w) \<Rightarrow> (apply_pending_lock_relay b, w))"

definition loop_idle :: "u32 \<Rightarrow> bridge \<times> wizard \<Rightarrow> bridge \<times> wizard" where
  "loop_idle now s =
    (case s of (b, w) \<Rightarrow> (b, if keypad_paired b then snd (stop_if_idle now IDLE_TIMEOUT_MS w) else w))"

text \<open>What the platform answers, with the state of the wizard's server filled in.\<close>

definition radio_now :: "wizard \<Rightarrow> radio \<Rightarrow> radio" where
  "radio_now w env = env\<lparr>ui_running := wz_running w\<rparr>"

definition loop_drain ::
  "aes_ctr \<Rightarrow> (nat \<Rightarrow> radio \<times> bool) \<Rightarrow> wizard \<Rightarrow> bridge \<times> rng \<Rightarrow> bridge \<times> rng" where
  "loop_drain xc platform w s =
    (let pending = rx_queue (fst s)
     in process_events xc
          (map (\<lambda>i. (pending ! i, radio_now w (fst (platform i)), snd (platform i))) [0..<length pending])
          ((fst s)\<lparr>rx_queue := []\<rparr>, snd s))"

definition loop_battery :: "radio \<Rightarrow> radio \<Rightarrow> wizard \<Rightarrow> bridge \<Rightarrow> bridge" where
  "loop_battery env1 env2 w b =
    (if has_keypad_battery (config b) \<or> has_lock_battery (config b)
     then maybe_start_battery_scan (radio_now w env2)
            (maybe_finish_battery_scan (radio_now w env1)
              (apply_pending_lock_battery (apply_pending_keypad_battery b)))
     else b)"

definition bridge_loop ::
  "aes_ctr \<Rightarrow> u32 \<times> u32 \<times> u32 \<Rightarrow> (nat \<Rightarrow> radio \<times> bool) \<Rightarrow> radio \<times> radio \<Rightarrow> bridge \<times> wizard \<Rightarrow> rng \<Rightarrow>
    (bridge \<times> wizard) \<times> rng" where
  "bridge_loop xc clocks platform envs s r =
    (case clocks of (now1, now2, now3) \<Rightarrow>
     case loop_idle now3 (loop_jobs now1 now2 s) of (b, w) \<Rightarrow>
     case loop_drain xc platform w (b, r) of (b1, r1) \<Rightarrow>
       ((loop_battery (fst envs) (snd envs) w b1, w), r1))"

subsection \<open>Boot and reset\<close>

text \<open>\<open>setup()\<close> with its wizard: the flags as they are restored, the key and the server at the end.\<close>

definition device_setup :: "boot \<Rightarrow> bool \<Rightarrow> bridge \<times> wizard \<Rightarrow> bridge \<times> wizard" where
  "device_setup bt httpd_ok s =
    (case s of (b, w) \<Rightarrow>
       let b1 = bridge_setup bt b;
           w1 = tell_link b1 (tell_pairing b1 w)
       in if failed b1 then (b1, w1)
          else
            let w2 = tell_key b1 w1
            in (b1, if \<not> keypad_paired b1 then snd (ui_start httpd_ok (bt_millis bt) w2) else w2))"

definition device_reset ::
  "byte list \<Rightarrow> u32 option \<Rightarrow> radio \<Rightarrow> bool \<Rightarrow> u32 \<Rightarrow> bridge \<times> wizard \<Rightarrow> bridge \<times> wizard" where
  "device_reset random imported env httpd_ok now s =
    (case s of (b, w) \<Rightarrow>
       let b1 = reset_pairing random imported env b
       in if imported = None then (b1, w)
          else (b1, snd (ui_start httpd_ok now (tell_key b1 (tell_pairing b1 (tell_link b1 w))))))"

definition device_press_reset ::
  "byte list \<Rightarrow> u32 option \<Rightarrow> radio \<Rightarrow> bool \<Rightarrow> u32 \<Rightarrow> bridge \<times> wizard \<Rightarrow> bridge \<times> wizard" where
  "device_press_reset random imported env httpd_ok now s =
    (if wz_running (snd s) then s else device_reset random imported env httpd_ok now s)"

subsection \<open>The relay task\<close>

text \<open>
  The task started with \<open>StartRelay\<close>: the exchange with the lock, the outcome posted on a reply or at
  the end, the radio released.
\<close>

definition relay_replied :: "ble_log \<Rightarrow> bool" where
  "relay_replied log \<longleftrightarrow> list_ex (\<lambda>e. case e of EvResponse r \<Rightarrow> True | _ \<Rightarrow> False) log"

definition run_relay_task ::
  "ble_env \<Rightarrow> lock_ciphers \<Rightarrow> lock_config \<Rightarrow> byte list \<Rightarrow> decoded_command \<Rightarrow> lock_client \<Rightarrow> ble_log \<Rightarrow> bridge \<Rightarrow>
    bridge \<times> lock_client \<times> ble_log" where
  "run_relay_task env cr cfg plaintext cmd c log b =
    (case send_plaintext env cr cfg plaintext False True c log of
       (res, c1, log1) \<Rightarrow>
         let ok = (case res of Inr _ \<Rightarrow> True | Inl _ \<Rightarrow> False);
             outcome = (if relay_replied (drop (length log) log1) then True else ok)
         in (relay_task_ends (post_relay_result cmd outcome b), c1, log1))"

subsection \<open>The device and its steps\<close>

text \<open>
  The bridge, the wizard and the tasks of the running jobs with the request each was started with. A
  step is a part of the main loop, a request the server handles, an event of the radio task, the end of
  a job or of a relay task, the Reset button, or a power cycle, which keeps the preferences only. The
  parameter says whether \<open>httpd_start\<close> succeeds; key imports succeed, random buffers
  are filled, and boots reach the end of \<open>setup()\<close>.
\<close>

record device =
  dv_bridge :: bridge
  dv_wizard :: wizard
  dv_pairing :: "pair_request option"
  dv_linking :: "link_request option"

definition device_of :: "bridge \<times> wizard \<Rightarrow> device" where
  "device_of s = \<lparr>dv_bridge = fst s, dv_wizard = snd s, dv_pairing = None, dv_linking = None\<rparr>"

definition set_parts :: "bridge \<times> wizard \<Rightarrow> device \<Rightarrow> device" where
  "set_parts s d = d\<lparr>dv_bridge := fst s, dv_wizard := snd s\<rparr>"

text \<open>The task a request creates, if it creates one.\<close>

definition pairing_task :: "wizard_env \<Rightarrow> http_input \<Rightarrow> wizard \<Rightarrow> http_log \<Rightarrow> pair_request option" where
  "pairing_task env rq w log =
    (case pair_prepare env rq w log of
       Some (Inr (kr, n), w1, log1) \<Rightarrow> if fst (pair_launch env kr w1) = [] then None else Some kr
     | _ \<Rightarrow> None)"

definition link_task :: "wizard_env \<Rightarrow> http_input \<Rightarrow> wizard \<Rightarrow> http_log \<Rightarrow> link_request option" where
  "link_task env rq w log =
    (case link_prepare env rq w log of
       Some (Inr lr, w1, log1) \<Rightarrow> if fst (link_launch env lr w1) = [] then None else Some lr
     | _ \<Rightarrow> None)"

definition or_task :: "'a option \<Rightarrow> 'a option \<Rightarrow> 'a option" where
  "or_task started running = (if started = None then running else started)"

definition serve :: "wizard_env \<Rightarrow> http_method \<Rightarrow> string \<Rightarrow> http_input \<Rightarrow> http_log \<Rightarrow> wizard \<Rightarrow> device \<Rightarrow> device" where
  "serve env m uri rq log w' d =
    d\<lparr>dv_wizard := w',
      dv_pairing := (if (uri, m) = (''/api/pair'', POST)
                     then or_task (pairing_task env rq (dv_wizard d) log) (dv_pairing d) else dv_pairing d),
      dv_linking := (if (uri, m) = (''/api/lock/link'', POST)
                     then or_task (link_task env rq (dv_wizard d) log) (dv_linking d) else dv_linking d)\<rparr>"

text \<open>The sizes of the buffers the firmware keeps and stores: keys, addresses and names are C arrays.\<close>

definition info_sized :: "keypad_info \<Rightarrow> bool" where
  "info_sized i \<longleftrightarrow> length (ki_mac i) = 6"

definition lock_sized :: "linked_lock_info \<Rightarrow> bool" where
  "lock_sized i \<longleftrightarrow> length (ll_mac i) = 6 \<and> length (ll_reserved i) = 16 \<and> length (ll_name i) = LOCK_NAME_MAX"

definition prefs_sized :: "preferences \<Rightarrow> bool" where
  "prefs_sized p \<longleftrightarrow> pred_option (\<lambda>k. length k = 16) (pref_shared_key p) \<and>
    pred_option (\<lambda>n. length n = KEYPAD_NAME_MAX) (pref_keypad_name p) \<and>
    pred_option info_sized (pref_keypad_info p) \<and> pred_option lock_sized (pref_linked_lock p)"

inductive device_step :: "bool \<Rightarrow> device \<Rightarrow> device \<Rightarrow> bool" for httpd where
  jobs: "device_step httpd d (set_parts (loop_jobs now1 now2 (dv_bridge d, dv_wizard d)) d)"
| idle: "device_step httpd d (set_parts (loop_idle now (dv_bridge d, dv_wizard d)) d)"
| drain: "loop_drain xc platform (dv_wizard d) (dv_bridge d, r) = (b, r') \<Longrightarrow>
    device_step httpd d (d\<lparr>dv_bridge := loop_battery env1 env2 (dv_wizard d) b\<rparr>)"
| request: "wz_running (dv_wizard d) \<Longrightarrow>
    handle_request env m uri rq (dv_wizard d) log = Some (Some (reply, w', log')) \<Longrightarrow>
    device_step httpd d (serve env m uri rq log w' d)"
| pairing_ends: "dv_pairing d = Some kr \<Longrightarrow>
    device_step httpd d (d\<lparr>dv_wizard := (dv_wizard d)\<lparr>wz_pairer := pairer_run pe kr (wz_pairer (dv_wizard d))\<rparr>,
      dv_pairing := None\<rparr>)"
| linking_ends: "dv_linking d = Some lr \<Longrightarrow>
    device_step httpd d (d\<lparr>dv_wizard := (dv_wizard d)\<lparr>wz_linker := linker_run le lr (wz_linker (dv_wizard d))\<rparr>,
      dv_linking := None\<rparr>)"
| keypad: "device_step httpd d (d\<lparr>dv_bridge := server_event callback (dv_bridge d)\<rparr>)"
| advert: "device_step httpd d (d\<lparr>dv_bridge := handle_battery_advert adv (dv_bridge d)\<rparr>)"
| relayed: "device_step httpd d
    (d\<lparr>dv_bridge := fst (run_relay_task be cr cfg plaintext cmd c blog (dv_bridge d))\<rparr>)"
| button: "length random = 16 \<Longrightarrow> device_step httpd d
    (set_parts (device_press_reset random (Some handle) rad httpd now (dv_bridge d, dv_wizard d)) d)"
| power_cycle: "length (bt_random bt) = 16 \<Longrightarrow> device_setup bt httpd (initial_bridge cfg (prefs (dv_bridge d)), initial_wizard\<lparr>wz_html := html\<rparr>)
    = (b, w) \<Longrightarrow> \<not> failed b \<Longrightarrow> device_step httpd d (device_of (b, w))"

inductive device_reachable :: "bool \<Rightarrow> device \<Rightarrow> bool" for httpd where
  first_boot: "length (bt_random bt) = 16 \<Longrightarrow> prefs_sized p \<Longrightarrow> device_setup bt httpd (initial_bridge cfg p, initial_wizard\<lparr>wz_html := html\<rparr>) = (b, w) \<Longrightarrow>
    \<not> failed b \<Longrightarrow> device_reachable httpd (device_of (b, w))"
| step: "device_reachable httpd d \<Longrightarrow> device_step httpd d d' \<Longrightarrow> device_reachable httpd d'"

inductive_cases device_stepE: "device_step httpd d d'"

subsection \<open>The bridge and what it has told the wizard\<close>

definition bridge_told :: "bridge \<Rightarrow> bool" where
  "bridge_told b \<longleftrightarrow> ui_keypad_paired (ui b) = keypad_paired b \<and> ui_lock_linked (ui b) = lock_linked b \<and>
    ui_shared_key (ui b) = shared_key b \<and> pref_shared_key (prefs b) = Some (shared_key b)"

definition wizard_told :: "bridge \<Rightarrow> wizard \<Rightarrow> bool" where
  "wizard_told b w \<longleftrightarrow> bridge_told b \<and> wz_keypad_paired w = keypad_paired b \<and> wz_lock_linked w = lock_linked b \<and>
    wz_shared_key w = shared_key b"

lemma same_links_told: "same_links b b' \<Longrightarrow> wizard_told b w \<Longrightarrow> wizard_told b' w"
  by (auto simp: same_links_def wizard_told_def bridge_told_def)

lemma same_linksI:
  "config b' = config b \<Longrightarrow> prefs b' = prefs b \<Longrightarrow> shared_key b' = shared_key b \<Longrightarrow>
    aes_key_handle b' = aes_key_handle b \<Longrightarrow> linked_lock b' = linked_lock b \<Longrightarrow> lock_linked b' = lock_linked b \<Longrightarrow>
    bridge.keypad_info b' = bridge.keypad_info b \<Longrightarrow> keypad_paired b' = keypad_paired b \<Longrightarrow> ui b' = ui b \<Longrightarrow>
    same_links b b'"
  by (simp add: same_links_def)

lemma radio_task_links:
  "same_links b (server_event callback b)" "same_links b (handle_battery_advert adv b)" "same_links b (apply_pending_lock_relay b)"
  using advert_fills_slots [of b adv]
  by (auto simp: same_links_def server_event_def push_connect_def push_disconnect_def push_rx_def
      advert_slots_only_def apply_pending_lock_relay_def Let_def split: server_callback.split)

lemma relay_task_links: "same_links b (fst (run_relay_task be cr cfg plaintext cmd c blog b))"
  by (auto simp: same_links_def run_relay_task_def relay_task_ends_def post_relay_result_def Let_def
      split: prod.split)

definition told_alike :: "bridge \<Rightarrow> bridge \<Rightarrow> bool" where
  "told_alike b b' \<longleftrightarrow> pref_shared_key (prefs b') = pref_shared_key (prefs b) \<and> shared_key b' = shared_key b \<and>
    lock_linked b' = lock_linked b \<and> keypad_paired b' = keypad_paired b \<and> ui b' = ui b"

lemma told_alike_wizard: "told_alike b b' \<Longrightarrow> wizard_told b w \<Longrightarrow> wizard_told b' w"
  by (simp add: told_alike_def wizard_told_def bridge_told_def)

lemma told_alike_trans: "told_alike a b \<Longrightarrow> told_alike b c \<Longrightarrow> told_alike a c"
  by (simp add: told_alike_def)

lemma same_links_alike: "same_links b b' \<Longrightarrow> told_alike b b'"
  by (simp add: same_links_def told_alike_def)

lemma emit_alike [simp]: "told_alike b (emit e b') = told_alike b b'" "told_alike b (emit_if p e b') = told_alike b b'"
  by (simp_all add: told_alike_def)

lemma battery_alike:
  "told_alike b (apply_pending_keypad_battery b)" "told_alike b (apply_pending_lock_battery b)"
  "told_alike b (maybe_finish_battery_scan env b)" "told_alike b (maybe_start_battery_scan env b)"
proof -
  show "told_alike b (apply_pending_keypad_battery b)"
    by (auto simp: told_alike_def apply_pending_keypad_battery_def publish_keypad_battery_if_changed_def
        save_keypad_info_def sync_def Let_def split: option.split)
  show "told_alike b (apply_pending_lock_battery b)"
    by (auto simp: told_alike_def apply_pending_lock_battery_def publish_lock_battery_if_changed_def
        Let_def split: option.split)
  show "told_alike b (maybe_finish_battery_scan env b)"
    by (auto simp: told_alike_def maybe_finish_battery_scan_def set_deadline_def Let_def)
  show "told_alike b (maybe_start_battery_scan env b)"
    by (auto simp: told_alike_def maybe_start_battery_scan_def set_deadline_def prepare_scan_def Let_def)
qed

lemma loop_battery_alike: "told_alike b (loop_battery env1 env2 w b)"
  unfolding loop_battery_def using battery_alike told_alike_trans by (auto simp: told_alike_def)

lemma loop_drain_links: "loop_drain xc platform w (b, r) = (b', r') \<Longrightarrow> same_links b b'"
proof -
  assume run: "loop_drain xc platform w (b, r) = (b', r')"
  from process_events_follow [OF run [unfolded loop_drain_def Let_def fst_conv snd_conv]]
  show "same_links b b'" by (auto simp: follows_session_def Let_def same_links_def)
qed

lemma setup_told:
  assumes b': "b' = bridge_setup bt b" and ok: "\<not> failed b'"
  shows "bridge_told b'"
proof -
  define b1 where "b1 = restore_keypad_info (restore_keypad_name (restore_key bt b))"
  define b2 where "b2 = set_deadline (bt_millis bt + BATTERY_SCAN_RETRY_MS) (restore_linked_lock b1)"
  define b3 where "b3 = (if \<not> lock_linked b2 then clear_lock_battery b2 else b2)"
  obtain k b4 where k: "prepare_keys bt b3 = (k, b4)" by (metis prod.exhaust)
  obtain m b5 where m: "prepare_ble bt b4 = (m, b5)" by (metis prod.exhaust)
  have "ui_keypad_paired (ui b1) = keypad_paired b1"
    by (auto simp: b1_def restore_keypad_info_def restore_keypad_name_def Let_def)
  then have "ui_keypad_paired (ui b2) = keypad_paired b2 \<and> ui_lock_linked (ui b2) = lock_linked b2"
    by (auto simp: b2_def restore_linked_lock_def publish_defs Let_def split: option.splits)
  moreover have "told_alike b2 b3" by (simp add: b3_def told_alike_def publish_defs)
  moreover have "told_alike b3 b4"
    using k by (auto simp: told_alike_def prepare_keys_def import_aes_key_def Let_def split: if_splits option.splits)
  moreover have "told_alike b4 b5"
    using m by (auto simp: told_alike_def prepare_ble_def Let_def split: if_splits option.splits)
  moreover have "k" "m"
    using ok m unfolding b' bridge_setup_def b1_def [symmetric] b2_def [symmetric] b3_def [symmetric] Let_def k
    by (auto split: if_splits)
  then have "b' = emit_if (\<not> keypad_paired b5) StartSetupUi (b5\<lparr>ui := (ui b5)\<lparr>ui_shared_key := shared_key b5\<rparr>\<rparr>)"
    unfolding b' bridge_setup_def b1_def [symmetric] b2_def [symmetric] b3_def [symmetric] Let_def k
    by (simp add: m)
  ultimately show ?thesis
    using setup_facts(6) [OF b'] by (simp add: bridge_told_def told_alike_def)
qed

lemma reset_told:
  assumes b': "b' = reset_pairing random (Some handle) env b"
  shows "bridge_told b'"
proof -
  obtain ok b1 where imp: "import_aes_key (Some handle) (create_shared_key random b) = (ok, b1)"
    by (metis prod.exhaust)
  then have "ok" by (auto simp: import_aes_key_def Let_def)
  then have "ui_keypad_paired (ui b') = False" "ui_lock_linked (ui b') = False"
    unfolding b' reset_pairing_def imp Let_def by (simp_all add: publish_defs)
  with reset_facts [OF b'] show ?thesis by (simp add: bridge_told_def)
qed

lemma apply_pairing_told:
  assumes "bridge_told b"
  shows "bridge_told (apply_pending_pairing now b)"
    "shared_key (apply_pending_pairing now b) = shared_key b"
    "lock_linked (apply_pending_pairing now b) = lock_linked b"
    "keypad_paired (apply_pending_pairing now b) \<longleftrightarrow> keypad_paired b \<or> bridge.pending_pair b \<noteq> None"
    "bridge.pending_lock (apply_pending_pairing now b) = bridge.pending_lock b"
  using assms
  by (auto simp: bridge_told_def apply_pending_pairing_def publish_defs Let_def split: option.splits)

lemma apply_link_told:
  assumes "bridge_told b"
  shows "bridge_told (apply_pending_lock_link now b)"
    "shared_key (apply_pending_lock_link now b) = shared_key b"
    "keypad_paired (apply_pending_lock_link now b) = keypad_paired b"
    "bridge.pending_lock b = None \<Longrightarrow> apply_pending_lock_link now b = b"
  using assms
  by (auto simp: bridge_told_def apply_pending_lock_link_def publish_defs Let_def split: option.splits)

subsection \<open>The device is consistent\<close>

text \<open>
  \<open>dev_jobs\<close>: a job's task exists only while its state is RUNNING and the server is up, and carries the
  key the wizard has.
\<close>

definition dev_jobs :: "device \<Rightarrow> bool" where
  "dev_jobs d \<longleftrightarrow>
    (let w = dv_wizard d in
     (\<forall>kr. dv_pairing d = Some kr \<longrightarrow>
        wz_running w \<and> job_state_of (wz_pairer w) = RUNNING \<and> pr_shared_token kr = wz_shared_key w) \<and>
     (\<forall>lr. dv_linking d = Some lr \<longrightarrow>
        wz_running w \<and> job_state_of (wz_linker w) = RUNNING \<and> lr_shared_key lr = wz_shared_key w))"

definition dev_inv :: "bool \<Rightarrow> device \<Rightarrow> bool" where
  "dev_inv httpd d \<longleftrightarrow> wizard_told (dv_bridge d) (dv_wizard d) \<and> dev_jobs d \<and>
    (httpd \<and> \<not> keypad_paired (dv_bridge d) \<longrightarrow> wz_running (dv_wizard d))"

lemma dev_inv_bridge:
  "dev_inv httpd d \<Longrightarrow> told_alike (dv_bridge d) b \<Longrightarrow> dev_inv httpd (d\<lparr>dv_bridge := b\<rparr>)"
  by (simp add: dev_inv_def dev_jobs_def told_alike_wizard) (simp add: told_alike_def)

lemma dev_inv_parts:
  "told_alike b b' \<Longrightarrow> dev_inv httpd (set_parts (b, w) d) \<Longrightarrow> dev_inv httpd (set_parts (b', w) d)"
  by (simp add: set_parts_def dev_inv_def dev_jobs_def told_alike_wizard) (auto simp: told_alike_def)

text \<open>What the polling and the telling leave alone.\<close>

definition same_tasks :: "wizard \<Rightarrow> wizard \<Rightarrow> bool" where
  "same_tasks w w' \<longleftrightarrow> wz_running w' = wz_running w \<and> wz_pairer w' = wz_pairer w \<and> wz_linker w' = wz_linker w \<and>
    wz_shared_key w' = wz_shared_key w"

lemma dev_jobs_same: "dev_jobs d \<Longrightarrow> same_tasks (dv_wizard d) w \<Longrightarrow> dev_jobs (set_parts (b, w) d)"
  by (auto simp: dev_jobs_def same_tasks_def set_parts_def Let_def)

lemma poll_jobs_facts:
  assumes "poll_jobs w = (paired, linked, w')"
  shows "same_tasks w w'" "wz_keypad_paired w' \<longleftrightarrow> wz_keypad_paired w \<or> paired \<noteq> None"
    "wz_lock_linked w' \<longleftrightarrow> wz_lock_linked w \<or> linked \<noteq> None"
proof -
  define pw where "pw =
    (case pairing_armed w of
       None \<Rightarrow> (None, w)
     | Some (job, name) \<Rightarrow>
         if job_state_of (wz_pairer w) = SUCCESS
         then commit_pairing job name (pair_status_of (wz_pairer w)) w else (None, w))"
  obtain p w1 where pw1: "pw = (p, w1)" by (cases pw)
  have 1: "same_tasks w w1 \<and> (wz_keypad_paired w1 \<longleftrightarrow> wz_keypad_paired w \<or> p \<noteq> None) \<and>
      wz_lock_linked w1 = wz_lock_linked w"
    using pw1 unfolding pw_def
    by (auto simp: same_tasks_def commit_pairing_def split: option.splits prod.splits if_splits)
  have 2: "same_tasks w1 w' \<and> wz_keypad_paired w' = wz_keypad_paired w1 \<and>
      (wz_lock_linked w' \<longleftrightarrow> wz_lock_linked w1 \<or> linked \<noteq> None) \<and> paired = p"
    using assms pw1 unfolding poll_jobs_def Let_def pw_def
    by (auto simp: same_tasks_def commit_link_def split: option.splits prod.splits if_splits)
  show "same_tasks w w'" using 1 2 by (simp add: same_tasks_def)
  show "wz_keypad_paired w' \<longleftrightarrow> wz_keypad_paired w \<or> paired \<noteq> None"
    "wz_lock_linked w' \<longleftrightarrow> wz_lock_linked w \<or> linked \<noteq> None"
    using 1 2 by simp_all
qed

text \<open>Between polling and applying, the wizard may be ahead of the bridge by the queued results.\<close>

definition queued_told :: "bridge \<Rightarrow> wizard \<Rightarrow> bool" where
  "queued_told b w \<longleftrightarrow> bridge_told b \<and> wz_shared_key w = shared_key b \<and>
    (bridge.pending_pair b = None \<longrightarrow> wz_keypad_paired w = keypad_paired b) \<and>
    (bridge.pending_lock b = None \<longrightarrow> wz_lock_linked w = lock_linked b)"

lemma loop_poll_told:
  assumes "loop_poll (b, w) = (b', w')" "wizard_told b w"
  shows "queued_told b' w' \<and> same_tasks w w' \<and> keypad_paired b' = keypad_paired b"
proof (cases "wz_running w")
  case True
  obtain paired linked w1 where p: "poll_jobs w = (paired, linked, w1)" by (metis prod_cases3)
  note f = poll_jobs_facts [OF p]
  have "w' = w1" "b' = queue_linked linked (queue_paired paired b)"
    using assms(1) True p by (simp_all add: loop_poll_def)
  with f assms(2) show ?thesis
    by (auto simp: queued_told_def wizard_told_def bridge_told_def queue_linked_def queue_paired_def same_tasks_def
        split: option.splits)
next
  case False
  with assms show ?thesis by (auto simp: loop_poll_def queued_told_def wizard_told_def same_tasks_def)
qed

lemma loop_apply_pairing_told:
  assumes "loop_apply_pairing now (b, w) = (b', w')" "queued_told b w"
  shows "queued_told b' w' \<and> wz_keypad_paired w' = keypad_paired b' \<and> same_tasks w w' \<and>
    (keypad_paired b \<longrightarrow> keypad_paired b')"
proof (cases "bridge.pending_pair b")
  case None
  with assms show ?thesis
    by (simp add: loop_apply_pairing_def queued_told_def Let_def apply_pending_pairing_def) (auto simp: same_tasks_def)
next
  case (Some pp)
  have told: "bridge_told b" using assms(2) by (simp add: queued_told_def)
  have w': "b' = apply_pending_pairing now b" "w' = tell_pairing b' w"
    using assms(1) Some by (auto simp: loop_apply_pairing_def Let_def)
  show ?thesis
    using apply_pairing_told [OF told, of now] assms(2)
    by (auto simp: w' queued_told_def tell_pairing_def same_tasks_def bridge_told_def)
qed

lemma loop_apply_link_told:
  assumes "loop_apply_link now (b, w) = (b', w')" "queued_told b w" "wz_keypad_paired w = keypad_paired b"
  shows "wizard_told b' w' \<and> same_tasks w w' \<and> keypad_paired b' = keypad_paired b"
proof (cases "bridge.pending_lock b")
  case None
  with assms show ?thesis
    by (auto simp: loop_apply_link_def queued_told_def wizard_told_def Let_def apply_pending_lock_link_def
        same_tasks_def)
next
  case (Some pl)
  have told: "bridge_told b" using assms(2) by (simp add: queued_told_def)
  have w': "b' = apply_pending_lock_link now b" "w' = tell_link b' w"
    using assms(1) Some by (auto simp: loop_apply_link_def Let_def)
  show ?thesis
    using apply_link_told [OF told, of now] assms(2,3)
    by (auto simp: w' wizard_told_def queued_told_def tell_link_def same_tasks_def bridge_told_def)
qed

lemma dev_inv_jobs:
  assumes "dev_inv httpd d"
  shows "dev_inv httpd (set_parts (loop_jobs now1 now2 (dv_bridge d, dv_wizard d)) d)"
proof -
  let ?b = "dv_bridge d" and ?w = "dv_wizard d"
  obtain b1 w1 where 1: "loop_poll (?b, ?w) = (b1, w1)" by (metis prod.exhaust)
  obtain b2 w2 where 2: "loop_apply_pairing now1 (b1, w1) = (b2, w2)" by (metis prod.exhaust)
  obtain b3 w3 where 3: "loop_apply_link now2 (b2, w2) = (b3, w3)" by (metis prod.exhaust)
  have told: "wizard_told ?b ?w" using assms by (simp add: dev_inv_def)
  from loop_poll_told [OF 1 told] have f1: "queued_told b1 w1" "same_tasks ?w w1" "keypad_paired b1 = keypad_paired ?b"
    by blast+
  from loop_apply_pairing_told [OF 2 f1(1)] have f2: "queued_told b2 w2" "wz_keypad_paired w2 = keypad_paired b2"
    "same_tasks w1 w2" "keypad_paired b1 \<longrightarrow> keypad_paired b2"
    by blast+
  from loop_apply_link_told [OF 3 f2(1,2)] have f3: "wizard_told b3 w3" "same_tasks w2 w3" "keypad_paired b3 = keypad_paired b2"
    by blast+
  have tasks: "same_tasks ?w w3" using f1(2) f2(3) f3(2) by (simp add: same_tasks_def)
  have "told_alike b3 (apply_pending_lock_relay b3)" by (intro same_links_alike radio_task_links)
  moreover have "loop_jobs now1 now2 (?b, ?w) = (apply_pending_lock_relay b3, w3)"
    by (simp add: loop_jobs_def 1 2 3)
  moreover have "dev_inv httpd (set_parts (b3, w3) d)"
    using assms tasks f1(3) f2(4) f3 dev_jobs_same [of d w3 b3]
    by (auto simp: dev_inv_def set_parts_def same_tasks_def)
  ultimately show ?thesis
    using dev_inv_parts by metis
qed

lemma dev_inv_idle:
  assumes "dev_inv httpd d"
  shows "dev_inv httpd (set_parts (loop_idle now (dv_bridge d, dv_wizard d)) d)"
proof (cases "keypad_paired (dv_bridge d)")
  case True
  obtain stopped w where s: "stop_if_idle now IDLE_TIMEOUT_MS (dv_wizard d) = (stopped, w)" by (metis prod.exhaust)
  have "stopped \<Longrightarrow> job_state_of (wz_pairer (dv_wizard d)) \<noteq> RUNNING \<and> job_state_of (wz_linker (dv_wizard d)) \<noteq> RUNNING"
    using s by (auto simp: stop_if_idle_def split: if_splits)
  then show ?thesis
    using assms True stop_if_idle_fields [OF s] s
    by (auto simp: loop_idle_def set_parts_def dev_inv_def dev_jobs_def wizard_told_def Let_def)
next
  case False
  with assms show ?thesis by (simp add: loop_idle_def set_parts_def)
qed

text \<open>A request leaves the links as they are, and a job it starts carries the wizard's key.\<close>

lemma jobs_started_told:
  "jobs_started env rq w log uri w' \<Longrightarrow> wz_keypad_paired w' = wz_keypad_paired w \<and>
    wz_lock_linked w' = wz_lock_linked w \<and> wz_shared_key w' = wz_shared_key w \<and> wz_running w' = wz_running w"
  by (auto simp: jobs_started_def browses_def tried_pairing_def tried_link_def split: if_splits)

lemma request_starts:
  "handle_request env m uri rq w log = Some (Some (reply, w', log')) \<Longrightarrow> jobs_started env rq w log uri w'"
  using handle_now_browses handle_login_browses handle_keypads_browses handle_locks_browses
    handle_pair_starts handle_lock_link_starts
  unfolding handle_request_def Let_def
  by (auto simp: jobs_started_def split: if_splits prod.splits)

lemma launch_running:
  "job_state_of (wz_pairer w) = RUNNING \<Longrightarrow> pair_launch env kr w = (job, w') \<Longrightarrow> job = [] \<and> w' = w"
  "job_state_of (wz_linker w) = RUNNING \<Longrightarrow> link_launch env lr w = (job, w') \<Longrightarrow> job = [] \<and> w' = w"
  "pair_launch env kr w = (job, w') \<Longrightarrow> job \<noteq> [] \<Longrightarrow> job_state_of (wz_pairer w') = RUNNING"
  "link_launch env lr w = (job, w') \<Longrightarrow> job \<noteq> [] \<Longrightarrow> job_state_of (wz_linker w') = RUNNING"
  by (auto simp: pair_launch_def pairer_start_def link_launch_def linker_start_def start_job_def job_state_of_def
      Let_def running_status_def split: prod.splits if_splits)

lemma launch_other:
  "pair_launch env kr w = (job, w') \<Longrightarrow> wz_linker w' = wz_linker w"
  "link_launch env lr w = (job, w') \<Longrightarrow> wz_pairer w' = wz_pairer w"
  by (auto simp: pair_launch_def link_launch_def split: prod.splits)

lemma handle_pair_tasks:
  assumes run: "handle_pair env rq w log = Some (reply, w', log')"
  shows "wz_linker w' = wz_linker w"
    "job_state_of (wz_pairer w) = RUNNING \<Longrightarrow> wz_pairer w' = wz_pairer w \<and> pairing_task env rq w log = None"
    "pairing_task env rq w log = Some kr \<Longrightarrow> job_state_of (wz_pairer w') = RUNNING \<and> pr_shared_token kr = wz_shared_key w"
proof -
  obtain res w1 log1 where p: "pair_prepare env rq w log = Some (res, w1, log1)"
    using run by (auto simp: handle_pair_def bind_eq_Some_conv)
  note cases = pair_prepare_cases [OF p]
  then have b: "wz_pairer w1 = wz_pairer w" "wz_linker w1 = wz_linker w" using browses_jobs by blast+
  have "wz_linker w' = wz_linker w \<and>
    (job_state_of (wz_pairer w) = RUNNING \<longrightarrow> wz_pairer w' = wz_pairer w \<and> pairing_task env rq w log = None) \<and>
    (pairing_task env rq w log = Some kr \<longrightarrow>
      job_state_of (wz_pairer w') = RUNNING \<and> pr_shared_token kr = wz_shared_key w)"
  proof (cases res)
    case (Inl r)
    with run p b show ?thesis by (auto simp: handle_pair_def pairing_task_def)
  next
    case (Inr kn)
    obtain kr' n where kn: "kn = (kr', n)" by force
    obtain job w2 where l: "pair_launch env kr' w1 = (job, w2)" by (metis prod.exhaust)
    have w': "w' = (if job = [] then w2 else pair_bind job n w2)"
      using run p Inr kn l by (auto simp: handle_pair_def split: if_splits)
    have task: "pairing_task env rq w log = (if job = [] then None else Some kr')"
      using p Inr kn l by (simp add: pairing_task_def)
    have "pr_shared_token kr' = wz_shared_key w"
      using cases Inr kn by (auto simp: pair_request_for_def browses_def)
    then show ?thesis
      using launch_running(1) [OF _ l] launch_running(3) [OF l] launch_other(1) [OF l] l b
      by (auto simp: w' task pair_bind_def)
  qed
  then show "wz_linker w' = wz_linker w"
    "job_state_of (wz_pairer w) = RUNNING \<Longrightarrow> wz_pairer w' = wz_pairer w \<and> pairing_task env rq w log = None"
    "pairing_task env rq w log = Some kr \<Longrightarrow> job_state_of (wz_pairer w') = RUNNING \<and> pr_shared_token kr = wz_shared_key w"
    by blast+
qed

lemma handle_link_tasks:
  assumes run: "handle_lock_link env rq w log = Some (reply, w', log')"
  shows "wz_pairer w' = wz_pairer w"
    "job_state_of (wz_linker w) = RUNNING \<Longrightarrow> wz_linker w' = wz_linker w \<and> link_task env rq w log = None"
    "link_task env rq w log = Some lr \<Longrightarrow> job_state_of (wz_linker w') = RUNNING \<and> lr_shared_key lr = wz_shared_key w"
proof -
  obtain res w1 log1 where p: "link_prepare env rq w log = Some (res, w1, log1)"
    using run by (auto simp: handle_lock_link_def bind_eq_Some_conv)
  note cases = link_prepare_cases [OF p]
  then have b: "wz_pairer w1 = wz_pairer w" "wz_linker w1 = wz_linker w" using browses_jobs by blast+
  have "wz_pairer w' = wz_pairer w \<and>
    (job_state_of (wz_linker w) = RUNNING \<longrightarrow> wz_linker w' = wz_linker w \<and> link_task env rq w log = None) \<and>
    (link_task env rq w log = Some lr \<longrightarrow>
      job_state_of (wz_linker w') = RUNNING \<and> lr_shared_key lr = wz_shared_key w)"
  proof (cases res)
    case (Inl r)
    with run p b show ?thesis by (auto simp: handle_lock_link_def link_task_def)
  next
    case (Inr lr')
    obtain job w2 where l: "link_launch env lr' w1 = (job, w2)" by (metis prod.exhaust)
    have w': "w' = (if job = [] then w2 else link_bind job w2)"
      using run p Inr l by (auto simp: handle_lock_link_def split: if_splits)
    have task: "link_task env rq w log = (if job = [] then None else Some lr')"
      using p Inr l by (simp add: link_task_def)
    have "lr_shared_key lr' = wz_shared_key w"
      using cases Inr by (auto simp: link_request_for_def browses_def)
    then show ?thesis
      using launch_running(2) [OF _ l] launch_running(4) [OF l] launch_other(2) [OF l] l b
      by (auto simp: w' task link_bind_def)
  qed
  then show "wz_pairer w' = wz_pairer w"
    "job_state_of (wz_linker w) = RUNNING \<Longrightarrow> wz_linker w' = wz_linker w \<and> link_task env rq w log = None"
    "link_task env rq w log = Some lr \<Longrightarrow> job_state_of (wz_linker w') = RUNNING \<and> lr_shared_key lr = wz_shared_key w"
    by blast+
qed

lemma other_request_tasks:
  assumes run: "handle_request env m uri rq w log = Some (Some (reply, w', log'))"
    and "(uri, m) \<noteq> (''/api/pair'', POST)" "(uri, m) \<noteq> (''/api/lock/link'', POST)"
  shows "wz_pairer w' = wz_pairer w \<and> wz_linker w' = wz_linker w"
proof -
  have "browses env w w'"
    using assms handle_now_browses handle_login_browses handle_keypads_browses handle_locks_browses
    unfolding handle_request_def Let_def
    by (auto split: if_splits prod.splits)
  with browses_jobs show ?thesis by blast
qed

lemma dev_inv_request:
  assumes inv: "dev_inv httpd d" and up: "wz_running (dv_wizard d)"
    and run: "handle_request env m uri rq (dv_wizard d) log = Some (Some (reply, w', log'))"
  shows "dev_inv httpd (serve env m uri rq log w' d)"
proof -
  let ?w = "dv_wizard d"
  note told = jobs_started_told [OF request_starts [OF run]]
  have inv': "wizard_told (dv_bridge d) w'" "httpd \<and> \<not> keypad_paired (dv_bridge d) \<longrightarrow> wz_running w'"
    using inv told by (auto simp: dev_inv_def wizard_told_def)
  have jobs: "dev_jobs d" using inv by (simp add: dev_inv_def)
  consider "(uri, m) = (''/api/pair'', POST)" | "(uri, m) = (''/api/lock/link'', POST)"
    | "(uri, m) \<noteq> (''/api/pair'', POST)" "(uri, m) \<noteq> (''/api/lock/link'', POST)" by blast
  then have "dev_jobs (serve env m uri rq log w' d)"
  proof cases
    case 1
    then have h: "handle_pair env rq ?w log = Some (reply, w', log')"
      using run by (simp add: handle_request_def Let_def)
    note f = handle_pair_tasks [OF h]
    show ?thesis
      using 1 jobs told up f(1,2) f(3)
      by (cases "pairing_task env rq ?w log") (auto simp: serve_def dev_jobs_def or_task_def Let_def)
  next
    case 2
    then have h: "handle_lock_link env rq ?w log = Some (reply, w', log')"
      using run by (simp add: handle_request_def Let_def)
    note f = handle_link_tasks [OF h]
    show ?thesis
      using 2 jobs told up f(1,2) f(3)
      by (cases "link_task env rq ?w log") (auto simp: serve_def dev_jobs_def or_task_def Let_def)
  next
    case 3
    with other_request_tasks [OF run 3] jobs told show ?thesis
      by (auto simp: serve_def dev_jobs_def Let_def)
  qed
  with inv' show ?thesis by (simp add: dev_inv_def serve_def)
qed

lemma dev_inv_ends:
  "dev_inv httpd d \<Longrightarrow> dev_inv httpd (d\<lparr>dv_wizard := (dv_wizard d)\<lparr>wz_pairer := p\<rparr>, dv_pairing := None\<rparr>)"
  "dev_inv httpd d \<Longrightarrow> dev_inv httpd (d\<lparr>dv_wizard := (dv_wizard d)\<lparr>wz_linker := l\<rparr>, dv_linking := None\<rparr>)"
  by (auto simp: dev_inv_def dev_jobs_def wizard_told_def Let_def)

lemma dev_inv_setup:
  assumes s: "device_setup bt httpd (b0, w0) = (b, w)" and ok: "\<not> failed b"
  shows "dev_inv httpd (device_of (b, w))"
proof -
  have b: "b = bridge_setup bt b0"
    and w: "w = (let w2 = tell_key b (tell_link b (tell_pairing b w0))
      in if \<not> keypad_paired b then snd (ui_start httpd (bt_millis bt) w2) else w2)"
    using s ok by (auto simp: device_setup_def Let_def split: if_splits)
  have told: "bridge_told b" using setup_told [OF b] ok by simp
  have "wizard_told b w"
    using told by (auto simp: w Let_def wizard_told_def bridge_told_def tell_key_def tell_link_def tell_pairing_def ui_start_def)
  moreover have "httpd \<Longrightarrow> \<not> keypad_paired b \<Longrightarrow> wz_running w"
    by (auto simp: w Let_def ui_start_def)
  ultimately show ?thesis by (simp add: dev_inv_def device_of_def dev_jobs_def)
qed

lemma dev_inv_button:
  assumes inv: "dev_inv httpd d"
  shows "dev_inv httpd (set_parts (device_press_reset random (Some handle) rad httpd now (dv_bridge d, dv_wizard d)) d)"
proof (cases "wz_running (dv_wizard d)")
  case True
  with inv show ?thesis by (simp add: device_press_reset_def set_parts_def)
next
  case False
  let ?b = "reset_pairing random (Some handle) rad (dv_bridge d)"
  define w where "w = snd (ui_start httpd now (tell_key ?b (tell_pairing ?b (tell_link ?b (dv_wizard d)))))"
  have parts: "device_press_reset random (Some handle) rad httpd now (dv_bridge d, dv_wizard d) = (?b, w)"
    using False by (simp add: device_press_reset_def device_reset_def w_def Let_def)
  have told: "bridge_told ?b" by (rule reset_told) simp
  have "wizard_told ?b w"
    using told by (auto simp: w_def wizard_told_def bridge_told_def tell_key_def tell_link_def tell_pairing_def ui_start_def)
  moreover have "httpd \<Longrightarrow> wz_running w" by (auto simp: w_def ui_start_def)
  moreover have "dv_pairing d = None" "dv_linking d = None"
    using inv False by (auto simp: dev_inv_def dev_jobs_def Let_def)
  ultimately show ?thesis unfolding parts by (simp add: dev_inv_def dev_jobs_def set_parts_def)
qed

lemma dev_inv_step: "device_step httpd d d' \<Longrightarrow> dev_inv httpd d \<Longrightarrow> dev_inv httpd d'"
proof (induction rule: device_step.induct)
  case (drain xc platform d r b r' env1 env2)
  from loop_drain_links [OF drain(1)] have "told_alike (dv_bridge d) (loop_battery env1 env2 (dv_wizard d) b)"
    using same_links_alike told_alike_trans loop_battery_alike by blast
  with drain show ?case by (simp add: dev_inv_bridge)
qed (use radio_task_links relay_task_links same_links_alike dev_inv_setup in
  \<open>auto intro: dev_inv_jobs dev_inv_idle dev_inv_request dev_inv_ends dev_inv_bridge dev_inv_button\<close>)

lemma reachable_dev_inv: "device_reachable httpd d \<Longrightarrow> dev_inv httpd d"
  by (induction rule: device_reachable.induct) (auto intro: dev_inv_setup dev_inv_step)


definition boot_device :: device where
  "boot_device = device_of (device_setup test_boot True
    (initial_bridge (config jobs_bridge) (prefs (test_bridge initial_session)), initial_wizard))"

lemma boot_device_setup:
  "device_setup test_boot True (initial_bridge (config jobs_bridge) (prefs (test_bridge initial_session)),
      initial_wizard\<lparr>wz_html := None\<rparr>) = (dv_bridge boot_device, dv_wizard boot_device)"
  by (simp add: boot_device_def device_of_def initial_wizard_def)

lemma boot_device_facts:
  "\<not> failed (dv_bridge boot_device)" "shared_key (dv_bridge boot_device) = replicate 16 9"
  "\<not> keypad_paired (dv_bridge boot_device)"
  by code_simp+

text \<open>A first boot, a sign-in and a pairing request.\<close>

definition boot_request :: pair_request where
  "boot_request = race_request\<lparr>pr_shared_token := replicate 16 9\<rparr>"

lemma boot_request_for:
  "wz_shared_key w = replicate 16 9 \<Longrightarrow>
    pair_request_for test_wizard_env VISION test_device 0xC6 online_key w = boot_request"
  using arg_cong [OF race_request_for [of "w\<lparr>wz_shared_key := replicate 16 0\<rparr>"],
      of "\<lambda>kr. kr\<lparr>pr_shared_token := replicate 16 9\<rparr>"]
  by (simp add: pair_request_for_def boot_request_def)

lemma boot_launch:
  "wz_pairer w = initial_pairer \<Longrightarrow> pair_launch test_wizard_env boot_request w = (''p-5'', w\<lparr>wz_pairer := race_pairer\<rparr>)"
  by (simp add: pair_launch_def test_wizard_env_def pairer_start_def start_job_def race_ids initial_pairer_def
      idle_status_def race_pairer_def race_request_def boot_request_def pair_step_count_def VISION_STEP_COUNT_def Let_def)

lemma pairing_device:
  "\<exists>d. device_reachable True d \<and> dv_pairing d = Some boot_request \<and> wz_pairer (dv_wizard d) = race_pairer"
proof -
  let ?w = "dv_wizard boot_device"
  have parts: "boot_device = device_of (dv_bridge boot_device, ?w)" by (simp add: boot_device_def device_of_def)
  have boot: "device_reachable True boot_device"
    using device_reachable.first_boot [OF _ _ boot_device_setup boot_device_facts(1)] parts
    by (simp add: test_boot_def prefs_sized_def test_bridge_def initial_bridge_def)
  have w: "wz_running ?w" "\<not> wz_keypad_paired ?w" "wz_pairer ?w = initial_pairer" "wz_cloud ?w = logged_out"
    by code_simp+
  let ?req = "handle_request test_wizard_env POST"
  obtain cloud log1 where l: "login test_json online ''a'' ''b'' logged_out [] = Some (Inr (), cloud, log1)"
    and c: "is_logged_in cloud" "devices_cache cloud = []"
    by (auto simp: online_login is_logged_in_def logged_out_def cloud_clear_def)
  define w1 where "w1 = ?w\<lparr>wz_last_activity := 1000, wz_cloud := cloud\<rparr>"
  have "\<exists>reply. ?req ''/api/login'' test_body ?w [] = Some (Some (reply, w1, log1))"
  proof -
    have "extract_json_str test_json body ''email'' = ''a''" "extract_json_str test_json body ''password'' = ''b''" for body
      by (simp_all add: extract_json_str_def test_json_def c_str_def)
    with l w(4) show ?thesis
      by (simp add: handle_request_def handle_login_def touch_activity_def test_wizard_env_def w1_def Let_def)
  qed
  then obtain reply where signed: "?req ''/api/login'' test_body ?w [] = Some (Some (reply, w1, log1))" ..
  let ?d1 = "serve test_wizard_env POST ''/api/login'' test_body [] w1 boot_device"
  from device_step.request [OF w(1) signed, of True] boot have d1: "device_reachable True ?d1"
    by (rule device_reachable.step [rotated])
  have w1: "dv_wizard ?d1 = w1" "wz_running w1" "wz_pairer w1 = initial_pairer" "\<not> wz_keypad_paired w1"
    "is_logged_in (wz_cloud w1)" "devices_cache (wz_cloud w1) \<in> {[], [test_device]}"
    using w c by (simp_all add: serve_def w1_def)
  have "wz_shared_key w1 = replicate 16 9"
    using boot_device_facts(2) reachable_dev_inv [OF boot] by (simp add: w1_def dev_inv_def wizard_told_def)
  note rq = boot_request_for [OF this]
  define v where "v = w1\<lparr>wz_last_activity := 1000, wz_cloud := (wz_cloud w1)\<lparr>devices_cache := [test_device]\<rparr>\<rparr>"
  obtain log2 where p: "pair_prepare test_wizard_env test_body w1 [] = Some (Inr (boot_request, ''B0:E9:FE:61:2E:75''), v, log2)"
    using test_pair_prepare [OF w1(5,6,4), of "[]"] unfolding rq v_def by blast
  have l: "pair_launch test_wizard_env boot_request u = (''p-5'', u\<lparr>wz_pairer := race_pairer\<rparr>)" if "wz_pairer u = initial_pairer" for u
    using that by (rule boot_launch)
  have v: "wz_pairer v = initial_pairer" using w1(3) by (simp add: v_def)
  have task: "pairing_task test_wizard_env test_body w1 [] = Some boot_request"
    by (simp add: pairing_task_def p l [OF v])
  obtain reply' w2 where "handle_pair test_wizard_env test_body w1 [] = Some (reply', w2, log2)"
    and w2: "wz_pairer w2 = race_pairer"
    unfolding handle_pair_def p by (simp add: l [OF v] pair_bind_def)
  then have run: "?req ''/api/pair'' test_body (dv_wizard ?d1) [] = Some (Some (reply', w2, log2))"
    by (simp add: handle_request_def w1(1) Let_def)
  let ?d2 = "serve test_wizard_env POST ''/api/pair'' test_body [] w2 ?d1"
  have "device_step True ?d1 ?d2" using device_step.request [OF _ run] w1(1,2) by simp
  with d1 have "device_reachable True ?d2" by (rule device_reachable.step)
  moreover have "dv_pairing ?d2 = Some boot_request" "wz_pairer (dv_wizard ?d2) = race_pairer"
    using task w2 by (simp_all add: serve_def or_task_def)
  ultimately show ?thesis by blast
qed


subsection \<open>A relay, from start to end\<close>

text \<open>\<open>quiet log log'\<close>: the log grew, and no response was handed to a callback.\<close>

definition quiet :: "ble_log \<Rightarrow> ble_log \<Rightarrow> bool" where
  "quiet log log' \<longleftrightarrow> (\<exists>es. log' = log @ es \<and> \<not> relay_replied es)"

lemma relay_replied_append [simp]: "relay_replied (xs @ ys) \<longleftrightarrow> relay_replied xs \<or> relay_replied ys"
  by (simp add: relay_replied_def)

lemma quiet_refl [simp]: "quiet log log"
  by (simp add: quiet_def relay_replied_def)

lemma quiet_trans: "quiet a b \<Longrightarrow> quiet b c \<Longrightarrow> quiet a c"
  by (auto simp: quiet_def)

lemma quiet_append: "\<not> relay_replied es \<Longrightarrow> quiet log (log @ es)"
  by (auto simp: quiet_def)

lemma quiet_more: "quiet a b \<Longrightarrow> \<not> relay_replied es \<Longrightarrow> quiet a (b @ es)"
  using quiet_trans quiet_append by blast

lemma quiet_log_if: "quiet a b \<Longrightarrow> quiet a (log_if p (EvProgress q) b)"
  by (auto simp: log_if_def intro: quiet_more simp: relay_replied_def)

lemma connect_service_quiet: "connect_switchbot_service env a t l log = (res, log') \<Longrightarrow> quiet log log'"
  by (auto simp: connect_switchbot_service_def Let_def relay_replied_def intro!: quiet_append
      split: if_splits prod.splits)

lemma discover_quiet: "discover_target env mac t log = (a, log') \<Longrightarrow> quiet log log'"
  by (auto simp: discover_target_def Let_def relay_replied_def intro!: quiet_append split: option.splits)

lemma try_target_quiet: "try_target env p lc n a c log = (res, c', log') \<Longrightarrow> quiet log log'"
  by (auto simp: try_target_def dest!: connect_service_quiet split: prod.splits sum.splits if_splits
      intro: quiet_log_if quiet_trans [OF quiet_log_if [OF quiet_refl]])

lemma connect_attempts_quiet:
  "connect_attempts env p lc ns c log = (res, c', log') \<Longrightarrow> quiet log log'"
proof (induction ns arbitrary: c log)
  case (Cons n ns)
  obtain target log1 where t: "(if n = 0
      then (if cached_mac c \<noteq> [] \<and> cached_mac c = cfg_mac lc then cached_addr c
            else address_from_mac (cfg_mac lc), log)
      else discover_target env (cfg_mac lc) 2500 (log_if p (EvProgress PHASE_SCAN) log)) = (target, log1)"
    by (metis prod.exhaust)
  then have "quiet log log1"
    by (auto dest!: discover_quiet intro: quiet_trans [OF quiet_log_if [OF quiet_refl]] split: if_splits)
  moreover obtain r c1 log2 where tt: "try_target env p lc n target c log1 = (r, c1, log2)"
    by (metis prod_cases3)
  note try_target_quiet [OF tt]
  ultimately show ?case
    using Cons.prems Cons.IH [of c1 log2] t tt
    by (auto simp: Let_def split: if_splits option.splits intro: quiet_trans)
qed simp

lemma subscribe_quiet: "subscribe_notify env log = (res, log') \<Longrightarrow> quiet log log'"
  by (auto simp: subscribe_notify_def Let_def relay_replied_def intro!: quiet_append split: if_splits)

lemma single_run_quiet:
  "run_session env cr lc m1 m2 p (progress_command p) True [pt] log = (res, rs, log') \<Longrightarrow>
    (\<exists>es. log' = log @ es \<and> (relay_replied es \<longrightarrow> res = Inr ()))"
  by (auto simp: run_session_def send_encrypted_def Let_def relay_replied_def progress_command_def log_if_def
      split: if_splits option.splits sum.splits prod.splits)

lemma sequence_replied:
  assumes "send_plaintext_sequence env cr lc [pt] p True c log = (res, rs, c', log')" "res \<noteq> Inr ()"
  shows "\<not> relay_replied (drop (length log) log')"
proof -
  have "quiet log log'"
    using assms(1)
  proof (cases rule: sequence_cases)
    case (session log1 log2 log3)
    have "quiet log log2"
      using session(1,2) connect_attempts_quiet subscribe_quiet quiet_trans unfolding connect_lock_def by blast
    moreover have "quiet log2 log3"
      using single_run_quiet [OF session(4)] assms(2) by (auto simp: quiet_def)
    ultimately show ?thesis
      unfolding session(5) teardown_def using quiet_trans by (auto intro!: quiet_more simp: relay_replied_def)
  qed (use connect_attempts_quiet subscribe_quiet quiet_trans in \<open>unfold connect_lock_def; blast | simp\<close>)+
  then show ?thesis by (auto simp: quiet_def)
qed

definition lock_answered ::
  "lock_ciphers \<Rightarrow> lock_config \<Rightarrow> byte list \<Rightarrow> ble_log \<Rightarrow> ble_log \<Rightarrow> bool" where
  "lock_answered cr cfg plaintext log log' \<longleftrightarrow>
    (\<exists>s wire frame reply response. parse_session_response wire = Inr s \<and>
      encrypt_frame cr cfg s plaintext = Inr frame \<and>
      writes_of log' = writes_of log @ [(iv_request_for (cfg_key_id cfg), True), (frame, True)] \<and>
      notified log' = notified log @ [wire, reply] \<and> decrypt_notify cr cfg s reply = Inr response)"

lemma single_sequence_answered:
  assumes "send_plaintext_sequence env cr cfg [pt] p cb c log = (Inr (), rs, c', log')"
  shows "lock_answered cr cfg pt log log'"
  using assms
proof (cases rule: sequence_cases)
  case (session log1 log2 log3)
  note t = connect_lock_trace [OF session(1)] subscribe_trace [OF session(2)]
  from run_session_success [OF announce_silent(1,2) session(4)] t session(5)
  obtain s wire written replies where "parse_session_response wire = Inr s"
    "writes_of log' = writes_of log @ (iv_request_for (cfg_key_id cfg), True) # written"
    "notified log' = notified log @ wire # replies" "exchanged cr cfg s [pt] rs written replies"
    by auto
  then show ?thesis
    by (auto simp: lock_answered_def exchanged_def list_all2_Cons1 length_Suc_conv list_all2_Cons2)
qed simp_all

text \<open>
  C13. A relay accounts for itself. Whatever the BLE stack and the lock do, a relay task releases the
  busy flag and every radio resource it took, changes nothing else of the bridge, and posts one outcome
  for its command; the outcome is a success exactly when the exchange succeeded, and then the lock
  opened a session for the slot asked for, received exactly one frame, the keypad's plaintext encrypted
  under that session, and its answer decrypted.
\<close>

theorem relay_accounts_for_itself:
  assumes "run_relay_task env cr cfg plaintext cmd c log b = (b', c', log')"
  shows "\<exists>ok. b' = b\<lparr>relay_outcome := Some (cmd, ok), lock_relay_busy := False\<rparr> \<and>
    held_after log' = held_after log \<and>
    (ok \<longleftrightarrow> (\<exists>r. fst (send_plaintext env cr cfg plaintext False True c log) = Inr r)) \<and>
    (ok \<longrightarrow> lock_answered cr cfg plaintext log log')"
proof -
  obtain res c1 log1 where send: "send_plaintext env cr cfg plaintext False True c log = (res, c1, log1)"
    by (metis prod_cases3)
  define ok where "ok \<longleftrightarrow> (\<exists>r. res = Inr r)"
  have facts: "held_after log1 = held_after log" "ok \<Longrightarrow> lock_answered cr cfg plaintext log log1"
    "\<not> ok \<Longrightarrow> \<not> relay_replied (drop (length log) log1)"
  proof -
    obtain out rs c2 log2 where run:
        "send_plaintext_sequence env cr cfg [plaintext] False True c log = (out, rs, c2, log2)"
      by (metis prod_cases4)
    have cases: "plaintext = [] \<and> log1 = log \<and> \<not> ok \<or> log1 = log2 \<and> (ok \<longleftrightarrow> out = Inr ())"
      using send run by (auto simp: send_plaintext_def ok_def split: if_splits sum.splits)
    show "held_after log1 = held_after log" using cases sequence_held [OF run] by auto
    show "ok \<Longrightarrow> lock_answered cr cfg plaintext log log1"
      using cases run single_sequence_answered by auto
    show "\<not> ok \<Longrightarrow> \<not> relay_replied (drop (length log) log1)"
      using cases sequence_replied [OF run] by (auto simp: relay_replied_def)
  qed
  have "b' = b\<lparr>relay_outcome := Some (cmd, ok), lock_relay_busy := False\<rparr>" "log' = log1"
    using assms send facts(3)
    by (cases ok; auto simp: run_relay_task_def relay_task_ends_def post_relay_result_def Let_def ok_def
        split: sum.splits)+
  with facts send show ?thesis by (auto simp: ok_def)
qed

theorem relay_accounts_for_itself_witness:
  "\<exists>log'. lock_answered stub_ciphers test_lock_config [0x0F, 0x4E] [] log' \<and> held_after log' = nothing_held"
proof -
  obtain b' c' log' where run: "run_relay_task answering_lock stub_ciphers test_lock_config [0x0F, 0x4E]
      (command initial_session) initial_client [] (test_bridge initial_session) = (b', c', log')"
    by (metis prod_cases3)
  have "case send_plaintext answering_lock stub_ciphers test_lock_config [0x0F, 0x4E] False True initial_client [] of
      (res, _) \<Rightarrow> (case res of Inl e \<Rightarrow> False | Inr r \<Rightarrow> True)"
    by code_simp
  then have "\<exists>r. fst (send_plaintext answering_lock stub_ciphers test_lock_config [0x0F, 0x4E] False True
      initial_client []) = Inr r"
    by (auto split: prod.splits sum.splits)
  with relay_accounts_for_itself [OF run] show ?thesis
    by (auto simp: held_after_def nothing_held_def)
qed

lemma reset_pending:
  "bridge.pending_pair (reset_pairing random (Some handle) rad b) = bridge.pending_pair b"
  "bridge.pending_lock (reset_pairing random (Some handle) rad b) = bridge.pending_lock b"
proof -
  obtain ok b1 where imp: "import_aes_key (Some handle) (create_shared_key random b) = (ok, b1)"
    by (metis prod.exhaust)
  then have "ok" "bridge.pending_pair b1 = bridge.pending_pair b" "bridge.pending_lock b1 = bridge.pending_lock b"
    by (auto simp: import_aes_key_def create_shared_key_def sync_def Let_def split: if_splits)
  moreover have "bridge.pending_pair (stop_battery_scan rad b1) = bridge.pending_pair b1"
    "bridge.pending_lock (stop_battery_scan rad b1) = bridge.pending_lock b1"
    by (simp_all add: stop_battery_scan_def Let_def)
  ultimately show "bridge.pending_pair (reset_pairing random (Some handle) rad b) = bridge.pending_pair b"
    "bridge.pending_lock (reset_pairing random (Some handle) rad b) = bridge.pending_lock b"
    unfolding reset_pairing_def imp Let_def by (simp_all add: publish_defs)
qed

text \<open>
  The finding about the idle shutdown: a link job that ends between the observation of finished jobs
  and the idle check of the same loop, after five minutes without a request, is not observed; the
  wizard is closed with it. The result waits until the Reset button opens the wizard again, and the
  next loop then links the lock to the bridge that was just reset, whose key the lock does not have.
\<close>

lemma finished_link_surfaces_after_reset:
  assumes up: "wz_running w" "keypad_paired b" "wz_last_activity w \<noteq> 0" "now - wz_last_activity w \<ge> IDLE_TIMEOUT_MS"
    and pairer: "job_state_of (wz_pairer w) \<noteq> RUNNING" "pairing_armed w = None"
    and linker: "job_state_of (wz_linker w) = SUCCESS" "link_armed w = Some (st_job_id (status (wz_linker w)))"
    and mac: "parse_mac_pretty (lk_mac (wz_linker w)) = Some mac"
    and b: "bridge.pending_pair b = None" "bridge.pending_lock b = None"
    and reset: "device_press_reset random (Some handle) rad True now1 (loop_idle now (b, w)) = (b1, w1)"
    and loop: "loop_jobs now2 now3 (b1, w1) = (b2, w2)"
  shows "shared_key b2 = random \<and> \<not> keypad_paired b2 \<and> lock_linked b2 \<and> ll_mac (linked_lock b2) = mac \<and>
    wz_lock_linked w2"
proof -
  let ?l = "wz_linker w"
  have closed: "loop_idle now (b, w) = (b, ui_stop w)"
    using up pairer(1) linker(1) by (auto simp: loop_idle_def stop_if_idle_def)
  define b0 where "b0 = reset_pairing random (Some handle) rad b"
  have r: "b1 = b0" "w1 = snd (ui_start True now1 (tell_key b0 (tell_pairing b0 (tell_link b0 (ui_stop w)))))"
    using reset unfolding closed by (auto simp: device_press_reset_def device_reset_def ui_stop_def b0_def Let_def)
  note f = reset_facts [OF b0_def]
  have told: "bridge_told b0" using b0_def by (rule reset_told)
  have none: "bridge.pending_pair b0 = None" "bridge.pending_lock b0 = None"
    using b unfolding b0_def by (simp_all add: reset_pending)
  have w1: "wz_running w1" "pairing_armed w1 = None" "link_armed w1 = Some (st_job_id (status ?l))" "wz_linker w1 = ?l"
    using pairer(2) linker(2) unfolding r(2)
    by (auto simp: ui_start_def ui_stop_def tell_key_def tell_pairing_def tell_link_def pairing_armed_def link_armed_def
        split: if_splits)
  then have "wz_link_job w1 = st_job_id (status ?l)" "\<not> wz_link_notified w1"
    by (auto simp: link_armed_def split: if_splits)
  moreover have "st_job_id (link_status_of ?l) = st_job_id (status ?l)" "ls_mac (link_status_of ?l) = lk_mac ?l"
    by (simp_all add: link_status_of_def job_status.defs)
  ultimately obtain n m sl where poll: "poll_jobs w1 =
      (None, Some (n, lk_mac ?l, m, sl), w1\<lparr>wz_link_notified := True, wz_lock_linked := True\<rparr>)"
    using w1 linker(1) by (simp add: poll_jobs_def commit_link_def)
  show ?thesis
    using loop mac none f(1,5) told
    by (auto simp: loop_jobs_def loop_poll_def w1(1) r(1) poll queue_paired_def queue_linked_def
        loop_apply_pairing_def apply_pending_pairing_def loop_apply_link_def apply_pending_lock_link_def
        apply_pending_lock_relay_def tell_link_def publish_defs bridge_told_def Let_def)
qed

end
