(* ===== verification/Device_Types.thy ===== *)
theory Device_Types
  imports Bridge_Loop
begin

text \<open>
  The invariants of the components, kept by everything that happens to the whole device: the
  session's generations, the battery scan's bookkeeping, and the sizes of the fixed buffers in memory
  and in flash.
\<close>

definition bridge_typed :: "bridge \<Rightarrow> bool" where
  "bridge_typed b \<longleftrightarrow> session_inv (session b) \<and> battery_inv b \<and> length (shared_key b) = 16 \<and>
    info_sized (bridge.keypad_info b) \<and> lock_sized (linked_lock b) \<and> prefs_sized (prefs b)"

lemma empty_sized [simp]: "info_sized empty_keypad_info" "lock_sized empty_linked_lock"
  by (simp_all add: info_sized_def empty_keypad_info_def lock_sized_def empty_linked_lock_def)

lemma battery_inv_other [simp]:
  "battery_inv (b\<lparr>session := s\<rparr>) = battery_inv b" "battery_inv (b\<lparr>bridge.lock_state := l\<rparr>) = battery_inv b"
  "battery_inv (b\<lparr>lock_relay_busy := y\<rparr>) = battery_inv b" "battery_inv (b\<lparr>relay_outcome := z\<rparr>) = battery_inv b"
  "battery_inv (b\<lparr>rx_queue := q\<rparr>) = battery_inv b" "battery_inv (b\<lparr>prefs := p\<rparr>) = battery_inv b"
  "battery_inv (b\<lparr>shared_key := k\<rparr>) = battery_inv b" "battery_inv (b\<lparr>aes_key_handle := h\<rparr>) = battery_inv b"
  "battery_inv (b\<lparr>linked_lock := i\<rparr>) = battery_inv b" "battery_inv (b\<lparr>lock_linked := y\<rparr>) = battery_inv b"
  "battery_inv (b\<lparr>bridge.keypad_info := j\<rparr>) = battery_inv b" "battery_inv (b\<lparr>keypad_paired := y\<rparr>) = battery_inv b"
  "battery_inv (b\<lparr>bridge.pending_pair := pp\<rparr>) = battery_inv b"
  "battery_inv (b\<lparr>bridge.pending_lock := pl\<rparr>) = battery_inv b" "battery_inv (b\<lparr>ui := u\<rparr>) = battery_inv b"
  "battery_inv (b\<lparr>failed := y\<rparr>) = battery_inv b"
  by (simp_all add: battery_inv_def)

lemma battery_inv_forget [simp]:
  "battery_inv b \<Longrightarrow> battery_inv (b\<lparr>last_keypad_battery := -1\<rparr>)"
  "battery_inv b \<Longrightarrow> battery_inv (b\<lparr>last_lock_battery := -1\<rparr>)"
  by (simp_all add: battery_inv_def)

subsection \<open>The event queue\<close>

lemma battery_inv_relay: "battery_inv b \<Longrightarrow> battery_inv (snd (relay_to_lock_async env ok h cmd b))"
  by (simp add: relay_to_lock_async_def Let_def battery_inv_stop)

lemma battery_inv_reply: "battery_inv (send_local_response xc h cmd b) = battery_inv b"
  by (simp add: send_local_response_def send_encrypted_response_def handle_state_poll_def send_ack_def notify_def
      split: command_type.split option.split)

lemma battery_inv_publish: "battery_inv (publish_command cmd b) = battery_inv b"
  by (simp add: publish_command_def publish_lock_def publish_unlock_def publish_doorbell_def
      split: command_type.split)

lemma battery_inv_command: "battery_inv b \<Longrightarrow> battery_inv (handle_command xc env ok h cmd b)"
  by (simp add: handle_command_def Let_def battery_inv_relay battery_inv_reply battery_inv_publish
      split: command_type.split)

lemma battery_inv_event: "battery_inv (fst c) \<Longrightarrow> battery_inv (fst (process_event xc ev c))"
  by (auto simp: process_event_def on_rx_frame_def notify_def battery_inv_command Let_def
      split: prod.split queued_event.split action.split)

lemma battery_inv_events: "battery_inv (fst c) \<Longrightarrow> battery_inv (fst (process_events xc evs c))"
  by (induction evs arbitrary: c) (simp_all add: process_events_def battery_inv_event)

lemma loop_drain_typed:
  assumes run: "loop_drain xc platform w (b, r) = (b', r')" and "bridge_typed b"
  shows "bridge_typed b'"
proof -
  obtain evs where evs: "process_events xc evs (b\<lparr>rx_queue := []\<rparr>, r) = (b', r')"
    using run [unfolded loop_drain_def Let_def fst_conv snd_conv] by blast
  have "battery_inv (fst (process_events xc evs (b\<lparr>rx_queue := []\<rparr>, r)))"
    using assms(2) by (intro battery_inv_events) (simp add: bridge_typed_def)
  then have "battery_inv b'" unfolding evs by simp
  moreover have "session_inv (session b')"
  proof -
    from process_events_follow [OF evs] obtain ins where
      "(session b', r') = session_run xc ins (session b, r)"
      by (auto simp: follows_session_def Let_def)
    with session_run_inv [of "(session b, r)" xc ins] assms(2) show ?thesis
      by (metis bridge_typed_def fst_conv)
  qed
  ultimately show ?thesis
    using loop_drain_links [OF run] assms(2) by (simp add: bridge_typed_def same_links_def)
qed

subsection \<open>Batteries\<close>

lemma battery_fields [simp]:
  "session (apply_pending_keypad_battery b) = session b" "session (apply_pending_lock_battery b) = session b"
  "session (maybe_start_battery_scan env b) = session b" "session (maybe_finish_battery_scan env b) = session b"
  "shared_key (apply_pending_keypad_battery b) = shared_key b" "shared_key (apply_pending_lock_battery b) = shared_key b"
  "shared_key (maybe_start_battery_scan env b) = shared_key b" "shared_key (maybe_finish_battery_scan env b) = shared_key b"
  "linked_lock (apply_pending_keypad_battery b) = linked_lock b" "linked_lock (apply_pending_lock_battery b) = linked_lock b"
  "linked_lock (maybe_start_battery_scan env b) = linked_lock b" "linked_lock (maybe_finish_battery_scan env b) = linked_lock b"
  "bridge.keypad_info (apply_pending_lock_battery b) = bridge.keypad_info b"
  "bridge.keypad_info (maybe_start_battery_scan env b) = bridge.keypad_info b"
  "bridge.keypad_info (maybe_finish_battery_scan env b) = bridge.keypad_info b"
  "prefs (apply_pending_lock_battery b) = prefs b"
  "prefs (maybe_start_battery_scan env b) = prefs b" "prefs (maybe_finish_battery_scan env b) = prefs b"
  by (auto simp: apply_pending_keypad_battery_def apply_pending_lock_battery_def maybe_start_battery_scan_def
      maybe_finish_battery_scan_def publish_keypad_battery_if_changed_def publish_lock_battery_if_changed_def
      set_deadline_def prepare_scan_def save_keypad_info_def sync_def Let_def split: option.split)

lemma apply_keypad_battery_typed: "bridge_typed b \<Longrightarrow> bridge_typed (apply_pending_keypad_battery b)"
proof -
  assume t: "bridge_typed b"
  have "info_sized (bridge.keypad_info (apply_pending_keypad_battery b)) \<and> prefs_sized (prefs (apply_pending_keypad_battery b))"
    using t by (auto simp: apply_pending_keypad_battery_def publish_keypad_battery_if_changed_def save_keypad_info_def
        sync_def bridge_typed_def battery_inv_def info_sized_def prefs_sized_def Let_def split: option.splits)
  with t show ?thesis by (simp add: bridge_typed_def battery_inv_apply_keypad)
qed

lemma loop_battery_typed: "bridge_typed b \<Longrightarrow> bridge_typed (loop_battery env1 env2 w b)"
  using apply_keypad_battery_typed [of b]
  by (auto simp: loop_battery_def bridge_typed_def battery_inv_apply_lock battery_inv_maybe_start
      battery_inv_maybe_finish)

subsection \<open>Links, boot and reset\<close>

lemma link_names [simp]: "0 < LOCK_NAME_MAX" "0 < KEYPAD_NAME_MAX"
  by (simp_all add: LOCK_NAME_MAX_def KEYPAD_NAME_MAX_def)

lemma apply_pairing_typed:
  assumes "bridge_typed b"
  shows "bridge_typed (apply_pending_pairing now b)"
  using assms
  by (auto simp: bridge_typed_def battery_inv_def apply_pending_pairing_def publish_defs info_sized_def empty_keypad_info_def
      prefs_sized_def Let_def dest: parse_mac_length split: option.splits)

lemma apply_link_typed:
  assumes "bridge_typed b"
  shows "bridge_typed (apply_pending_lock_link now b)"
  using assms
  by (auto simp: bridge_typed_def battery_inv_def apply_pending_lock_link_def publish_defs lock_sized_def empty_linked_lock_def
      prefs_sized_def Let_def dest: parse_mac_length split: option.splits)

lemma loop_jobs_typed:
  assumes "bridge_typed b" "loop_jobs now1 now2 (b, w) = (b', w')"
  shows "bridge_typed b'"
proof -
  obtain b1 w1 where 1: "loop_poll (b, w) = (b1, w1)" by (metis prod.exhaust)
  have "bridge_typed b1"
    using 1 assms(1)
    by (auto simp: loop_poll_def queue_linked_def queue_paired_def bridge_typed_def split: prod.splits if_splits option.splits)
  then have "bridge_typed (apply_pending_lock_link now2 (apply_pending_pairing now1 b1))"
    by (intro apply_link_typed apply_pairing_typed)
  moreover have "b' = apply_pending_lock_relay (apply_pending_lock_link now2 (apply_pending_pairing now1 b1))"
    using assms(2) by (auto simp: loop_jobs_def 1 loop_apply_link_def loop_apply_pairing_def Let_def split: prod.splits)
  ultimately show ?thesis by (simp add: bridge_typed_def apply_pending_lock_relay_def)
qed

lemma import_typed: "bridge_typed b \<Longrightarrow> import_aes_key imported b = (ok, b') \<Longrightarrow> bridge_typed b'"
  by (auto simp: import_aes_key_def bridge_typed_def Let_def session_inv_set_aes_key split: option.splits if_splits)

lemma create_key_typed: "bridge_typed b \<Longrightarrow> length random = 16 \<Longrightarrow> bridge_typed (create_shared_key random b)"
  by (simp add: create_shared_key_def sync_def bridge_typed_def prefs_sized_def)

lemma reset_typed:
  assumes "bridge_typed b" "length random = 16"
  shows "bridge_typed (reset_pairing random imported rad b)"
proof -
  obtain ok b1 where imp: "import_aes_key imported (create_shared_key random b) = (ok, b1)" by (metis prod.exhaust)
  have b1: "bridge_typed b1" using import_typed [OF create_key_typed [OF assms] imp] .
  then have "bridge_typed (stop_battery_scan rad b1)" by (simp add: bridge_typed_def battery_inv_stop)
  with b1 show ?thesis
    unfolding reset_pairing_def imp Let_def prod.case
    by (cases ok) (simp_all add: bridge_typed_def publish_defs prefs_sized_def session_inv_unpair)
qed

lemma setup_typed:
  assumes "prefs_sized p" "length (bt_random bt) = 16"
  shows "bridge_typed (bridge_setup bt (initial_bridge cfg p))"
proof -
  let ?b = "initial_bridge cfg p"
  define b1 where "b1 = restore_keypad_info (restore_keypad_name (restore_key bt ?b))"
  define b2 where "b2 = set_deadline (bt_millis bt + BATTERY_SCAN_RETRY_MS) (restore_linked_lock b1)"
  define b3 where "b3 = (if \<not> lock_linked b2 then clear_lock_battery b2 else b2)"
  obtain k b4 where k: "prepare_keys bt b3 = (k, b4)" by (metis prod.exhaust)
  obtain m b5 where m: "prepare_ble bt b4 = (m, b5)" by (metis prod.exhaust)
  have "bridge_typed (restore_key bt ?b)"
  proof -
    have "session_inv (session ?b)" "battery_inv ?b" "prefs ?b = p" "bridge.keypad_info ?b = empty_keypad_info"
      "linked_lock ?b = empty_linked_lock" "shared_key ?b = replicate 16 0"
      using battery_inv_initial session_inv_initial by (simp_all add: initial_bridge_def)
    with assms show ?thesis
      by (auto simp: restore_key_def bridge_typed_def create_shared_key_def sync_def prefs_sized_def split: option.splits)
  qed
  then have "bridge_typed b1"
    by (auto simp: b1_def restore_keypad_info_def restore_keypad_name_def bridge_typed_def prefs_sized_def Let_def
        split: option.splits)
  then have "bridge_typed b2"
    by (auto simp: b2_def restore_linked_lock_def bridge_typed_def battery_inv_def publish_defs prefs_sized_def Let_def
        split: option.splits)
  then have "bridge_typed b3" by (simp add: b3_def bridge_typed_def publish_defs)
  then have b4: "bridge_typed b4" using k import_typed by (auto simp: prepare_keys_def split: if_splits)
  then have "bridge_typed b5"
    using m by (auto simp: prepare_ble_def bridge_typed_def Let_def split: if_splits option.splits)
  with b4 show ?thesis
    unfolding bridge_setup_def b1_def [symmetric] b2_def [symmetric] b3_def [symmetric] Let_def k m prod.case
    by (simp add: bridge_typed_def)
qed

subsection \<open>The device\<close>

lemma device_setup_typed:
  "device_setup bt httpd (initial_bridge cfg p, w0) = (b, w) \<Longrightarrow> length (bt_random bt) = 16 \<Longrightarrow> prefs_sized p \<Longrightarrow>
    bridge_typed b"
  using setup_typed [of p bt cfg] by (auto simp: device_setup_def Let_def split: if_splits)

lemma device_step_typed: "device_step httpd d d' \<Longrightarrow> bridge_typed (dv_bridge d) \<Longrightarrow> bridge_typed (dv_bridge d')"
proof (induction rule: device_step.induct)
  case (jobs d now1 now2)
  then show ?case using loop_jobs_typed by (metis prod.exhaust_sel set_parts_def device.select_convs(1) device.surjective device.update_convs(1) device.update_convs(2))
next
  case (drain xc platform d r b r' env1 env2)
  then show ?case using loop_drain_typed loop_battery_typed by simp
next
  case (advert d adv)
  then show ?case
    using battery_inv_advert [of "dv_bridge d" adv] advert_fills_slots [of "dv_bridge d" adv]
    by (auto simp: bridge_typed_def advert_slots_only_def)
next
  case (relayed d be cr cfg plaintext cmd c blog)
  then show ?case
    by (auto simp: run_relay_task_def relay_task_ends_def post_relay_result_def bridge_typed_def Let_def split: prod.split)
next
  case (button random d handle rad now)
  then show ?case
    using reset_typed [of "dv_bridge d" random "Some handle" rad]
    by (auto simp: device_press_reset_def device_reset_def set_parts_def Let_def)
next
  case (power_cycle bt cfg d html b w)
  then show ?case using device_setup_typed by (auto simp: device_of_def bridge_typed_def)
qed (auto simp: set_parts_def loop_idle_def serve_def bridge_typed_def server_event_def push_connect_def
    push_disconnect_def push_rx_def split: server_callback.split)

text \<open>
  C20. The component invariants hold in the whole device. Whatever boots, resets, requests, jobs, frames,
  adverts, scans and relays happen in any order, the session's generations are well formed, the battery
  scan's bookkeeping is consistent and its levels are in range, and every key, address and name, in
  memory and in flash, has the size of its C array.
\<close>

theorem device_well_typed:
  assumes "device_reachable httpd d"
  shows "session_inv (session (dv_bridge d)) \<and> battery_inv (dv_bridge d) \<and> length (shared_key (dv_bridge d)) = 16 \<and>
    length (ki_mac (bridge.keypad_info (dv_bridge d))) = 6 \<and> lock_sized (linked_lock (dv_bridge d)) \<and>
    prefs_sized (prefs (dv_bridge d))"
proof -
  have "bridge_typed (dv_bridge d)"
    using assms
  proof (induction rule: device_reachable.induct)
    case (first_boot bt p cfg html b w)
    then show ?case using device_setup_typed by (auto simp: device_of_def)
  next
    case (step d d')
    then show ?case using device_step_typed by blast
  qed
  then show ?thesis by (simp add: bridge_typed_def info_sized_def)
qed

theorem device_well_typed_witness:
  "\<exists>d kr. device_reachable True d \<and> dv_pairing d = Some kr \<and> prefs_sized (prefs (dv_bridge d))"
proof -
  obtain d kr where "device_reachable True d" "dv_pairing d = Some kr" using pairing_device by blast
  with device_well_typed [of True d] show ?thesis by blast
qed

end
