(* ===== verification/Protocol_Ends.thy ===== *)
theory Protocol_Ends
  imports Physical_Lock Session_Safety Session_Negotiation
begin

text \<open>
  The two ends of the lock protocol. The firmware has both: \<open>PhysicalLockClient\<close> talks to a real lock as
  a keypad would, \<open>LockSession\<close> answers a keypad as a lock would. Here the client's functions are run
  against the session's, under one key.
\<close>

subsection \<open>A pending generation has an empty window\<close>

definition unused :: "crypto_context \<Rightarrow> bool" where
  "unused c \<longleftrightarrow> replay_history c = replay_history empty_context"

lemma unused_empty [simp]: "unused empty_context"
  by (simp add: unused_def)

lemma unused_not_replayed: "unused c \<Longrightarrow> \<not> is_replayed_ciphertext c ct"
  by (auto simp: unused_def is_replayed_ciphertext_def empty_context_def empty_entry_def Let_def
      list_ex_iff)

lemma iv_request_pending:
  assumes "process_iv_request f s r = (s', r')"
  shows "ctx_valid (pending s') \<or> pending s' = pending s" "unused (pending s) \<Longrightarrow> unused (pending s')"
    "slot_id s' = f ! 7" "aes_key s' = aes_key s" "ctx_valid (pending s')"
  using assms
  by (auto simp: process_iv_request_def ensure_pending_iv_def Let_def case_prod_beta unused_def split: if_splits)

lemma unused_process_frame:
  assumes "session_inv s" "process_frame xc f s r = (a, s', r')" "unused (pending s)"
  shows "unused (pending s')"
  using assms(2)
proof (cases rule: process_frame_cases)
  case iv_request
  with iv_request_pending(2) assms(3) show ?thesis by fastforce
next
  case rejected
  with assms(3) show ?thesis by auto
next
  case (payload u)
  show ?thesis
    using assms(1) payload(6-8)
  proof (cases rule: payload_generation_cases)
    case pending
    with outcome_pending [OF pending(1)] assms(3) show ?thesis by auto
  next
    case (current t)
    then have "pending t = pending s" by simp
    with outcome_current [OF current(1)] current(5) assms(3) show ?thesis by simp
  next
    case predecessor
    with outcome_predecessor [OF predecessor(1)] assms(3) show ?thesis by simp
  next
    case retired
    with outcome_retired [OF retired(1)] assms(3) show ?thesis by simp
  qed
qed

lemma pending_unused: "session_reachable xc s \<Longrightarrow> unused (pending s)"
proof (induction rule: session_reachable.induct)
  case (frame s f r a s' r')
  with session_reachable_inv unused_process_frame show ?case by blast
qed (simp_all add: initial_session_def reset_transport_def reset_session_def forget_slot_def set_aes_key_def Let_def)

subsection \<open>The session's side\<close>

text \<open>A frame under the pending generation is accepted whatever its plaintext is.\<close>

lemma pending_frame_accepted:
  assumes inv: "session_inv s" and fresh: "unused (pending s)" "ctx_valid (pending s)"
    and ct: "xc (aes_key s) (ctx_iv (pending s)) ct = Some pt" "0 < length ct" "length ct \<le> MAX_PAYLOAD"
    and f: "f = [PROTOCOL_MAGIC, slot_id s, ctx_iv (pending s) ! 0, ctx_iv (pending s) ! 1] @ ct"
    and slot: "slot_id s \<noteq> 0"
  shows "\<exists>s'. process_frame xc f s r = (COMMAND, s', r) \<and> session_plaintext s' = pt \<and>
    command s' = decode_lock_command pt \<and> response_iv s' = ctx_iv (pending s) \<and> response_iv_valid s' \<and>
    header s' = frame_header_of f \<and> aes_key s' = aes_key s"
proof -
  let ?t = "received s f"
  have u: "frame_uses_of ?t = only_pending"
  proof -
    have "seq_matches (pending ?t) (header ?t)"
      using fresh(2) by (simp add: f seq_matches_def frame_header_of_def)
    then have "uses_pending (frame_uses_of ?t)" by (simp add: frame_uses_of_def)
    with frame_uses_cases [of ?t] inv show ?thesis by (auto simp: frame_uses_of_def)
  qed
  have drop: "drop HEADER_LEN f = ct" by (simp add: f HEADER_LEN_def)
  have "decrypt_with xc GEN_PENDING ?t ct = Some pt" using ct by (simp add: decrypt_with_def)
  moreover have "close_handoff only_pending ?t = ?t" by (simp add: close_handoff_def)
  ultimately obtain s' where s': "process_payload xc only_pending ct ?t = (COMMAND, s')"
    using unused_not_replayed [OF fresh(1)] by (simp add: payload_pending Let_def)
  have "process_frame xc f s r = (COMMAND, s', r)"
  proof -
    have "\<not> is_iv_request f" using slot by (simp add: f is_iv_request_def)
    moreover have "\<not> (length f \<le> HEADER_LEN \<or> f ! 0 \<noteq> PROTOCOL_MAGIC)"
      using ct(2) by (simp add: f HEADER_LEN_def)
    moreover have "hdr_key_id (header ?t) = slot_id ?t" by (simp add: f frame_header_of_def)
    moreover have "ctx_valid (pending ?t)" using fresh(2) by simp
    ultimately show ?thesis
      using u s' drop \<open>close_handoff only_pending ?t = ?t\<close>
      unfolding process_frame_def Let_def received_def [symmetric] by simp
  qed
  with accepted_pending [OF s'] payload_frame [OF s'] ct(1) show ?thesis
    by (auto simp: decrypt_with_def split: if_splits)
qed

subsection \<open>The client meets the session\<close>

text \<open>
  C8. The relay client and the emulated lock are two ends of one protocol. Under one key, from every
  reachable session, the client's IV request for a slot is answered with an encryption-session response
  the client parses; the frame the client then encrypts for any command is accepted, decrypted to that
  command and decoded; and the client decrypts the session's reply to what was answered.
\<close>

theorem lock_client_meets_session:
  assumes reach: "session_reachable xc s" and cipher: "ctr_cipher xc"
    and key: "\<forall>iv x. ctr_raw_key cr (cfg_key cfg) iv x = xc (aes_key s) iv x" and slot: "cfg_key_id cfg \<noteq> 0"
    and pt: "pt \<noteq> []" "length pt \<le> MAX_PAYLOAD" and resp: "length resp \<le> MAX_PAYLOAD"
    and ask: "process_frame xc (iv_request_for (cfg_key_id cfg)) s r = (a, s1, r1)"
  shows "a = SEND_IV \<and>
    (\<exists>ws frame s2 wire. parse_session_response (iv_response s1) = Inr ws \<and> encrypt_frame cr cfg ws pt = Inr frame \<and>
      process_frame xc frame s1 r1 = (COMMAND, s2, r1) \<and> session_plaintext s2 = pt \<and>
      command s2 = decode_lock_command pt \<and>
      encrypt_response xc (header s2) resp s2 = Some wire \<and> decrypt_notify cr cfg ws wire = Inr resp)"
proof -
  let ?f = "iv_request_for (cfg_key_id cfg)"
  have req: "is_iv_request ?f" "?f ! 7 = cfg_key_id cfg"
    by (simp_all add: is_iv_request_def iv_request_for_def LOCK_MAGIC_def PROTOCOL_MAGIC_def SESSION_IV_REQ_MIN_def)
  have step: "a = SEND_IV" "process_iv_request ?f (clear_transient s) r = (s1, r1)"
    using ask req(1) by (auto simp: process_frame_def Let_def split: prod.splits)
  note p = iv_request_pending [OF step(2)]
  have inv: "session_inv s" using reach by (rule session_reachable_inv)
  have inv1: "session_inv s1" using inv ask by (rule session_inv_process_frame)
  have reach1: "session_reachable xc s1" using reach ask by (rule session_reachable.frame)
  let ?iv = "ctx_iv (pending s1)"
  have iv: "length ?iv = AES_IV_SIZE" "iv_response s1 = [0x01, 0x00, 0x00, 0x00] @ ?iv"
    using inv1 p(5) append_take_drop_id [of IV_RESPONSE_HEADER "iv_response s1"]
    by (auto simp: session_inv_defs context_wf_def)
  define ws where "ws = default_wire_session\<lparr>ws_mode := CTR, ws_ctr_iv := ?iv\<rparr>"
  have parse: "parse_session_response (iv_response s1) = Inr ws"
    using iv(1) by (simp add: parse_session_response_def iv(2) WIRE_HEADER_LEN_def normalize_mode_byte_def
        ws_def AES_IV_SIZE_def)
  obtain ct where ct: "xc (aes_key s) ?iv pt = Some ct" "length ct = length pt" "xc (aes_key s) ?iv ct = Some pt"
    using cipher iv(1) pt(2) unfolding ctr_cipher_def by blast
  let ?frame = "[PROTOCOL_MAGIC, slot_id s1, ?iv ! 0, ?iv ! 1] @ ct"
  have frame: "encrypt_frame cr cfg ws pt = Inr ?frame"
    using ct(1) key p(3) req(2)
    by (simp add: encrypt_frame_def ws_def LOCK_MAGIC_def PROTOCOL_MAGIC_def)
  have aes: "aes_key s1 = aes_key s" using p(4) by simp
  obtain s2 where s2: "process_frame xc ?frame s1 r1 = (COMMAND, s2, r1)" "session_plaintext s2 = pt"
    "command s2 = decode_lock_command pt" "response_iv s2 = ?iv" "response_iv_valid s2"
    "header s2 = frame_header_of ?frame" "aes_key s2 = aes_key s"
    using pending_frame_accepted [OF inv1 pending_unused [OF reach1] p(5), of xc ct pt ?frame r1] ct pt slot aes
      p(3) req(2)
    by auto
  obtain out where out: "xc (aes_key s) ?iv resp = Some out" "length out = length resp" "xc (aes_key s) ?iv out = Some resp"
    using cipher iv(1) resp unfolding ctr_cipher_def by blast
  let ?wire = "[0x01, slot_id s1, ?iv ! 0, ?iv ! 1] @ out"
  have "encrypt_response xc (header s2) resp s2 = Some ?wire"
    using resp s2 out(1) by (simp add: encrypt_response_def frame_header_of_def)
  moreover have "decrypt_notify cr cfg ws ?wire = Inr resp"
    using out(2,3) key by (auto simp: decrypt_notify_def ws_def WIRE_HEADER_LEN_def)
  ultimately show ?thesis using step(1) parse frame s2(1-3) by blast
qed

definition same_key_ciphers :: "aes_ctr \<Rightarrow> u32 \<Rightarrow> lock_ciphers" where
  "same_key_ciphers xc k = stub_ciphers\<lparr>ctr_raw_key := (\<lambda>_ iv x. xc k iv x)\<rparr>"

theorem lock_client_meets_session_witness:
  "\<exists>ws frame s1 s2 r1. encrypt_frame (same_key_ciphers stub_xcrypt 0) test_lock_config ws FRAME_LOCK = Inr frame \<and>
    process_frame stub_xcrypt frame s1 r1 = (COMMAND, s2, r1) \<and> cmd_type (command s2) = CMD_LOCK"
proof -
  obtain a s1 r1 where ask: "process_frame stub_xcrypt (iv_request_for (cfg_key_id test_lock_config)) initial_session
      (sconst 7) = (a, s1, r1)"
    by (metis prod_cases3)
  have "\<forall>iv x. ctr_raw_key (same_key_ciphers stub_xcrypt 0) (cfg_key test_lock_config) iv x =
      stub_xcrypt (aes_key initial_session) iv x"
    by (simp add: same_key_ciphers_def initial_session_def PSA_KEY_ID_NULL_def)
  moreover have "cfg_key_id test_lock_config \<noteq> 0" by (simp add: test_lock_config_def)
  moreover have "FRAME_LOCK \<noteq> []" "length FRAME_LOCK \<le> MAX_PAYLOAD" "length ([] :: byte list) \<le> MAX_PAYLOAD"
    by (simp_all add: FRAME_LOCK_def MAX_PAYLOAD_def)
  moreover have "cmd_type (decode_lock_command FRAME_LOCK) = CMD_LOCK" by code_simp
  ultimately show ?thesis
    using lock_client_meets_session [OF session_reachable.initial stub_is_ctr_cipher _ _ _ _ _ ask] by metis
qed

end
