(* ===== verification/Aes_Wrappers.thy ===== *)
theory Aes_Wrappers
  imports Prelude
begin

text \<open>
  The cipher wrappers (\<open>aes_ctr.h\<close>, \<open>aes_ctr.cpp\<close>). PSA Crypto and the GCM driver are not part of the
  firmware: they answer every call given the history of the calls made so far, and the wrappers are
  the sequences of calls they make and what they return. The session, the lock client and the pairer
  use the wrappers only through their result, so there they are parameters.

  An output buffer is the list it holds before the call; PSA writes \<open>update\<close>'s bytes at its start and
  \<open>finish\<close>'s bytes after them.
\<close>

datatype crypto_call =
    PsaImport "byte list" "nat option"
  | PsaDestroy nat
  | PsaSetup nat bool
  | PsaSetIv "byte list" bool
  | PsaUpdate "byte list" "byte list option"
  | PsaFinish "byte list option"
  | PsaAbort
  | GcmInit
  | GcmSetKey "byte list" int
  | GcmCrypt bool "byte list" "byte list" "int + (byte list \<times> byte list)"
  | GcmFree

type_synonym crypto_log = "crypto_call list"

record crypto_env =
  ce_import :: "crypto_log \<Rightarrow> byte list \<Rightarrow> nat option"
  ce_setup :: "crypto_log \<Rightarrow> nat \<Rightarrow> bool"
  ce_set_iv :: "crypto_log \<Rightarrow> byte list \<Rightarrow> bool"
  ce_update :: "crypto_log \<Rightarrow> byte list \<Rightarrow> byte list option"
  ce_finish :: "crypto_log \<Rightarrow> byte list option"
  ce_gcm_setkey :: "crypto_log \<Rightarrow> byte list \<Rightarrow> int"
  ce_gcm_crypt :: "crypto_log \<Rightarrow> bool \<Rightarrow> byte list \<Rightarrow> byte list \<Rightarrow> int + (byte list \<times> byte list)"

subsection \<open>The wrappers\<close>

text \<open>Each step runs only when the previous status is \<open>PSA_SUCCESS\<close>; any failure aborts the operation.\<close>

definition aes_ctr_xcrypt ::
  "crypto_env \<Rightarrow> nat \<Rightarrow> byte list \<Rightarrow> byte list \<Rightarrow> byte list \<Rightarrow> crypto_log \<Rightarrow> (bool \<times> byte list) \<times> crypto_log" where
  "aes_ctr_xcrypt env key iv input output log =
    (let ok1 = ce_setup env log key;
         log1 = log @ [PsaSetup key ok1];
         (ok2, log2) = (if ok1 then (let r = ce_set_iv env log1 iv in (r, log1 @ [PsaSetIv iv r]))
                        else (False, log1));
         (upd, log3) = (if ok2 then (let r = ce_update env log2 input in (r, log2 @ [PsaUpdate input r]))
                        else (None, log2));
         output1 = (case upd of Some w \<Rightarrow> memcpy_at 0 w (length w) output | None \<Rightarrow> output);
         (fin, log4) = (case upd of
            Some w \<Rightarrow> (let r = ce_finish env log3 in (r, log3 @ [PsaFinish r]))
          | None \<Rightarrow> (None, log3))
     in case (upd, fin) of
          (Some w, Some v) \<Rightarrow> ((True, memcpy_at (length w) v (length v) output1), log4)
        | _ \<Rightarrow> ((False, output1), log4 @ [PsaAbort]))"

definition aes_ctr_xcrypt_raw_key ::
  "crypto_env \<Rightarrow> byte list \<Rightarrow> byte list \<Rightarrow> byte list \<Rightarrow> byte list \<Rightarrow> crypto_log \<Rightarrow> (bool \<times> byte list) \<times> crypto_log" where
  "aes_ctr_xcrypt_raw_key env key iv input output log =
    (let imported = ce_import env log key;
         log1 = log @ [PsaImport key imported]
     in case imported of
          None \<Rightarrow> ((False, output), log1)
        | Some key_id \<Rightarrow>
            (case aes_ctr_xcrypt env key_id iv input output log1 of
               (res, log2) \<Rightarrow> (res, log2 @ [PsaDestroy key_id])))"

definition gcm_one_shot ::
  "crypto_env \<Rightarrow> bool \<Rightarrow> byte list \<Rightarrow> byte list \<Rightarrow> byte list \<Rightarrow> crypto_log \<Rightarrow>
    (byte list \<times> byte list) option \<times> crypto_log" where
  "gcm_one_shot env encrypt key iv input log =
    (let log1 = log @ [GcmInit];
         rc = ce_gcm_setkey env log1 key;
         log2 = log1 @ [GcmSetKey key rc];
         (res, log3) = (if rc = 0
            then (let r = ce_gcm_crypt env log2 encrypt iv input in (r, log2 @ [GcmCrypt encrypt iv input r]))
            else (Inl rc, log2))
     in (case res of Inr out \<Rightarrow> Some out | Inl e \<Rightarrow> None, log3 @ [GcmFree]))"

definition aes_gcm_encrypt_raw_key ::
  "crypto_env \<Rightarrow> byte list \<Rightarrow> byte list \<Rightarrow> byte list \<Rightarrow> crypto_log \<Rightarrow> (byte list \<times> byte list) option \<times> crypto_log" where
  "aes_gcm_encrypt_raw_key env key iv input log = gcm_one_shot env True key iv input log"

text \<open>The tag the driver computes while decrypting is discarded.\<close>

definition aes_gcm_decrypt_raw_key ::
  "crypto_env \<Rightarrow> byte list \<Rightarrow> byte list \<Rightarrow> byte list \<Rightarrow> crypto_log \<Rightarrow> byte list option \<times> crypto_log" where
  "aes_gcm_decrypt_raw_key env key iv input log =
    (case gcm_one_shot env False key iv input log of (res, log') \<Rightarrow> (map_option fst res, log'))"

subsection \<open>What a call leaves behind\<close>

text \<open>
  Keys imported and not destroyed, whether a cipher operation is active (set up and neither finished
  nor aborted), GCM contexts initialised and not freed.
\<close>

record crypto_held =
  ch_keys :: "nat list"
  ch_active :: bool
  ch_contexts :: int

fun crypto_effect :: "crypto_call \<Rightarrow> crypto_held \<Rightarrow> crypto_held" where
  "crypto_effect (PsaImport key (Some k)) h = h\<lparr>ch_keys := k # ch_keys h\<rparr>"
| "crypto_effect (PsaDestroy k) h = h\<lparr>ch_keys := remove1 k (ch_keys h)\<rparr>"
| "crypto_effect (PsaSetup k True) h = h\<lparr>ch_active := True\<rparr>"
| "crypto_effect (PsaFinish (Some v)) h = h\<lparr>ch_active := False\<rparr>"
| "crypto_effect PsaAbort h = h\<lparr>ch_active := False\<rparr>"
| "crypto_effect GcmInit h = h\<lparr>ch_contexts := ch_contexts h + 1\<rparr>"
| "crypto_effect GcmFree h = h\<lparr>ch_contexts := ch_contexts h - 1\<rparr>"
| "crypto_effect _ h = h"

definition crypto_holds :: "crypto_log \<Rightarrow> crypto_held" where
  "crypto_holds log = fold crypto_effect log \<lparr>ch_keys = [], ch_active = False, ch_contexts = 0\<rparr>"

lemma crypto_holds_append [simp]: "crypto_holds (log @ es) = fold crypto_effect es (crypto_holds log)"
  by (simp add: crypto_holds_def)

definition releases :: "crypto_log \<Rightarrow> crypto_log \<Rightarrow> bool" where
  "releases log log' \<longleftrightarrow>
    ch_keys (crypto_holds log') = ch_keys (crypto_holds log) \<and>
    ch_contexts (crypto_holds log') = ch_contexts (crypto_holds log) \<and>
    ch_active (crypto_holds log') \<le> ch_active (crypto_holds log)"

lemma ctr_releases:
  assumes "aes_ctr_xcrypt env key iv input output log = (res, log')"
  shows "ch_keys (crypto_holds log') = ch_keys (crypto_holds log) \<and>
    ch_contexts (crypto_holds log') = ch_contexts (crypto_holds log) \<and> \<not> ch_active (crypto_holds log')"
  using assms
  by (auto simp: aes_ctr_xcrypt_def Let_def split: if_splits option.splits)

lemma raw_key_releases:
  assumes "aes_ctr_xcrypt_raw_key env key iv input output log = (res, log')"
  shows "releases log log'"
proof (cases "ce_import env log key")
  case None
  with assms show ?thesis by (auto simp: aes_ctr_xcrypt_raw_key_def releases_def)
next
  case (Some k)
  obtain r log2 where "aes_ctr_xcrypt env k iv input output (log @ [PsaImport key (Some k)]) = (r, log2)"
    by fastforce
  with Some assms ctr_releases [OF this] show ?thesis
    by (auto simp: aes_ctr_xcrypt_raw_key_def releases_def)
qed

lemma gcm_releases: "gcm_one_shot env encrypt key iv input log = (res, log') \<Longrightarrow> releases log log'"
  by (auto simp: gcm_one_shot_def releases_def Let_def split: if_splits)

text \<open>
  C22. No wrapper leaves anything behind, whatever the driver answers and wherever it fails: the key
  imported for a one-shot CTR call is destroyed, the cipher operation is finished or aborted, and the
  GCM context is freed.
\<close>

theorem wrappers_leave_nothing:
  "releases log (snd (aes_ctr_xcrypt_raw_key env key iv input output log)) \<and>
   releases log (snd (aes_ctr_xcrypt env k iv input output log)) \<and>
   releases log (snd (aes_gcm_encrypt_raw_key env key iv input log)) \<and>
   releases log (snd (aes_gcm_decrypt_raw_key env key iv input log))"
proof (intro conjI)
  show "releases log (snd (aes_ctr_xcrypt env k iv input output log))"
    using ctr_releases [OF prod.collapse [symmetric]] by (simp add: releases_def)
  show "releases log (snd (aes_gcm_decrypt_raw_key env key iv input log))"
    using gcm_releases [of env False key iv input log]
    by (auto simp: aes_gcm_decrypt_raw_key_def split: prod.split)
qed (auto simp: aes_gcm_encrypt_raw_key_def intro: raw_key_releases gcm_releases prod.collapse [symmetric])

text \<open>
  When a CTR call succeeds, the output buffer holds the bytes of the two PSA calls, update's and then
  finish's, and nothing before or after them has changed.
\<close>

lemma ctr_output:
  assumes "aes_ctr_xcrypt env k iv input output log = ((True, out), log')"
  shows "\<exists>w v. PsaUpdate input (Some w) \<in> set log' \<and> PsaFinish (Some v) \<in> set log' \<and>
    out = w @ v @ drop (length w + length v) output"
proof -
  from assms obtain w v where "out = memcpy_at (length w) v (length v) (memcpy_at 0 w (length w) output)"
    and "log' = log @ [PsaSetup k True, PsaSetIv iv True, PsaUpdate input (Some w), PsaFinish (Some v)]"
    by (auto simp: aes_ctr_xcrypt_def Let_def split: if_splits option.splits)
  then show ?thesis
    by (intro exI [where x = w] exI [where x = v]) (simp add: memcpy_at_def add.commute)
qed

end
