(* ===== verification/Session_Tests.thy ===== *)
theory Session_Tests
  imports Session_Runs
begin

text \<open>
  The repository's own session tests (\<open>tests/lock_session_test.cpp\<close>), run on the model. Each test
  function is a script of its statements, in order, with its constants; a run of the script fails at
  the first \<open>assert\<close> that does not hold. The tests that the C++ session passes are passed by the model,
  with the random words the tests queue and any words after them, and every queued word is used.
\<close>

subsection \<open>Statements\<close>

text \<open>
  One constructor for each kind of statement: \<open>queue_iv(iv)\<close>, \<open>assert(session.process_frame(frame) ==
  action)\<close>, the asserts on \<open>response_iv(session)\<close> and \<open>session.command()\<close>, the helper
  \<open>assert_response_uses_iv\<close>, and the calls \<open>reset_transport()\<close> and \<open>reset()\<close>.
\<close>

datatype test_stmt =
    QueueIv "byte list"
  | AssertFrame "byte list" action
  | AssertAdvertised "byte list"
  | AssertFreshSeq "byte list"
  | AssertType command_type
  | AssertMethod unlock_method
  | AssertReplyUses "byte list"
  | CallResetTransport
  | CallReset

definition TEST_LOCK :: "byte list" where "TEST_LOCK = [0x0F, 0x4E, 0x01, 0x03, 0x00, 0x00, 0x00, 0x00]"
definition TEST_UNKNOWN_METHOD_UNLOCK :: "byte list" where
  "TEST_UNKNOWN_METHOD_UNLOCK = [0x0F, 0x4E, 0x01, 0x03, 0x7C, 0x80, 0x00, 0x00]"
definition TEST_DOORBELL :: "byte list" where "TEST_DOORBELL = [0x01, 0x03]"
definition TEST_UNKNOWN :: "byte list" where "TEST_UNKNOWN = [0xAA, 0xBB, 0xCC, 0xDD]"
definition SLOT_VISION :: byte where "SLOT_VISION = 0xC6"
definition SLOT_TOUCH :: byte where "SLOT_TOUCH = 0x88"

definition advertised_iv :: "lock_session \<Rightarrow> byte list" where
  "advertised_iv s = take 16 (drop 4 (iv_response s))"

definition reply_uses :: "byte list \<Rightarrow> lock_session \<Rightarrow> bool" where
  "reply_uses iv s =
    (let plaintext = [0x81, 0x08, 0x08]
     in case encrypt_response stub_xcrypt (header s) plaintext s of
          None \<Rightarrow> False
        | Some packet \<Rightarrow> length packet = HEADER_LEN + length plaintext \<and>
            stub_xcrypt TEST_KEY iv (drop HEADER_LEN packet) = Some plaintext)"

fun exec_stmt :: "test_stmt \<Rightarrow> lock_session \<times> rng \<Rightarrow> (lock_session \<times> rng) option" where
  "exec_stmt (QueueIv iv) (s, r) = Some (s, queue_iv iv r)"
| "exec_stmt (AssertFrame f a) (s, r) =
    (let (a', s', r') = process_frame stub_xcrypt f s r in if a' = a then Some (s', r') else None)"
| "exec_stmt (AssertAdvertised iv) (s, r) = (if advertised_iv s = iv then Some (s, r) else None)"
| "exec_stmt (AssertFreshSeq iv) (s, r) =
    (if advertised_iv s ! 0 \<noteq> iv ! 0 \<or> advertised_iv s ! 1 \<noteq> iv ! 1 then Some (s, r) else None)"
| "exec_stmt (AssertType t) (s, r) = (if cmd_type (command s) = t then Some (s, r) else None)"
| "exec_stmt (AssertMethod m) (s, r) = (if cmd_method (command s) = m then Some (s, r) else None)"
| "exec_stmt (AssertReplyUses iv) (s, r) = (if reply_uses iv s then Some (s, r) else None)"
| "exec_stmt CallResetTransport (s, r) = Some (reset_transport s, r)"
| "exec_stmt CallReset (s, r) = Some (reset_session s, r)"

fun exec_test :: "test_stmt list \<Rightarrow> lock_session \<times> rng \<Rightarrow> (lock_session \<times> rng) option" where
  "exec_test [] c = Some c"
| "exec_test (st # sts) c = (case exec_stmt st c of None \<Rightarrow> None | Some c' \<Rightarrow> exec_test sts c')"

text \<open>
  A test passes when no assert fails and \<open>random_values\<close> is empty again: what is left of the
  generator's words is what was there before. The tests queue an IV only when the queue is empty (or
  holds copies of that IV), so that \<open>queue_iv\<close> may put its words in front.
\<close>

definition test_passes :: "test_stmt list \<Rightarrow> bool" where
  "test_passes sts \<longleftrightarrow>
    (\<forall>r. map_option snd (exec_test sts (set_aes_key TEST_KEY initial_session, r)) = Some r)"

text \<open>The statements the tests repeat.\<close>

definition frame_of :: "byte \<Rightarrow> byte list \<Rightarrow> byte list" where
  "frame_of seed plaintext = encrypted_frame (make_iv seed) plaintext SLOT_VISION"

definition negotiate :: "byte \<Rightarrow> byte \<Rightarrow> test_stmt list" where
  "negotiate seed slot = [QueueIv (make_iv seed), AssertFrame (iv_request_frame slot) SEND_IV]"

definition accepted :: "byte \<Rightarrow> byte list \<Rightarrow> test_stmt" where
  "accepted seed plaintext = AssertFrame (frame_of seed plaintext) COMMAND"

definition rejected :: "byte \<Rightarrow> byte list \<Rightarrow> test_stmt" where
  "rejected seed plaintext = AssertFrame (frame_of seed plaintext) ACTION_NONE"

definition rotate_to :: "byte \<Rightarrow> test_stmt list" where
  "rotate_to seed = negotiate seed SLOT_VISION @ [accepted seed TEST_STATE_POLL]"

definition retry :: "byte \<Rightarrow> test_stmt list" where
  "retry seed = [AssertFrame (iv_request_frame SLOT_VISION) SEND_IV, AssertAdvertised (make_iv seed)]"

subsection \<open>The tests\<close>

definition test_iv_handoff_and_replay :: "test_stmt list" where
  "test_iv_handoff_and_replay =
    negotiate 0x10 SLOT_VISION @
    [AssertAdvertised (make_iv 0x10),
      accepted 0x10 TEST_STATE_POLL,
      AssertType CMD_STATE_POLL,
      CallResetTransport,
      accepted 0x10 TEST_STATE_POLL] @
    negotiate 0x30 SLOT_VISION @
    [AssertAdvertised (make_iv 0x30),
      QueueIv (make_iv 0x50),
      CallResetTransport] @
    retry 0x30 @
    retry 0x30 @
    retry 0x30 @
    [accepted 0x10 TEST_STATE_POLL,
      AssertType CMD_STATE_POLL,
      AssertReplyUses (make_iv 0x10),
      rejected 0x10 TEST_LOCK,
      rejected 0x10 TEST_FINGERPRINT_UNLOCK,
      accepted 0x30 TEST_LOCK,
      AssertType CMD_LOCK,
      rejected 0x30 TEST_LOCK,
      rejected 0x10 TEST_STATE_POLL,
      accepted 0x30 TEST_DOORBELL,
      AssertType CMD_DOORBELL,
      accepted 0x30 TEST_DOORBELL] @
    retry 0x50 @
    [accepted 0x30 TEST_STATE_POLL,
      AssertReplyUses (make_iv 0x30),
      accepted 0x30 TEST_PIN_UNLOCK,
      AssertType CMD_UNLOCK,
      AssertReplyUses (make_iv 0x30),
      rejected 0x30 TEST_PIN_UNLOCK] @
    retry 0x50 @
    [rejected 0x30 TEST_FINGERPRINT_UNLOCK,
      accepted 0x50 TEST_STATE_POLL,
      rejected 0x30 TEST_STATE_POLL,
      CallReset,
      rejected 0x50 TEST_STATE_POLL]"

definition test_fast_unlock_after_pending_promotion :: "test_stmt list" where
  "test_fast_unlock_after_pending_promotion =
    rotate_to 0x21 @
    rotate_to 0x41 @
    [AssertReplyUses (make_iv 0x41),
      accepted 0x21 TEST_FINGERPRINT_UNLOCK,
      AssertType CMD_UNLOCK,
      AssertMethod METHOD_FINGERPRINT,
      AssertReplyUses (make_iv 0x21),
      rejected 0x21 TEST_FINGERPRINT_UNLOCK,
      rejected 0x21 TEST_LOCK,
      accepted 0x41 TEST_STATE_POLL]"

definition test_fast_unlock_before_promotion_1 :: "test_stmt list" where
  "test_fast_unlock_before_promotion_1 =
    rotate_to 0x2E @
    negotiate 0x4E SLOT_VISION @
    [accepted 0x2E TEST_FINGERPRINT_UNLOCK,
      AssertReplyUses (make_iv 0x2E),
      accepted 0x4E TEST_STATE_POLL]"

definition test_fast_unlock_before_promotion_2 :: "test_stmt list" where
  "test_fast_unlock_before_promotion_2 =
    rotate_to 0x2F @
    negotiate 0x4F SLOT_VISION @
    retry 0x4F @
    retry 0x4F @
    retry 0x4F @
    [accepted 0x2F TEST_PIN_UNLOCK,
      AssertReplyUses (make_iv 0x2F),
      accepted 0x4F TEST_STATE_POLL]"

definition test_predecessor_replay_consumes_handoff :: "test_stmt list" where
  "test_predecessor_replay_consumes_handoff =
    rotate_to 0x31 @
    [accepted 0x31 TEST_PIN_UNLOCK] @
    negotiate 0x51 SLOT_VISION @
    [rejected 0x31 TEST_PIN_UNLOCK,
      rejected 0x31 TEST_FINGERPRINT_UNLOCK,
      accepted 0x51 TEST_STATE_POLL]"

definition test_rejected_active_predecessor_attempt :: "test_stmt list" where
  "test_rejected_active_predecessor_attempt =
    rotate_to 0x2D @
    negotiate 0x4D SLOT_VISION @
    [rejected 0x2D TEST_LOCK,
      rejected 0x2D TEST_FINGERPRINT_UNLOCK,
      accepted 0x4D TEST_STATE_POLL]"

definition test_poll_budget_closes_state_only_handoff :: "test_stmt list" where
  "test_poll_budget_closes_state_only_handoff =
    rotate_to 0x2A @
    negotiate 0x4A SLOT_VISION @
    [accepted 0x2A TEST_STATE_POLL,
      accepted 0x2A TEST_STATE_POLL,
      rejected 0x2A TEST_FINGERPRINT_UNLOCK,
      accepted 0x4A TEST_STATE_POLL]"

definition test_next_encrypted_frame_closes_retired_1 :: "test_stmt list" where
  "test_next_encrypted_frame_closes_retired_1 =
    rotate_to 0x2B @
    rotate_to 0x4B @
    [accepted 0x4B TEST_STATE_POLL,
      rejected 0x2B TEST_FINGERPRINT_UNLOCK]"

definition test_next_encrypted_frame_closes_retired_2 :: "test_stmt list" where
  "test_next_encrypted_frame_closes_retired_2 =
    rotate_to 0x2C @
    rotate_to 0x4C @
    [accepted 0x2C TEST_STATE_POLL,
      AssertReplyUses (make_iv 0x2C),
      rejected 0x2C TEST_FINGERPRINT_UNLOCK]"

definition test_current_generation_action_closes_retired :: "test_stmt list" where
  "test_current_generation_action_closes_retired =
    rotate_to 0x24 @
    rotate_to 0x44 @
    [accepted 0x44 TEST_LOCK,
      AssertType CMD_LOCK,
      rejected 0x24 TEST_FINGERPRINT_UNLOCK]"

definition test_transport_reset_revokes_handoff :: "test_stmt list" where
  "test_transport_reset_revokes_handoff =
    rotate_to 0x25 @
    negotiate 0x45 SLOT_VISION @
    [CallResetTransport,
      rejected 0x25 TEST_FINGERPRINT_UNLOCK,
      accepted 0x45 TEST_STATE_POLL] @
    rotate_to 0x65 @
    [CallResetTransport,
      rejected 0x45 TEST_FINGERPRINT_UNLOCK,
      accepted 0x65 TEST_STATE_POLL]"

definition test_continuous_rotations_keep_one_predecessor :: "test_stmt list" where
  "test_continuous_rotations_keep_one_predecessor =
    rotate_to 0x12 @
    rotate_to 0x32 @
    rotate_to 0x52 @
    [rejected 0x12 TEST_FINGERPRINT_UNLOCK,
      accepted 0x32 TEST_FINGERPRINT_UNLOCK,
      AssertType CMD_UNLOCK,
      AssertReplyUses (make_iv 0x32),
      rejected 0x32 TEST_FINGERPRINT_UNLOCK,
      accepted 0x52 TEST_STATE_POLL]"

definition test_slot_change_invalidates_generations :: "test_stmt list" where
  "test_slot_change_invalidates_generations =
    negotiate 0x80 SLOT_VISION @
    [AssertFrame (encrypted_frame (make_iv 0x80) TEST_STATE_POLL SLOT_VISION) COMMAND] @
    negotiate 0xA0 SLOT_VISION @
    [AssertAdvertised (make_iv 0xA0)] @
    negotiate 0xC0 SLOT_TOUCH @
    [AssertAdvertised (make_iv 0xC0),
      AssertFrame (encrypted_frame (make_iv 0x80) TEST_STATE_POLL SLOT_TOUCH) ACTION_NONE,
      AssertFrame (encrypted_frame (make_iv 0xA0) TEST_STATE_POLL SLOT_TOUCH) ACTION_NONE,
      AssertFrame (encrypted_frame (make_iv 0xC0) TEST_STATE_POLL SLOT_TOUCH) COMMAND] @
    negotiate 0xD0 SLOT_TOUCH @
    [AssertFrame (encrypted_frame (make_iv 0xC0) TEST_FINGERPRINT_UNLOCK SLOT_TOUCH) ACTION_NONE,
      AssertFrame (encrypted_frame (make_iv 0xD0) TEST_STATE_POLL SLOT_TOUCH) COMMAND] @
    negotiate 0xE0 SLOT_VISION @
    [AssertAdvertised (make_iv 0xE0),
      AssertFrame (encrypted_frame (make_iv 0xC0) TEST_STATE_POLL SLOT_VISION) ACTION_NONE,
      AssertFrame (encrypted_frame (make_iv 0xD0) TEST_STATE_POLL SLOT_VISION) ACTION_NONE,
      AssertFrame (encrypted_frame (make_iv 0xE0) TEST_STATE_POLL SLOT_VISION) COMMAND] @
    negotiate 0x18 SLOT_VISION @
    [AssertFrame (encrypted_frame (make_iv 0x18) TEST_STATE_POLL SLOT_VISION) COMMAND] @
    negotiate 0x38 SLOT_TOUCH @
    [AssertAdvertised (make_iv 0x38),
      AssertFrame (encrypted_frame (make_iv 0xE0) TEST_STATE_POLL SLOT_TOUCH) ACTION_NONE,
      AssertFrame (encrypted_frame (make_iv 0x18) TEST_STATE_POLL SLOT_TOUCH) ACTION_NONE,
      AssertFrame (encrypted_frame (make_iv 0x38) TEST_STATE_POLL SLOT_TOUCH) COMMAND]"

definition test_full_reset_clears_retired_generation :: "test_stmt list" where
  "test_full_reset_clears_retired_generation =
    rotate_to 0xA4 @
    rotate_to 0xC4 @
    [CallReset,
      rejected 0xA4 TEST_FINGERPRINT_UNLOCK,
      rejected 0xC4 TEST_STATE_POLL]"

definition test_seq_collision_is_resolved :: "test_stmt list" where
  "test_seq_collision_is_resolved =
    rotate_to 0x70 @
    [QueueIv (make_iv 0x70),
      QueueIv (make_iv 0x70),
      QueueIv (make_iv 0x70),
      QueueIv (make_iv 0x70),
      QueueIv (make_iv 0x70),
      AssertFrame (iv_request_frame SLOT_VISION) SEND_IV,
      AssertFreshSeq (make_iv 0x70)]"

definition test_rejected_retired_attempt :: "byte list \<Rightarrow> byte \<Rightarrow> test_stmt list" where
  "test_rejected_retired_attempt payload seed =
    rotate_to seed @ rotate_to (seed + 0x20) @
    [rejected seed payload, rejected seed TEST_FINGERPRINT_UNLOCK, accepted (seed + 0x20) TEST_STATE_POLL]"

definition test_rejected_predecessor_attempts :: "test_stmt list list" where
  "test_rejected_predecessor_attempts =
    [test_rejected_retired_attempt TEST_LOCK 0x26, test_rejected_retired_attempt TEST_UNKNOWN 0x27,
     test_rejected_retired_attempt TEST_DOORBELL 0x28,
     test_rejected_retired_attempt TEST_UNKNOWN_METHOD_UNLOCK 0x29]"

definition test_iv_request_requires_header :: "test_stmt list" where
  "test_iv_request_requires_header =
    map (\<lambda>i. AssertFrame ((iv_request_frame SLOT_VISION)[i := iv_request_frame SLOT_VISION ! i XOR 0x01]) ACTION_NONE)
      [2, 3, 4] @
    negotiate 0x76 SLOT_VISION @ [AssertAdvertised (make_iv 0x76)]"

definition session_tests :: "test_stmt list list" where
  "session_tests =
    [test_iv_handoff_and_replay,
     test_fast_unlock_before_promotion_1,
     test_fast_unlock_before_promotion_2,
     test_fast_unlock_after_pending_promotion,
     test_predecessor_replay_consumes_handoff] @
    test_rejected_predecessor_attempts @
    [test_rejected_active_predecessor_attempt,
     test_poll_budget_closes_state_only_handoff,
     test_next_encrypted_frame_closes_retired_1,
     test_next_encrypted_frame_closes_retired_2,
     test_current_generation_action_closes_retired,
     test_transport_reset_revokes_handoff,
     test_continuous_rotations_keep_one_predecessor,
     test_slot_change_invalidates_generations,
     test_full_reset_clears_retired_generation,
     test_seq_collision_is_resolved,
     test_iv_request_requires_header]"

subsection \<open>The model passes them\<close>

lemma passes_iv_handoff_and_replay: "test_passes test_iv_handoff_and_replay"
  unfolding test_passes_def by (intro allI) code_simp

lemma passes_fast_unlock_after_pending_promotion: "test_passes test_fast_unlock_after_pending_promotion"
  unfolding test_passes_def by (intro allI) code_simp

lemma passes_fast_unlock_before_promotion_1: "test_passes test_fast_unlock_before_promotion_1"
  unfolding test_passes_def by (intro allI) code_simp

lemma passes_fast_unlock_before_promotion_2: "test_passes test_fast_unlock_before_promotion_2"
  unfolding test_passes_def by (intro allI) code_simp

lemma passes_predecessor_replay_consumes_handoff: "test_passes test_predecessor_replay_consumes_handoff"
  unfolding test_passes_def by (intro allI) code_simp

lemma passes_rejected_active_predecessor_attempt: "test_passes test_rejected_active_predecessor_attempt"
  unfolding test_passes_def by (intro allI) code_simp

lemma passes_poll_budget_closes_state_only_handoff: "test_passes test_poll_budget_closes_state_only_handoff"
  unfolding test_passes_def by (intro allI) code_simp

lemma passes_next_encrypted_frame_closes_retired_1: "test_passes test_next_encrypted_frame_closes_retired_1"
  unfolding test_passes_def by (intro allI) code_simp

lemma passes_next_encrypted_frame_closes_retired_2: "test_passes test_next_encrypted_frame_closes_retired_2"
  unfolding test_passes_def by (intro allI) code_simp

lemma passes_current_generation_action_closes_retired: "test_passes test_current_generation_action_closes_retired"
  unfolding test_passes_def by (intro allI) code_simp

lemma passes_transport_reset_revokes_handoff: "test_passes test_transport_reset_revokes_handoff"
  unfolding test_passes_def by (intro allI) code_simp

lemma passes_continuous_rotations_keep_one_predecessor: "test_passes test_continuous_rotations_keep_one_predecessor"
  unfolding test_passes_def by (intro allI) code_simp

lemma passes_slot_change_invalidates_generations: "test_passes test_slot_change_invalidates_generations"
  unfolding test_passes_def by (intro allI) code_simp

lemma passes_full_reset_clears_retired_generation: "test_passes test_full_reset_clears_retired_generation"
  unfolding test_passes_def by (intro allI) code_simp

lemma passes_seq_collision_is_resolved: "test_passes test_seq_collision_is_resolved"
  unfolding test_passes_def by (intro allI) code_simp

lemma passes_iv_request_requires_header: "test_passes test_iv_request_requires_header"
  unfolding test_passes_def by (intro allI) code_simp

lemma passes_rejected_retired_attempt:
  "test_passes (test_rejected_retired_attempt TEST_LOCK 0x26)"
  "test_passes (test_rejected_retired_attempt TEST_UNKNOWN 0x27)"
  "test_passes (test_rejected_retired_attempt TEST_DOORBELL 0x28)"
  "test_passes (test_rejected_retired_attempt TEST_UNKNOWN_METHOD_UNLOCK 0x29)"
  unfolding test_passes_def by (intro allI; code_simp)+

lemma passes_rejected_predecessor_attempts: "list_all test_passes test_rejected_predecessor_attempts"
  by (simp add: test_rejected_predecessor_attempts_def passes_rejected_retired_attempt)

theorem session_tests_pass: "list_all test_passes session_tests"
  unfolding session_tests_def list_all_append
  by (simp add: passes_rejected_predecessor_attempts
      passes_iv_handoff_and_replay
      passes_fast_unlock_after_pending_promotion
      passes_fast_unlock_before_promotion_1
      passes_fast_unlock_before_promotion_2
      passes_predecessor_replay_consumes_handoff
      passes_rejected_active_predecessor_attempt
      passes_poll_budget_closes_state_only_handoff
      passes_next_encrypted_frame_closes_retired_1
      passes_next_encrypted_frame_closes_retired_2
      passes_current_generation_action_closes_retired
      passes_transport_reset_revokes_handoff
      passes_continuous_rotations_keep_one_predecessor
      passes_slot_change_invalidates_generations
      passes_full_reset_clears_retired_generation
      passes_seq_collision_is_resolved
      passes_iv_request_requires_header)

end
