(* ===== verification/Links_Spec.thy ===== *)
theory Links_Spec
  imports Bridge_Loop
begin

text \<open>
  What the device promises about its links, as a specification: a small machine over the shared key,
  the linked keypad and the linked lock, with one rule for each thing that may happen to them. The whole
  device of \<open>Bridge_Loop\<close> refines it, and a power cycle is invisible in it.
\<close>

subsection \<open>The specification\<close>

text \<open>
  \<open>ln_keypad\<close> is the stored name of the linked keypad, \<open>ln_info\<close> the address and family the battery scan
  goes by, \<open>ln_lock\<close> the linked lock.
\<close>

record links =
  ln_key :: "byte list"
  ln_keypad :: "string option"
  ln_info :: keypad_info
  ln_lock :: "linked_lock_info option"

text \<open>A record a relay may use: valid, in a shared slot, without private key bytes.\<close>

definition shared_record :: "linked_lock_info \<Rightarrow> bool" where
  "shared_record l \<longleftrightarrow> ll_valid l = 1 \<and> is_shared_slot (ll_slot_id l) \<and> list_all (\<lambda>x. x = 0) (ll_reserved l)"

inductive links_step :: "links \<Rightarrow> links \<Rightarrow> bool" where
  keypad_paired: "ki_valid i = 1 \<or> i = empty_keypad_info \<Longrightarrow> length name = KEYPAD_NAME_MAX \<Longrightarrow>
    links_step s (s\<lparr>ln_keypad := Some name, ln_info := i\<rparr>)"
| lock_linked: "shared_record l \<Longrightarrow> links_step s (s\<lparr>ln_lock := Some l\<rparr>)"
| link_refused: "links_step s (s\<lparr>ln_lock := None\<rparr>)"
| keypad_learned: "ki_valid (ln_info s) = 0 \<Longrightarrow>
    links_step s (s\<lparr>ln_info := \<lparr>ki_mac = mac, ki_family = family, ki_valid = 1\<rparr>\<rparr>)"
| links_reset: "length key = 16 \<Longrightarrow>
    links_step s \<lparr>ln_key = key, ln_keypad = None, ln_info = empty_keypad_info, ln_lock = None\<rparr>"
| nameless_forgotten: "ln_keypad s = Some name \<Longrightarrow> name ! 0 = CHR 0x00 \<Longrightarrow>
    links_step s (s\<lparr>ln_keypad := None\<rparr>)"

inductive_cases links_stepE: "links_step s s'"

text \<open>The links of a bridge.\<close>

definition links_of :: "bridge \<Rightarrow> links" where
  "links_of b =
    \<lparr>ln_key = shared_key b, ln_keypad = (if keypad_paired b then pref_keypad_name (prefs b) else None),
     ln_info = bridge.keypad_info b, ln_lock = (if lock_linked b then Some (linked_lock b) else None)\<rparr>"

subsection \<open>What is in memory is in flash\<close>

definition links_stored :: "bridge \<Rightarrow> bool" where
  "links_stored b \<longleftrightarrow>
    pref_shared_key (prefs b) = Some (shared_key b) \<and>
    (pref_keypad_info (prefs b) = Some (bridge.keypad_info b) \<or>
      pref_keypad_info (prefs b) = None \<and> bridge.keypad_info b = empty_keypad_info) \<and>
    (pref_linked_lock (prefs b) = Some (linked_lock b) \<or>
      pref_linked_lock (prefs b) = None \<and> linked_lock b = empty_linked_lock) \<and>
    lock_linked b = (ll_valid (linked_lock b) \<noteq> 0) \<and> \<not> is_legacy_record (linked_lock b) \<and>
    (if keypad_paired b then pref_keypad_name (prefs b) \<noteq> None
     else \<forall>n. pref_keypad_name (prefs b) = Some n \<longrightarrow> n ! 0 = CHR 0x00)"

text \<open>A link result in flight names a shared slot, whether it is queued, finished or still being made.\<close>

definition slots_shared :: "bridge \<Rightarrow> lock_linker \<Rightarrow> link_request option \<Rightarrow> bool" where
  "slots_shared b j t \<longleftrightarrow>
    (\<forall>pl. bridge.pending_lock b = Some pl \<longrightarrow> is_shared_slot (pl_slot_id pl)) \<and>
    (job_state_of j = SUCCESS \<longrightarrow> is_shared_slot (lk_slot_id j)) \<and>
    (\<forall>lr. t = Some lr \<longrightarrow> is_shared_slot (link_slot lr))"

definition links_inv :: "device \<Rightarrow> bool" where
  "links_inv d \<longleftrightarrow> links_stored (dv_bridge d) \<and> slots_shared (dv_bridge d) (wz_linker (dv_wizard d)) (dv_linking d)"

lemma not_legacy_empty [simp]: "\<not> is_legacy_record empty_linked_lock" "ll_valid empty_linked_lock = 0"
  by (simp_all add: is_legacy_record_def empty_linked_lock_def)

lemma same_links_stored: "same_links b b' \<Longrightarrow> links_stored b' = links_stored b \<and> links_of b' = links_of b"
  by (simp add: same_links_def links_stored_def links_of_def)

text \<open>A boot finds exactly what is stored.\<close>

lemma setup_links:
  assumes b': "b' = bridge_setup bt b"
  shows "links_stored b'" "links_stored b0 \<Longrightarrow> prefs b = prefs b0 \<Longrightarrow> prefs b' = prefs b0 \<and>
    shared_key b' = shared_key b0 \<and> linked_lock b' = linked_lock b0 \<and> lock_linked b' = lock_linked b0 \<and>
    bridge.keypad_info b' = bridge.keypad_info b0 \<and>
    (keypad_paired b' \<longleftrightarrow> keypad_paired b0 \<and> the (pref_keypad_name (prefs b0)) ! 0 \<noteq> CHR 0x00)"
proof -
  note f = setup_facts [OF b']
  show "links_stored b'"
    using f by (auto simp: links_stored_def split: option.splits)
  assume s: "links_stored b0" and p: "prefs b = prefs b0"
  have "prefs b' = prefs b0"
    using f(6-9) f(5) s p
    by (intro preferences.equality) (auto simp: links_stored_def split: option.splits)
  then show "prefs b' = prefs b0 \<and>
    shared_key b' = shared_key b0 \<and> linked_lock b' = linked_lock b0 \<and> lock_linked b' = lock_linked b0 \<and>
    bridge.keypad_info b' = bridge.keypad_info b0 \<and>
    (keypad_paired b' \<longleftrightarrow> keypad_paired b0 \<and> the (pref_keypad_name (prefs b0)) ! 0 \<noteq> CHR 0x00)"
    using f(1-5) s p by (auto simp: links_stored_def split: option.splits if_splits)
qed

subsection \<open>Queued results\<close>

text \<open>The results waiting for the main loop.\<close>

abbreviation same_pending :: "bridge \<Rightarrow> bridge \<Rightarrow> bool" where
  "same_pending b b' \<equiv> bridge.pending_pair b' = bridge.pending_pair b \<and> bridge.pending_lock b' = bridge.pending_lock b"

lemma pending_reply:
  "same_pending b (send_local_response xc h cmd b)"
  "same_pending b (publish_command cmd b)"
  "same_pending b (snd (relay_to_lock_async env ok h cmd b))"
  by (auto simp: send_local_response_def send_encrypted_response_def handle_state_poll_def send_ack_def notify_def
      publish_command_def publish_lock_def publish_unlock_def publish_doorbell_def relay_to_lock_async_def
      stop_battery_scan_def Let_def split: command_type.split option.split)

lemma pending_event: "same_pending (fst c) (fst (process_event xc ev c))"
  by (simp add: process_event_def on_rx_frame_def notify_def handle_command_def pending_reply Let_def
      split: prod.split queued_event.split action.split command_type.split)

lemma pending_events: "same_pending (fst c) (fst (process_events xc evs c))"
  by (induction evs arbitrary: c) (simp_all add: process_events_def pending_event)

lemma pending_drain:
  assumes "loop_drain xc platform w (b, r) = (b', r')"
  shows "same_pending b b'"
proof -
  obtain evs where "process_events xc evs (b\<lparr>rx_queue := []\<rparr>, r) = (b', r')"
    using assms [unfolded loop_drain_def Let_def fst_conv snd_conv] by blast
  with pending_events [of xc evs "(b\<lparr>rx_queue := []\<rparr>, r)"] show ?thesis by simp
qed

lemma pending_battery_parts:
  "same_pending b (apply_pending_keypad_battery b)"
  "same_pending b (apply_pending_lock_battery b)"
  "same_pending b (stop_battery_scan env b)"
  "same_pending b (maybe_finish_battery_scan env b)"
  "same_pending b (maybe_start_battery_scan env b)"
  by (auto simp: apply_pending_keypad_battery_def apply_pending_lock_battery_def maybe_start_battery_scan_def
      maybe_finish_battery_scan_def publish_keypad_battery_if_changed_def publish_lock_battery_if_changed_def
      set_deadline_def prepare_scan_def save_keypad_info_def sync_def stop_battery_scan_def Let_def split: option.split)

lemma pending_battery: "same_pending b (loop_battery env1 env2 w b)"
  by (simp add: loop_battery_def pending_battery_parts)

subsection \<open>The main loop refines the specification\<close>

abbreviation may_step :: "links \<Rightarrow> links \<Rightarrow> bool" where "may_step \<equiv> links_step\<^sup>*\<^sup>*"

lemma same_links_keeps:
  "same_links b b' \<Longrightarrow> links_stored b \<Longrightarrow> links_stored b' \<and> may_step (links_of b) (links_of b')"
  using same_links_stored [of b b'] by simp

lemma keypad_battery_links:
  assumes "links_stored b"
  shows "links_stored (apply_pending_keypad_battery b)" "may_step (links_of b) (links_of (apply_pending_keypad_battery b))"
proof -
  let ?b = "apply_pending_keypad_battery b"
  have "same_links b ?b \<or> ki_valid (bridge.keypad_info b) = 0 \<and> (\<exists>ka :: keypad_advert. links_stored ?b \<and>
      links_of ?b = (links_of b)\<lparr>ln_info := \<lparr>ki_mac = ka_mac ka, ki_family = ka_family ka, ki_valid = 1\<rparr>\<rparr>)"
  proof (cases "bridge.keypad_advert b")
    case (Some ka)
    show ?thesis
    proof (cases "ki_valid (bridge.keypad_info b) = 0")
      case True
      let ?i = "\<lparr>ki_mac = ka_mac ka, ki_family = ka_family ka, ki_valid = 1\<rparr>"
      have "prefs ?b = (prefs b)\<lparr>pref_keypad_info := Some ?i\<rparr>" "bridge.keypad_info ?b = ?i"
        "shared_key ?b = shared_key b" "linked_lock ?b = linked_lock b" "lock_linked ?b = lock_linked b"
        "keypad_paired ?b = keypad_paired b"
        using Some True
        by (simp_all add: apply_pending_keypad_battery_def publish_keypad_battery_if_changed_def save_keypad_info_def
            sync_def Let_def)
      then have "links_stored ?b \<and> links_of ?b = (links_of b)\<lparr>ln_info := ?i\<rparr>"
        using assms by (simp add: links_stored_def links_of_def)
      with True show ?thesis by blast
    next
      case False
      with Some show ?thesis
        by (simp add: apply_pending_keypad_battery_def publish_keypad_battery_if_changed_def same_links_def Let_def)
    qed
  qed (simp add: apply_pending_keypad_battery_def)
  then have "links_stored ?b \<and> may_step (links_of b) (links_of ?b)"
  proof
    assume "same_links b ?b"
    with assms show ?thesis by (intro same_links_keeps)
  next
    assume learned: "ki_valid (bridge.keypad_info b) = 0 \<and> (\<exists>ka :: keypad_advert. links_stored ?b \<and>
      links_of ?b = (links_of b)\<lparr>ln_info := \<lparr>ki_mac = ka_mac ka, ki_family = ka_family ka, ki_valid = 1\<rparr>\<rparr>)"
    then have "ki_valid (ln_info (links_of b)) = 0" by (simp add: links_of_def)
    with learned links_step.keypad_learned [of "links_of b"] show ?thesis by (metis r_into_rtranclp)
  qed
  then show "links_stored ?b" "may_step (links_of b) (links_of ?b)" by blast+
qed

lemma battery_links:
  assumes "links_stored b"
  shows "links_stored (loop_battery env1 env2 w b)" "may_step (links_of b) (links_of (loop_battery env1 env2 w b))"
proof -
  have same: "same_links c (apply_pending_lock_battery c)" "same_links c (maybe_finish_battery_scan env c)"
    "same_links c (maybe_start_battery_scan env c)" for env c
    by (auto simp: same_links_def apply_pending_lock_battery_def publish_lock_battery_if_changed_def
        maybe_finish_battery_scan_def maybe_start_battery_scan_def set_deadline_def prepare_scan_def Let_def
        split: option.split)
  note k = keypad_battery_links [OF assms]
  have "same_links c (maybe_start_battery_scan e2 (maybe_finish_battery_scan e1 (apply_pending_lock_battery c)))" for c e1 e2
    by (rule same_links_trans [OF same_links_trans [OF same(1) same(2)] same(3)])
  note later = same_links_keeps [OF this k(1)]
  have "links_stored (loop_battery env1 env2 w b) \<and> may_step (links_of b) (links_of (loop_battery env1 env2 w b))"
  proof (cases "has_keypad_battery (config b) \<or> has_lock_battery (config b)")
    case True
    then show ?thesis unfolding loop_battery_def if_P [OF True] using later k(2) by (meson rtranclp_trans)
  next
    case False
    then show ?thesis unfolding loop_battery_def if_not_P [OF False] using assms by simp
  qed
  then show "links_stored (loop_battery env1 env2 w b)" "may_step (links_of b) (links_of (loop_battery env1 env2 w b))"
    by blast+
qed

lemma pairing_links:
  assumes "links_stored b"
  shows "links_stored (apply_pending_pairing now b)" "may_step (links_of b) (links_of (apply_pending_pairing now b))"
proof -
  let ?b = "apply_pending_pairing now b"
  have "links_stored ?b \<and> may_step (links_of b) (links_of ?b)"
  proof (cases "bridge.pending_pair b")
    case (Some pp)
    define i where "i = (case parse_mac_pretty (pp_mac pp) of
        Some mac \<Rightarrow> \<lparr>ki_mac = mac, ki_family = family_byte (pp_family pp), ki_valid = 1\<rparr> | None \<Rightarrow> empty_keypad_info)"
    let ?n = "name_buffer KEYPAD_NAME_MAX (pp_name pp)"
    have "links_stored ?b" "links_of ?b = (links_of b)\<lparr>ln_keypad := Some ?n, ln_info := i\<rparr>"
      using assms Some
      by (auto simp: apply_pending_pairing_def publish_defs links_stored_def links_of_def Let_def simp flip: i_def)
    moreover have "ki_valid i = 1 \<or> i = empty_keypad_info" by (simp add: i_def split: option.split)
    ultimately show ?thesis
      using links_step.keypad_paired [of i ?n "links_of b"] by (auto simp: KEYPAD_NAME_MAX_def)
  qed (use assms in \<open>simp add: apply_pending_pairing_def\<close>)
  then show "links_stored ?b" "may_step (links_of b) (links_of ?b)" by blast+
qed

lemma link_links:
  assumes "links_stored b" "\<And>pl. bridge.pending_lock b = Some pl \<Longrightarrow> is_shared_slot (pl_slot_id pl)"
  shows "links_stored (apply_pending_lock_link now b)" "may_step (links_of b) (links_of (apply_pending_lock_link now b))"
proof -
  let ?b = "apply_pending_lock_link now b"
  have "links_stored ?b \<and> may_step (links_of b) (links_of ?b)"
  proof (cases "bridge.pending_lock b")
    case (Some pl)
    show ?thesis
    proof (cases "parse_mac_pretty (pl_mac pl)")
      case None
      with assms(1) Some have "links_stored ?b" "links_of ?b = (links_of b)\<lparr>ln_lock := None\<rparr>"
        by (auto simp: apply_pending_lock_link_def publish_defs links_stored_def links_of_def Let_def)
      with links_step.link_refused [of "links_of b"] show ?thesis by auto
    next
      case mac: (Some mac)
      let ?l = "empty_linked_lock\<lparr>ll_mac := mac, ll_valid := 1, ll_model := model_byte (pl_model pl),
        ll_slot_id := pl_slot_id pl, ll_name := name_buffer LOCK_NAME_MAX (pl_name pl)\<rparr>"
      have l: "shared_record ?l" "\<not> is_legacy_record ?l"
        using assms(2) [OF Some] by (simp_all add: shared_record_def is_legacy_record_def empty_linked_lock_def list_ex_iff list_all_iff)
      with assms(1) Some mac have "links_stored ?b" "links_of ?b = (links_of b)\<lparr>ln_lock := Some ?l\<rparr>"
        by (auto simp: apply_pending_lock_link_def publish_defs links_stored_def links_of_def Let_def)
      with links_step.lock_linked [OF l(1), of "links_of b"] show ?thesis by auto
    qed
  qed (use assms in \<open>simp add: apply_pending_lock_link_def\<close>)
  then show "links_stored ?b" "may_step (links_of b) (links_of ?b)" by blast+
qed

lemma poll_linked:
  assumes "poll_jobs w = (paired, Some (n, m, model, slot), w')"
  shows "job_state_of (wz_linker w) = SUCCESS \<and> slot = lk_slot_id (wz_linker w)"
proof -
  define pw where "pw = (case pairing_armed w of
       None \<Rightarrow> (None, w)
     | Some (job, name) \<Rightarrow>
         if job_state_of (wz_pairer w) = SUCCESS
         then commit_pairing job name (pair_status_of (wz_pairer w)) w else (None, w))"
  have "wz_linker (snd pw) = wz_linker w"
    by (simp add: pw_def commit_pairing_def split: option.split prod.split)
  with assms show ?thesis
    unfolding poll_jobs_def Let_def pw_def [symmetric]
    by (auto simp: commit_link_def link_status_of_def job_status.defs split: option.splits prod.splits if_splits)
qed

lemma jobs_links:
  assumes stored: "links_stored b" and slots: "slots_shared b (wz_linker w) t"
    and run: "loop_jobs now1 now2 (b, w) = (b', w')"
  shows "links_stored b'" "may_step (links_of b) (links_of b')" "bridge.pending_lock b' = None"
    "wz_linker w' = wz_linker w"
proof -
  obtain b1 w1 where 1: "loop_poll (b, w) = (b1, w1)" by (metis prod.exhaust)
  have poll: "same_links b b1" "wz_linker w1 = wz_linker w"
    "\<And>pl. bridge.pending_lock b1 = Some pl \<Longrightarrow> is_shared_slot (pl_slot_id pl)"
  proof -
    show "same_links b b1"
      using 1 by (auto simp: loop_poll_def queue_linked_def queue_paired_def same_links_def split: if_splits prod.splits option.splits)
    show "wz_linker w1 = wz_linker w"
      using 1 poll_jobs_facts(1) by (auto simp: loop_poll_def same_tasks_def split: if_splits prod.splits)
    show "is_shared_slot (pl_slot_id pl)" if "bridge.pending_lock b1 = Some pl" for pl
      using 1 that slots poll_linked [of w]
      by (auto simp: loop_poll_def queue_linked_def queue_paired_def slots_shared_def split: if_splits prod.splits option.splits)
  qed
  let ?b2 = "apply_pending_pairing now1 b1" and ?b3 = "apply_pending_lock_link now2 (apply_pending_pairing now1 b1)"
  have pend: "bridge.pending_lock ?b2 = bridge.pending_lock b1" "bridge.pending_lock ?b3 = None"
    by (auto simp: apply_pending_pairing_def apply_pending_lock_link_def publish_defs Let_def split: option.split)
  have b': "b' = apply_pending_lock_relay ?b3" and w': "wz_linker w' = wz_linker w1"
    using run by (auto simp: loop_jobs_def 1 loop_apply_pairing_def loop_apply_link_def tell_pairing_def tell_link_def Let_def
        split: if_splits)
  note s1 = same_links_keeps [OF poll(1) stored]
  note s2 = pairing_links [of b1 now1] and s3 = link_links [of ?b2 now2]
  note s4 = same_links_keeps [OF radio_task_links(3), of ?b3]
  show "links_stored b'" "may_step (links_of b) (links_of b')"
    unfolding b' using s1 s2 s3 s4 poll(3) pend(1) by (metis rtranclp_trans)+
  show "bridge.pending_lock b' = None" "wz_linker w' = wz_linker w"
    using pend(2) poll(2) w' by (simp_all add: b' apply_pending_lock_relay_def)
qed

lemma reset_links:
  assumes "b' = reset_pairing random (Some handle) env b" "length random = 16"
  shows "links_stored b'" "may_step (links_of b) (links_of b')"
proof -
  note f = reset_facts [OF assms(1)]
  show "links_stored b'" using f by (simp add: links_stored_def KEYPAD_NAME_MAX_def)
  have "links_of b' = \<lparr>ln_key = random, ln_keypad = None, ln_info = empty_keypad_info, ln_lock = None\<rparr>"
    using f by (simp add: links_of_def)
  with links_step.links_reset [OF assms(2), of "links_of b"] show "may_step (links_of b) (links_of b')" by simp
qed

subsection \<open>The device refines the specification\<close>

lemma slots_linker:
  "slots_shared b j t \<Longrightarrow> bridge.pending_lock b' = bridge.pending_lock b \<or> bridge.pending_lock b' = None \<Longrightarrow>
    slots_shared b' j t"
  by (auto simp: slots_shared_def)

lemma launch_slot:
  assumes "link_task env rq w log = Some lr"
  shows "is_shared_slot (link_slot lr)"
proof -
  obtain w1 log1 where p: "link_prepare env rq w log = Some (Inr lr, w1, log1)"
    using assms by (auto simp: link_task_def split: option.splits sum.splits prod.splits if_splits)
  from link_prepare_cases [OF p] show ?thesis
    by (auto simp: link_request_for_def link_slot_def shared_slot_for_family_def is_shared_slot_def
        UI_SLOT_VISION_def UI_SLOT_ORIGINAL_def LINK_SLOT_ORIGINAL_def SHARED_SLOT_ORIGINAL_def SHARED_SLOT_VISION_def)
qed

lemma linker_start_state:
  "linker_start timer ok lr j = (job, j') \<Longrightarrow> j' = j \<or> job_state_of j' \<noteq> SUCCESS"
  by (auto simp: linker_start_def start_job_def job_state_of_def running_status_def mark_failed_def Let_def
      split: if_splits)

lemma request_slots:
  assumes inv: "slots_shared b (wz_linker (dv_wizard d)) (dv_linking d)"
    and run: "handle_request env m uri rq (dv_wizard d) log = Some (Some (reply, w', log'))"
  shows "slots_shared b (wz_linker w') (dv_linking (serve env m uri rq log w' d))"
proof -
  have "wz_linker w' = wz_linker (dv_wizard d) \<or> job_state_of (wz_linker w') \<noteq> SUCCESS"
    using request_starts [OF run] browses_jobs linker_start_state
    by (fastforce simp: jobs_started_def tried_pairing_def tried_link_def split: if_splits)
  moreover have "is_shared_slot (link_slot lr)" if "dv_linking (serve env m uri rq log w' d) = Some lr" for lr
    using that inv launch_slot by (auto simp: serve_def or_task_def slots_shared_def split: if_splits)
  ultimately show ?thesis using inv by (auto simp: slots_shared_def)
qed

lemma setup_pending: "same_pending (initial_bridge cfg p) (bridge_setup bt (initial_bridge cfg p))"
proof -
  let ?b = "initial_bridge cfg p"
  have 1: "same_pending ?b (restore_linked_lock (restore_keypad_info (restore_keypad_name (restore_key bt ?b))))"
    by (simp add: restore_linked_lock_def restore_keypad_info_def restore_keypad_name_def restore_key_def
        initial_bridge_def publish_defs Let_def split: option.split)
  have 2: "prepare_keys bt b = (ok, b') \<Longrightarrow> same_pending b b'" "prepare_ble bt b = (ok, b') \<Longrightarrow> same_pending b b'" for b ok b'
    by (auto simp: prepare_keys_def import_aes_key_def prepare_ble_def Let_def split: if_splits option.splits)
  show ?thesis
    using 1 2 by (auto simp: bridge_setup_def publish_defs Let_def split: prod.split)
qed

lemma links_inv_setup:
  assumes "device_setup bt httpd (initial_bridge cfg p, initial_wizard\<lparr>wz_html := html\<rparr>) = (b, w)"
  shows "links_inv (device_of (b, w))" "b = bridge_setup bt (initial_bridge cfg p)"
proof -
  show b: "b = bridge_setup bt (initial_bridge cfg p)"
    using assms by (auto simp: device_setup_def Let_def split: if_splits)
  have "wz_linker w = initial_linker"
    using assms by (auto simp: device_setup_def tell_key_def tell_link_def tell_pairing_def ui_start_def Let_def
        initial_wizard_def split: if_splits)
  then show "links_inv (device_of (b, w))"
    using setup_links(1) [OF b] setup_pending [of bt cfg p]
    by (simp add: links_inv_def slots_shared_def device_of_def b initial_linker_def job_state_of_def idle_status_def
        initial_bridge_def)
qed

lemma power_cycle_links:
  assumes inv: "links_inv d"
    and s: "device_setup bt httpd (initial_bridge cfg (prefs (dv_bridge d)), w0) = (b, w)"
  shows "prefs b = prefs (dv_bridge d) \<and> shared_key b = shared_key (dv_bridge d) \<and>
    linked_lock b = linked_lock (dv_bridge d) \<and> lock_linked b = lock_linked (dv_bridge d) \<and>
    bridge.keypad_info b = bridge.keypad_info (dv_bridge d) \<and>
    (keypad_paired b \<longleftrightarrow> keypad_paired (dv_bridge d) \<and> the (pref_keypad_name (prefs (dv_bridge d))) ! 0 \<noteq> CHR 0x00)"
proof -
  have "b = bridge_setup bt (initial_bridge cfg (prefs (dv_bridge d)))"
    using s by (auto simp: device_setup_def Let_def split: if_splits)
  from setup_links(2) [OF this, of "dv_bridge d"] inv show ?thesis by (simp add: links_inv_def initial_bridge_def)
qed

text \<open>The steps of the other tasks touch neither the links nor a queued link.\<close>

lemma links_inv_radio:
  assumes "links_inv d" "same_links (dv_bridge d) b" "same_pending (dv_bridge d) b"
  shows "links_inv (d\<lparr>dv_bridge := b\<rparr>) \<and> may_step (links_of (dv_bridge d)) (links_of (dv_bridge (d\<lparr>dv_bridge := b\<rparr>)))"
  using assms same_links_keeps [OF assms(2)] by (simp add: links_inv_def slots_shared_def)

lemma radio_pending:
  "same_pending b (server_event callback b)"
  "same_pending b (handle_battery_advert adv b)"
  "same_pending b (fst (run_relay_task be cr cfg plaintext cmd c blog b))"
  using advert_fills_slots [of b adv]
  by (auto simp: server_event_def push_connect_def push_disconnect_def push_rx_def advert_slots_only_def run_relay_task_def
      relay_task_ends_def post_relay_result_def Let_def split: prod.split server_callback.split)

lemma links_inv_step:
  assumes "device_step httpd d d'" "links_inv d"
  shows "links_inv d' \<and> may_step (links_of (dv_bridge d)) (links_of (dv_bridge d'))"
  using assms
proof (induction rule: device_step.induct)
  case (jobs d now1 now2)
  obtain b w where run: "loop_jobs now1 now2 (dv_bridge d, dv_wizard d) = (b, w)" by (metis prod.exhaust)
  have inv: "links_stored (dv_bridge d)" "slots_shared (dv_bridge d) (wz_linker (dv_wizard d)) (dv_linking d)"
    using jobs by (simp_all add: links_inv_def)
  from jobs_links [OF inv run] inv(2) show ?case
    by (simp add: run set_parts_def links_inv_def slots_shared_def)
next
  case (idle d now)
  have "wz_linker (snd (stop_if_idle now IDLE_TIMEOUT_MS w)) = wz_linker w" for w
    by (simp add: stop_if_idle_def ui_stop_def)
  with idle show ?case by (simp add: loop_idle_def set_parts_def links_inv_def)
next
  case (drain xc platform d r b r' env1 env2)
  let ?b = "loop_battery env1 env2 (dv_wizard d) b"
  have 1: "links_stored b \<and> may_step (links_of (dv_bridge d)) (links_of b)"
    using drain(2) same_links_keeps [OF loop_drain_links [OF drain(1)]] by (simp add: links_inv_def)
  then have 2: "links_stored ?b" "may_step (links_of b) (links_of ?b)" using battery_links [of b] by blast+
  have "bridge.pending_lock ?b = bridge.pending_lock (dv_bridge d)"
    by (simp add: pending_battery pending_drain [OF drain(1)])
  with drain(2) 1 2 show ?case by (auto simp: links_inv_def slots_shared_def)
next
  case (request d env m uri rq log reply w' log')
  then show ?case using request_slots [OF _ request(2)] by (simp add: links_inv_def) (simp add: serve_def)
next
  case (linking_ends d lr le)
  then show ?case
    using linker_run_cases [of le lr "wz_linker (dv_wizard d)"]
    by (auto simp: links_inv_def slots_shared_def job_state_of_def link_describes_def)
next
  case (button random d handle rad now)
  let ?b = "reset_pairing random (Some handle) rad (dv_bridge d)"
  have "wz_linker (snd (ui_start httpd now (tell_key b (tell_pairing b (tell_link b w))))) = wz_linker w" for b w
    by (simp add: ui_start_def tell_key_def tell_pairing_def tell_link_def)
  with button reset_links [OF refl button(1), where handle = handle and env = rad and b = "dv_bridge d"] reset_pending(2) [of random handle rad "dv_bridge d"]
  show ?case
    by (auto simp: device_press_reset_def device_reset_def set_parts_def links_inv_def slots_shared_def Let_def)
next
  case (power_cycle bt cfg d html b w)
  note kept = power_cycle_links [OF power_cycle(4) power_cycle(2)]
  have stored: "links_stored (dv_bridge d)" using power_cycle by (simp add: links_inv_def)
  have "may_step (links_of (dv_bridge d)) (links_of b)"
  proof (cases "keypad_paired b = keypad_paired (dv_bridge d)")
    case True
    with kept have "links_of b = links_of (dv_bridge d)" by (simp add: links_of_def)
    then show ?thesis by simp
  next
    case False
    then obtain name where "ln_keypad (links_of (dv_bridge d)) = Some name" "name ! 0 = CHR 0x00"
        "links_of b = (links_of (dv_bridge d))\<lparr>ln_keypad := None\<rparr>"
      using kept stored by (auto simp: links_of_def links_stored_def)
    then show ?thesis using links_step.nameless_forgotten by (metis r_into_rtranclp)
  qed
  with links_inv_setup(1) [OF power_cycle(2)] show ?case by (simp add: device_of_def)
next
  case (pairing_ends d kr pe)
  then show ?case by (simp add: links_inv_def)
next
  case (keypad d callback)
  then show ?case by (intro links_inv_radio radio_task_links radio_pending)
next
  case (advert d adv)
  then show ?case by (intro links_inv_radio radio_task_links radio_pending)
next
  case (relayed d be cr cfg plaintext cmd c blog)
  then show ?case by (intro links_inv_radio relay_task_links radio_pending)
qed

text \<open>Every reachable device satisfies the invariant.\<close>

lemma reachable_links_inv: "device_reachable httpd d \<Longrightarrow> links_inv d"
  by (induction rule: device_reachable.induct) (use links_inv_setup links_inv_step in blast)+

lemma setup_facts_links:
  "device_setup bt httpd (initial_bridge cfg p, w0) = (b, w) \<Longrightarrow> b = bridge_setup bt (initial_bridge cfg p)"
  by (auto simp: device_setup_def Let_def split: if_splits)

text \<open>Only the Reset button changes the key, and it forgets both links with it.\<close>

lemma jobs_key: "shared_key (fst (loop_jobs now1 now2 (b, w))) = shared_key b"
  by (simp add: loop_jobs_def loop_poll_def loop_apply_pairing_def loop_apply_link_def queue_linked_def queue_paired_def
      apply_pending_pairing_def apply_pending_lock_link_def apply_pending_lock_relay_def publish_defs Let_def
      split: prod.split option.split)

lemma key_step:
  assumes "device_step httpd d d'" "links_inv d"
  shows "shared_key (dv_bridge d') = shared_key (dv_bridge d) \<or> \<not> keypad_paired (dv_bridge d') \<and> \<not> lock_linked (dv_bridge d')"
  using assms
proof (induction rule: device_step.induct)
  case (jobs d now1 now2)
  then show ?case by (simp add: set_parts_def jobs_key)
next
  case (drain xc platform d r b r' env1 env2)
  then show ?case
    using loop_drain_links [OF drain(1)] loop_battery_alike [of b env1 env2 "dv_wizard d"]
    by (simp add: same_links_def told_alike_def)
next
  case (button random d handle rad now)
  then show ?case
    using reset_facts [OF refl, of random handle rad "dv_bridge d"]
    by (simp add: device_press_reset_def device_reset_def set_parts_def Let_def)
next
  case (power_cycle bt cfg d html b w)
  then show ?case using power_cycle_links by (simp add: device_of_def)
qed (use radio_task_links relay_task_links in \<open>auto simp: same_links_def loop_idle_def set_parts_def serve_def\<close>)

subsection \<open>Properties\<close>

text \<open>
  C7. A power cycle is invisible. From whatever a device has been through, if it loses power and boots
  again, its preferences are as they were, and so are the shared key, the linked lock, the address a
  relay goes to and the identity the battery scan goes by; the keypad is linked as before, unless its
  stored name is empty, which a boot takes for no keypad at all.
\<close>

theorem power_cycle_keeps_links:
  assumes "device_reachable httpd d"
    and "device_setup bt httpd (initial_bridge cfg (prefs (dv_bridge d)), w0) = (b, w)"
  shows "prefs b = prefs (dv_bridge d) \<and> shared_key b = shared_key (dv_bridge d) \<and>
    lock_linked b = lock_linked (dv_bridge d) \<and> linked_lock b = linked_lock (dv_bridge d) \<and>
    physical_lock_config slot b = physical_lock_config slot (dv_bridge d) \<and>
    bridge.keypad_info b = bridge.keypad_info (dv_bridge d) \<and>
    (keypad_paired b \<longleftrightarrow> keypad_paired (dv_bridge d) \<and>
      (\<exists>name. pref_keypad_name (prefs (dv_bridge d)) = Some name \<and> name ! 0 \<noteq> CHR 0x00))"
proof -
  have inv: "links_inv d" using assms(1) by (rule reachable_links_inv)
  then have "keypad_paired (dv_bridge d) \<Longrightarrow> \<exists>name. pref_keypad_name (prefs (dv_bridge d)) = Some name"
    by (auto simp: links_inv_def links_stored_def)
  with power_cycle_links [OF inv assms(2)] show ?thesis by (auto simp: physical_lock_config_def)
qed


text \<open>
  A keypad with an empty name is linked until the next boot only: the name in flash is the mark of a
  linked keypad.
\<close>

lemma nameless_pairing_lost:
  assumes "bridge.pending_pair b = Some pp" "pp_name pp = []"
    and "b1 = apply_pending_pairing now b" "b2 = bridge_setup bt (initial_bridge cfg (prefs b1))"
  shows "keypad_paired b1 \<and> \<not> keypad_paired b2"
proof -
  have "keypad_paired b1" "pref_keypad_name (prefs b1) = Some (name_buffer KEYPAD_NAME_MAX [])"
    using assms(1-3) by (simp_all add: apply_pending_pairing_def publish_defs Let_def)
  then show ?thesis
    using setup_facts(2) [OF assms(4)] by (simp add: initial_bridge_def name_buffer_def KEYPAD_NAME_MAX_def)
qed

subsection \<open>Witnesses\<close>

definition stored_links :: preferences where
  "stored_links = \<lparr>pref_shared_key = Some (replicate 16 7),
    pref_keypad_name = Some (name_buffer KEYPAD_NAME_MAX ''Front door''),
    pref_keypad_info = Some \<lparr>ki_mac = [0xB0, 0xE9, 0xFE, 10, 11, 12], ki_family = 1, ki_valid = 1\<rparr>,
    pref_linked_lock = Some (empty_linked_lock\<lparr>ll_valid := 1, ll_mac := [0xB0, 0xE9, 0xFE, 1, 2, 3],
      ll_slot_id := 0xC6, ll_model := 4, ll_name := name_buffer LOCK_NAME_MAX ''Door lock''\<rparr>)\<rparr>"

definition stored_device :: device where
  "stored_device = device_of (device_setup test_boot True (initial_bridge (config jobs_bridge) stored_links, initial_wizard))"

lemma stored_device_setup:
  "device_setup test_boot True (initial_bridge (config jobs_bridge) stored_links, initial_wizard\<lparr>wz_html := None\<rparr>) =
    (dv_bridge stored_device, dv_wizard stored_device)"
  by (simp add: stored_device_def device_of_def initial_wizard_def)

lemma stored_device_facts:
  "\<not> failed (dv_bridge stored_device)" "keypad_paired (dv_bridge stored_device)"
  "lock_linked (dv_bridge stored_device)"
  "\<exists>name. pref_keypad_name (prefs (dv_bridge stored_device)) = Some name \<and> name ! 0 \<noteq> CHR 0x00"
proof -
  show "\<not> failed (dv_bridge stored_device)" "keypad_paired (dv_bridge stored_device)"
    "lock_linked (dv_bridge stored_device)"
    by code_simp+
  have "case pref_keypad_name (prefs (dv_bridge stored_device)) of Some name \<Rightarrow> name ! 0 \<noteq> CHR 0x00 | None \<Rightarrow> False"
    by code_simp
  then show "\<exists>name. pref_keypad_name (prefs (dv_bridge stored_device)) = Some name \<and> name ! 0 \<noteq> CHR 0x00"
    by (auto split: option.splits)
qed

lemma stored_device_reachable: "device_reachable True stored_device"
proof -
  have "prefs_sized stored_links"
    by (simp add: prefs_sized_def stored_links_def info_sized_def lock_sized_def empty_linked_lock_def
        KEYPAD_NAME_MAX_def LOCK_NAME_MAX_def)
  from device_reachable.first_boot [OF _ this stored_device_setup stored_device_facts(1)]
  show ?thesis by (simp add: test_boot_def stored_device_def device_of_def)
qed

theorem power_cycle_keeps_links_witness:
  "\<exists>b w. device_setup test_boot True (initial_bridge (config jobs_bridge) (prefs (dv_bridge stored_device)), initial_wizard) =
      (b, w) \<and> keypad_paired b \<and> lock_linked b \<and> linked_lock b = linked_lock (dv_bridge stored_device)"
proof -
  obtain b w where s: "device_setup test_boot True
      (initial_bridge (config jobs_bridge) (prefs (dv_bridge stored_device)), initial_wizard) = (b, w)"
    by (metis prod.exhaust)
  from power_cycle_keeps_links [OF stored_device_reachable s] stored_device_facts s show ?thesis by auto
qed


end
