(* ===== verification/Job_Outcomes.thy ===== *)
theory Job_Outcomes
  imports Links_Spec
begin

text \<open>
  From a request to its effect: a job in flight is the one the wizard watches, so what it ends with is
  what the next iteration of the main loop makes of it.
\<close>

subsection \<open>The job in flight is watched\<close>

definition pairing_watched :: "wizard \<Rightarrow> bool" where
  "pairing_watched w \<longleftrightarrow> wz_pairing_job w = st_job_id (status (wz_pairer w)) \<and> wz_pairing_job w \<noteq> [] \<and>
    \<not> wz_success_notified w"

definition link_watched :: "wizard \<Rightarrow> bool" where
  "link_watched w \<longleftrightarrow> wz_link_job w = st_job_id (status (wz_linker w)) \<and> wz_link_job w \<noteq> [] \<and> \<not> wz_link_notified w"

definition jobs_watched :: "device \<Rightarrow> bool" where
  "jobs_watched d \<longleftrightarrow> (dv_pairing d \<noteq> None \<longrightarrow> pairing_watched (dv_wizard d)) \<and>
    (dv_linking d \<noteq> None \<longrightarrow> link_watched (dv_wizard d))"

text \<open>The bookkeeping of the two jobs.\<close>

definition pairing_kept :: "wizard \<Rightarrow> wizard \<Rightarrow> bool" where
  "pairing_kept w w' \<longleftrightarrow> wz_pairer w' = wz_pairer w \<and> wz_pairing_job w' = wz_pairing_job w \<and>
    wz_pairing_name w' = wz_pairing_name w \<and> wz_success_notified w' = wz_success_notified w"

definition link_kept :: "wizard \<Rightarrow> wizard \<Rightarrow> bool" where
  "link_kept w w' \<longleftrightarrow> wz_linker w' = wz_linker w \<and> wz_link_job w' = wz_link_job w \<and> wz_link_notified w' = wz_link_notified w"

lemma same_watched:
  "pairing_kept w w' \<Longrightarrow> pairing_watched w' = pairing_watched w" "link_kept w w' \<Longrightarrow> link_watched w' = link_watched w"
  by (simp_all add: pairing_kept_def pairing_watched_def link_kept_def link_watched_def)

lemma browses_jobs_same: "browses env w w' \<Longrightarrow> pairing_kept w w' \<and> link_kept w w'"
  by (auto simp: browses_def pairing_kept_def link_kept_def)

lemma told_jobs_same:
  "pairing_kept w (tell_key b w)" "link_kept w (tell_key b w)" "pairing_kept w (tell_link b w)" "link_kept w (tell_link b w)"
  "pairing_kept w (tell_pairing b w)" "link_kept w (tell_pairing b w)"
  "pairing_kept w (snd (stop_if_idle now t w))" "link_kept w (snd (stop_if_idle now t w))"
  by (simp_all add: pairing_kept_def link_kept_def tell_key_def tell_link_def tell_pairing_def stop_if_idle_def ui_stop_def)

text \<open>A poll reports a job only once it has ended with SUCCESS.\<close>

lemma poll_running:
  assumes "poll_jobs w = (paired, linked, w')"
  shows "job_state_of (wz_pairer w) \<noteq> SUCCESS \<Longrightarrow> paired = None \<and> pairing_kept w w'"
    "job_state_of (wz_linker w) \<noteq> SUCCESS \<Longrightarrow> linked = None \<and> link_kept w w'"
    "wz_pairer w' = wz_pairer w" "wz_linker w' = wz_linker w"
proof -
  define pw where "pw =
    (case pairing_armed w of
       None \<Rightarrow> (None, w)
     | Some (job, name) \<Rightarrow>
         if job_state_of (wz_pairer w) = SUCCESS
         then commit_pairing job name (pair_status_of (wz_pairer w)) w else (None, w))"
  obtain p w1 where pw1: "pw = (p, w1)" by (cases pw)
  have 1: "(job_state_of (wz_pairer w) \<noteq> SUCCESS \<longrightarrow> p = None \<and> w1 = w) \<and> link_kept w w1 \<and> wz_pairer w1 = wz_pairer w"
    using pw1 unfolding pw_def by (auto simp: link_kept_def commit_pairing_def split: option.splits prod.splits if_splits)
  have 2: "(job_state_of (wz_linker w1) \<noteq> SUCCESS \<longrightarrow> linked = None \<and> w' = w1) \<and> pairing_kept w1 w' \<and> paired = p \<and>
      wz_linker w' = wz_linker w1"
    using assms pw1 unfolding poll_jobs_def Let_def pw_def
    by (auto simp: pairing_kept_def commit_link_def split: option.splits prod.splits if_splits)
  show "job_state_of (wz_pairer w) \<noteq> SUCCESS \<Longrightarrow> paired = None \<and> pairing_kept w w'"
    "job_state_of (wz_linker w) \<noteq> SUCCESS \<Longrightarrow> linked = None \<and> link_kept w w'"
    "wz_pairer w' = wz_pairer w" "wz_linker w' = wz_linker w"
    using 1 2 by (auto simp: link_kept_def pairing_kept_def)
qed

lemma jobs_running:
  assumes "loop_jobs now1 now2 (b, w) = (b', w')"
  shows "job_state_of (wz_pairer w) \<noteq> SUCCESS \<Longrightarrow> pairing_kept w w'" "job_state_of (wz_linker w) \<noteq> SUCCESS \<Longrightarrow> link_kept w w'"
proof -
  obtain b1 w1 where 1: "loop_poll (b, w) = (b1, w1)" by (metis prod.exhaust)
  have "job_state_of (wz_pairer w) \<noteq> SUCCESS \<Longrightarrow> pairing_kept w w1" "job_state_of (wz_linker w) \<noteq> SUCCESS \<Longrightarrow> link_kept w w1"
    using 1 poll_running by (auto simp: loop_poll_def pairing_kept_def link_kept_def split: if_splits prod.splits)
  moreover have "pairing_kept w1 w'" "link_kept w1 w'"
    using assms by (auto simp: loop_jobs_def 1 loop_apply_pairing_def loop_apply_link_def tell_pairing_def tell_link_def
        pairing_kept_def link_kept_def Let_def split: if_splits)
  ultimately show "job_state_of (wz_pairer w) \<noteq> SUCCESS \<Longrightarrow> pairing_kept w w'"
    "job_state_of (wz_linker w) \<noteq> SUCCESS \<Longrightarrow> link_kept w w'"
    by (simp_all add: pairing_kept_def link_kept_def)
qed

subsection \<open>Starting a job\<close>

lemma start_job_watched:
  "start_job c timer n msg err ok f j = (job, j') \<Longrightarrow> job \<noteq> [] \<Longrightarrow> st_job_id (status j') = job"
  by (auto simp: start_job_def running_status_def Let_def split: if_splits)

lemma handle_pair_watched:
  assumes run: "handle_pair env rq w log = Some (reply, w', log')"
  shows "link_kept w w'" "job_state_of (wz_pairer w) = RUNNING \<Longrightarrow> pairing_kept w w'"
    "pairing_task env rq w log \<noteq> None \<Longrightarrow> pairing_watched w'"
proof -
  obtain res w1 log1 where p: "pair_prepare env rq w log = Some (res, w1, log1)"
    using run by (auto simp: handle_pair_def bind_eq_Some_conv)
  then have b: "pairing_kept w w1" "link_kept w w1" using pair_prepare_cases [OF p] browses_jobs_same by blast+
  have "link_kept w w' \<and> (job_state_of (wz_pairer w) = RUNNING \<longrightarrow> pairing_kept w w') \<and>
    (pairing_task env rq w log \<noteq> None \<longrightarrow> pairing_watched w')"
  proof (cases res)
    case (Inl r)
    with run p b show ?thesis by (auto simp: handle_pair_def pairing_task_def)
  next
    case (Inr kn)
    obtain kr n where kn: "kn = (kr, n)" by force
    obtain job w2 where l: "pair_launch env kr w1 = (job, w2)" by (metis prod.exhaust)
    have w': "w' = (if job = [] then w2 else pair_bind job n w2)"
      using run p Inr kn l by (auto simp: handle_pair_def split: if_splits)
    have task: "pairing_task env rq w log = (if job = [] then None else Some kr)"
      using p Inr kn l by (simp add: pairing_task_def)
    have "link_kept w1 w2" "job \<noteq> [] \<Longrightarrow> st_job_id (status (wz_pairer w2)) = job"
      using l start_job_watched by (auto simp: pair_launch_def pairer_start_def link_kept_def split: prod.splits)
    moreover have "job_state_of (wz_pairer w1) = RUNNING \<Longrightarrow> job = [] \<and> w2 = w1" using launch_running(1) [OF _ l] by simp
    ultimately show ?thesis
      using b by (auto simp: w' task pair_bind_def pairing_watched_def pairing_kept_def link_kept_def)
  qed
  then show "link_kept w w'" "job_state_of (wz_pairer w) = RUNNING \<Longrightarrow> pairing_kept w w'"
    "pairing_task env rq w log \<noteq> None \<Longrightarrow> pairing_watched w'"
    by blast+
qed

lemma handle_link_watched:
  assumes run: "handle_lock_link env rq w log = Some (reply, w', log')"
  shows "pairing_kept w w'" "job_state_of (wz_linker w) = RUNNING \<Longrightarrow> link_kept w w'"
    "link_task env rq w log \<noteq> None \<Longrightarrow> link_watched w'"
proof -
  obtain res w1 log1 where p: "link_prepare env rq w log = Some (res, w1, log1)"
    using run by (auto simp: handle_lock_link_def bind_eq_Some_conv)
  then have b: "pairing_kept w w1" "link_kept w w1" using link_prepare_cases [OF p] browses_jobs_same by blast+
  have "pairing_kept w w' \<and> (job_state_of (wz_linker w) = RUNNING \<longrightarrow> link_kept w w') \<and>
    (link_task env rq w log \<noteq> None \<longrightarrow> link_watched w')"
  proof (cases res)
    case (Inl r)
    with run p b show ?thesis by (auto simp: handle_lock_link_def link_task_def)
  next
    case (Inr lr)
    obtain job w2 where l: "link_launch env lr w1 = (job, w2)" by (metis prod.exhaust)
    have w': "w' = (if job = [] then w2 else link_bind job w2)"
      using run p Inr l by (auto simp: handle_lock_link_def split: if_splits)
    have task: "link_task env rq w log = (if job = [] then None else Some lr)"
      using p Inr l by (simp add: link_task_def)
    have "pairing_kept w1 w2" "job \<noteq> [] \<Longrightarrow> st_job_id (status (wz_linker w2)) = job"
      using l start_job_watched by (auto simp: link_launch_def linker_start_def pairing_kept_def split: prod.splits)
    moreover have "job_state_of (wz_linker w1) = RUNNING \<Longrightarrow> job = [] \<and> w2 = w1" using launch_running(2) [OF _ l] by simp
    ultimately show ?thesis
      using b by (auto simp: w' task link_bind_def link_watched_def pairing_kept_def link_kept_def)
  qed
  then show "pairing_kept w w'" "job_state_of (wz_linker w) = RUNNING \<Longrightarrow> link_kept w w'"
    "link_task env rq w log \<noteq> None \<Longrightarrow> link_watched w'"
    by blast+
qed

subsection \<open>It stays watched\<close>

lemma request_watched:
  assumes inv: "dev_inv httpd d" "jobs_watched d"
    and run: "handle_request env m uri rq (dv_wizard d) log = Some (Some (reply, w', log'))"
  shows "jobs_watched (serve env m uri rq log w' d)"
proof -
  let ?w = "dv_wizard d"
  have r: "dv_pairing d \<noteq> None \<Longrightarrow> job_state_of (wz_pairer ?w) = RUNNING"
    "dv_linking d \<noteq> None \<Longrightarrow> job_state_of (wz_linker ?w) = RUNNING"
    using inv(1) by (auto simp: dev_inv_def dev_jobs_def Let_def)
  consider (pair) "(uri, m) = (''/api/pair'', POST)" | (link) "(uri, m) = (''/api/lock/link'', POST)"
    | (other) "(uri, m) \<noteq> (''/api/pair'', POST)" "(uri, m) \<noteq> (''/api/lock/link'', POST)" by blast
  then show ?thesis
  proof cases
    case pair
    then have h: "handle_pair env rq ?w log = Some (reply, w', log')" using run by (simp add: handle_request_def Let_def)
    note f = handle_pair_watched [OF h]
    show ?thesis
      using pair inv(2) r same_watched(1) [OF f(2)] same_watched(2) [OF f(1)] f(3)
      by (auto simp: jobs_watched_def serve_def or_task_def)
  next
    case link
    then have h: "handle_lock_link env rq ?w log = Some (reply, w', log')" using run by (simp add: handle_request_def Let_def)
    note f = handle_link_watched [OF h]
    show ?thesis
      using link inv(2) r same_watched(1) [OF f(1)] same_watched(2) [OF f(2)] f(3)
      by (auto simp: jobs_watched_def serve_def or_task_def)
  next
    case other
    have "browses env ?w w'"
      using run other handle_now_browses handle_login_browses handle_keypads_browses handle_locks_browses
      unfolding handle_request_def Let_def by (auto split: if_splits prod.splits)
    then have "pairing_watched w' = pairing_watched ?w" "link_watched w' = link_watched ?w"
      using browses_jobs_same same_watched by blast+
    with other inv(2) show ?thesis by (auto simp: jobs_watched_def serve_def)
  qed
qed

lemma watched_step:
  assumes "device_step httpd d d'" "dev_inv httpd d" "jobs_watched d"
  shows "jobs_watched d'"
  using assms
proof (induction rule: device_step.induct)
  case (jobs d now1 now2)
  obtain b w where l: "loop_jobs now1 now2 (dv_bridge d, dv_wizard d) = (b, w)" by (metis prod.exhaust)
  have "dv_pairing d \<noteq> None \<Longrightarrow> job_state_of (wz_pairer (dv_wizard d)) \<noteq> SUCCESS"
    "dv_linking d \<noteq> None \<Longrightarrow> job_state_of (wz_linker (dv_wizard d)) \<noteq> SUCCESS"
    using jobs by (auto simp: dev_inv_def dev_jobs_def Let_def)
  with jobs(2) jobs_running [OF l] same_watched show ?case by (auto simp: jobs_watched_def set_parts_def l)
next
  case (idle d now)
  have "pairing_watched (snd (stop_if_idle now IDLE_TIMEOUT_MS (dv_wizard d))) = pairing_watched (dv_wizard d)"
    "link_watched (snd (stop_if_idle now IDLE_TIMEOUT_MS (dv_wizard d))) = link_watched (dv_wizard d)"
    by (intro same_watched told_jobs_same)+
  with idle(2) show ?case by (simp add: jobs_watched_def set_parts_def loop_idle_def)
next
  case (request d env m uri rq log reply w' log')
  then show ?case by (intro request_watched)
next
  case (button random d handle rad now)
  have "wz_running (dv_wizard d) \<or> dv_pairing d = None \<and> dv_linking d = None"
    using button by (auto simp: dev_inv_def dev_jobs_def Let_def)
  with button show ?case by (auto simp: jobs_watched_def device_press_reset_def set_parts_def)
qed (auto simp: jobs_watched_def device_of_def link_watched_def pairing_watched_def)

lemma reachable_watched: "device_reachable httpd d \<Longrightarrow> jobs_watched d"
proof (induction rule: device_reachable.induct)
  case (step d d')
  then show ?case using watched_step reachable_dev_inv by blast
qed (simp add: jobs_watched_def device_of_def)

text \<open>Between two steps nothing is queued: an iteration applies what it polled.\<close>

definition nothing_queued :: "device \<Rightarrow> bool" where
  "nothing_queued d \<longleftrightarrow> bridge.pending_pair (dv_bridge d) = None \<and> bridge.pending_lock (dv_bridge d) = None"

lemma jobs_applied:
  assumes "loop_jobs now1 now2 s = (b, w)"
  shows "bridge.pending_pair b = None" "bridge.pending_lock b = None"
  using assms
  by (auto simp: loop_jobs_def loop_apply_pairing_def loop_apply_link_def apply_pending_pairing_def
      apply_pending_lock_link_def apply_pending_lock_relay_def publish_defs Let_def split: prod.splits option.splits)

lemma nothing_queued_same: "nothing_queued d \<Longrightarrow> same_pending (dv_bridge d) b \<Longrightarrow> nothing_queued (d\<lparr>dv_bridge := b\<rparr>)"
  by (simp add: nothing_queued_def)

lemma nothing_queued_step:
  assumes "device_step httpd d d'" "nothing_queued d"
  shows "nothing_queued d'"
  using assms
proof (induction rule: device_step.induct)
  case (jobs d now1 now2)
  then show ?case
    using jobs_applied [of now1 now2 "(dv_bridge d, dv_wizard d)"]
    by (cases "loop_jobs now1 now2 (dv_bridge d, dv_wizard d)") (simp add: nothing_queued_def set_parts_def)
next
  case (idle d now)
  then show ?case by (simp add: nothing_queued_def set_parts_def loop_idle_def)
next
  case (drain xc platform d r b r' env1 env2)
  then show ?case using pending_drain [OF drain(1)] pending_battery by (simp add: nothing_queued_def)
next
  case (button random d handle rad now)
  then show ?case
    by (simp add: nothing_queued_def device_press_reset_def device_reset_def set_parts_def reset_pending Let_def)
next
  case (power_cycle bt cfg d html b w)
  then show ?case
    using links_inv_setup(2) [OF power_cycle(2)] setup_pending [of bt cfg "prefs (dv_bridge d)"]
    by (simp add: nothing_queued_def device_of_def initial_bridge_def)
next
  case (relayed d be cr cfg plaintext cmd c blog)
  show ?case by (intro nothing_queued_same relayed radio_pending)
next
  case (advert d adv)
  show ?case by (intro nothing_queued_same advert radio_pending)
qed (simp_all add: nothing_queued_def radio_pending serve_def)

lemma reachable_nothing_queued: "device_reachable httpd d \<Longrightarrow> nothing_queued d"
proof (induction rule: device_reachable.induct)
  case (first_boot bt p cfg html b w)
  then show ?case
    using links_inv_setup(2) [OF first_boot(3)] setup_pending [of bt cfg p]
    by (simp add: nothing_queued_def device_of_def initial_bridge_def)
qed (rule nothing_queued_step)

subsection \<open>What a job ends with\<close>

lemma poll_finished:
  assumes "pairing_watched w" "poll_jobs w = (paired, linked, w')"
  shows "job_state_of (wz_pairer w) = SUCCESS \<Longrightarrow>
    paired = Some (wz_pairing_name w, kp_mac (wz_pairer w), kp_family (wz_pairer w)) \<and> wz_success_notified w'"
  using assms
  by (auto simp: poll_jobs_def pairing_armed_def pairing_watched_def commit_pairing_def commit_link_def pair_status_of_def
      job_status.defs Let_def split: option.splits prod.splits if_splits)

lemma apply_link_keypad:
  "keypad_paired (apply_pending_lock_link now b) = keypad_paired b"
  "bridge.keypad_info (apply_pending_lock_link now b) = bridge.keypad_info b"
  "pref_keypad_name (prefs (apply_pending_lock_link now b)) = pref_keypad_name (prefs b)"
  "pref_keypad_info (prefs (apply_pending_lock_link now b)) = pref_keypad_info (prefs b)"
  by (simp_all add: apply_pending_lock_link_def publish_defs Let_def split: option.split)


lemma boot_pairing_succeeds:
  "job_state_of (pairer_run (race_radio, stub_ciphers, []) boot_request race_pairer) = SUCCESS"
  by code_simp

lemma boot_request_mac: "parse_mac_pretty (pr_mac boot_request) = Some [0xB0, 0xE9, 0xFE, 0x61, 0x2E, 0x75]"
  by code_simp


end
