(* ===== verification/Notify_Waiter.thy ===== *)
theory Notify_Waiter
  imports Physical_Lock
begin

text \<open>
  How the client waits for the lock (\<open>NotifyWaiter\<close> and \<open>wait_notify\<close> of \<open>physical_lock.cpp\<close>): the
  notification callback stores its data over what is there and gives a binary semaphore, the waiting task
  takes the semaphore and then copies what is stored. \<open>Physical_Lock\<close> leaves what a wait returns to its
  environment; here it is computed, and what holds of it is shown.
\<close>

subsection \<open>The waiter\<close>

record notify_waiter =
  nw_sem :: bool
  nw_value :: "byte list"

definition initial_waiter :: notify_waiter where
  "initial_waiter = \<lparr>nw_sem = False, nw_value = []\<rparr>"

definition store_notification :: "byte list \<Rightarrow> notify_waiter \<Rightarrow> notify_waiter" where
  "store_notification d w = w\<lparr>nw_value := d, nw_sem := True\<rparr>"

text \<open>
  The callback runs on the radio task. \<open>early\<close> are the notifications that arrive before the semaphore is
  taken (or the timeout strikes), \<open>late\<close> those between the taking and the copy (or after the timeout).
\<close>

definition wait_notify :: "byte list list \<times> byte list list \<Rightarrow> notify_waiter \<Rightarrow> byte list option \<times> notify_waiter" where
  "wait_notify arrivals w =
    (case arrivals of (early, late) \<Rightarrow>
       let w1 = fold store_notification early w
       in if \<not> nw_sem w1 then (None, fold store_notification late w1)
          else
            let w2 = fold store_notification late (w1\<lparr>nw_sem := False\<rparr>)
            in (Some (nw_value w2), w2))"

text \<open>The waits of one session, with what arrives around each of them.\<close>

fun run_waits :: "(byte list list \<times> byte list list) list \<Rightarrow> notify_waiter \<Rightarrow> byte list option list" where
  "run_waits [] w = []"
| "run_waits (a # as) w = (case wait_notify a w of (res, w') \<Rightarrow> res # run_waits as w')"

definition arrived :: "(byte list list \<times> byte list list) list \<Rightarrow> byte list list" where
  "arrived as = concat (map (\<lambda>(early, late). early @ late) as)"

subsection \<open>What a wait returns\<close>

lemma fold_store:
  "fold store_notification ds w = (if ds = [] then w else \<lparr>nw_sem = True, nw_value = last ds\<rparr>)"
proof (induction ds arbitrary: w)
  case (Cons d ds)
  then show ?case by (simp add: store_notification_def)
qed simp

text \<open>\<open>remembers h w\<close>: after the notifications \<open>h\<close>, a waiter holds the last of them.\<close>

definition remembers :: "byte list list \<Rightarrow> notify_waiter \<Rightarrow> bool" where
  "remembers h w \<longleftrightarrow> (if h = [] then \<not> nw_sem w else nw_value w = last h)"

lemma remembers_wait:
  assumes "remembers h w" "wait_notify a w = (res, w')"
  shows "remembers (h @ fst a @ snd a) w'"
    "res = Some v \<Longrightarrow> h @ fst a @ snd a \<noteq> [] \<and> v = last (h @ fst a @ snd a)"
  using assms by (auto simp: wait_notify_def fold_store remembers_def Let_def split: prod.splits if_splits)

lemma arrived_Cons [simp]: "arrived (a # as) = fst a @ snd a @ arrived as" "arrived [] = []"
  by (simp_all add: arrived_def case_prod_beta)

lemma length_run_waits [simp]: "length (run_waits as w) = length as"
  by (induction as arbitrary: w) (simp_all split: prod.split)

lemma run_waits_latest:
  assumes "remembers h w" "n < length as" "run_waits as w ! n = Some v"
  shows "h @ arrived (take (Suc n) as) \<noteq> [] \<and> v = last (h @ arrived (take (Suc n) as))"
  using assms
proof (induction as arbitrary: h w n)
  case (Cons a as)
  obtain res w' where run: "wait_notify a w = (res, w')" by (metis prod.exhaust)
  note r = remembers_wait [OF Cons.prems(1) run]
  show ?case
  proof (cases n)
    case 0
    with Cons.prems(3) run r(2) show ?thesis by simp
  next
    case (Suc m)
    with Cons.prems(2,3) run Cons.IH [OF r(1), of m] show ?thesis by simp
  qed
qed simp

text \<open>A wait takes at most one notification, and each at most once.\<close>

lemma wait_owed:
  assumes "wait_notify a w = (res, w')"
  shows "(if res = None then 0 else 1) + (if nw_sem w' then 1 else 0 :: nat) \<le>
    length (fst a @ snd a) + (if nw_sem w then 1 else 0)"
  using assms
  by (cases "fst a"; cases "snd a") (auto simp: wait_notify_def fold_store Let_def split: prod.splits if_splits)

lemma run_waits_bounded:
  "length (filter (\<lambda>res. res \<noteq> None) (run_waits as w)) \<le> length (arrived as) + (if nw_sem w then 1 else 0)"
proof (induction as arbitrary: w)
  case (Cons a as)
  obtain res w' where run: "wait_notify a w = (res, w')" by (metis prod.exhaust)
  from wait_owed [OF run] Cons.IH [of w'] run show ?case by (auto split: if_splits)
qed simp

subsection \<open>The session over a waiter\<close>

text \<open>
  The environment whose waits are those of a waiter: the \<open>n\<close>-th wait of the session (every earlier one
  returned) sees the \<open>n\<close>-th arrivals.
\<close>

definition waiter_env :: "(byte list list \<times> byte list list) list \<Rightarrow> ble_env \<Rightarrow> ble_env" where
  "waiter_env as env =
    env\<lparr>env_wait := \<lambda>log t.
      let n = length (notified log) in if n < length as then run_waits as initial_waiter ! n else None\<rparr>"

definition waits_match :: "(byte list list \<times> byte list list) list \<Rightarrow> ble_log \<Rightarrow> bool" where
  "waits_match as log \<longleftrightarrow> length (notified log) \<le> length as \<and>
    (\<forall>n < length (notified log). run_waits as initial_waiter ! n = Some (notified log ! n))"

lemma waits_match_same: "notified log' = notified log \<Longrightarrow> waits_match as log' = waits_match as log"
  by (simp add: waits_match_def)

lemma waits_match_wait:
  assumes "waits_match as log" "env_wait (waiter_env as env) log' t = Some v" "notified log' = notified log"
  shows "waits_match as (log @ [EvWait t (Some v)])"
  using assms by (auto simp: waits_match_def waiter_env_def Let_def nth_append less_Suc_eq split: if_splits)

lemma command_loop_waits:
  assumes "\<And>i. notified (announce i) = []"
  shows "command_loop (waiter_env as env) cr config s announce cb i cmds rs log = (res, rs', log') \<Longrightarrow>
    waits_match as log \<Longrightarrow> waits_match as log'"
proof (induction cmds arbitrary: i rs log)
  case (Cons cmd cmds)
  let ?env = "waiter_env as env"
  obtain sent log1 where send: "send_encrypted ?env cr config s cmd (log @ announce i) = (sent, log1)"
    by (metis prod.exhaust)
  have n1: "notified log1 = notified log"
    using send assms by (auto simp: send_encrypted_def Let_def split: sum.splits if_splits)
  then have m1: "waits_match as log1" using Cons.prems(2) waits_match_same by metis
  have m2: "waits_match as (log1 @ [EvWait 2500 v])" if "env_wait ?env log1 2500 = v" for v
  proof (cases v)
    case None
    with m1 show ?thesis by (simp add: waits_match_def)
  next
    case (Some x)
    with that waits_match_wait [OF m1] show ?thesis by metis
  qed
  show ?case
  proof (cases sent)
    case (Inl e)
    with Cons.prems(1) m1 send show ?thesis by simp
  next
    case (Inr u)
    let ?wait = "env_wait ?env log1 2500" and ?log2 = "log1 @ [EvWait 2500 (env_wait ?env log1 2500)]"
    have run: "command_loop ?env cr config s announce cb i (cmd # cmds) rs log =
      (case ?wait of
         None \<Rightarrow> (Inl ''Lock did not answer the forwarded command.'', rs, ?log2)
       | Some wire \<Rightarrow>
           (case decrypt_notify cr config s wire of
              Inl e \<Rightarrow> (Inl e, rs, ?log2)
            | Inr response \<Rightarrow>
                command_loop ?env cr config s announce cb (Suc i) cmds (rs @ [response])
                  (log_if cb (EvResponse response) ?log2)))"
      by (simp add: send Inr Let_def)
    show ?thesis
    proof (cases ?wait)
      case None
      with run Cons.prems(1) m2 [OF refl] show ?thesis by simp
    next
      case (Some wire)
      show ?thesis
      proof (cases "decrypt_notify cr config s wire")
        case (Inl e)
        with run Some Cons.prems(1) m2 [OF refl] show ?thesis by simp
      next
        case (Inr response)
        have "waits_match as (log_if cb (EvResponse response) ?log2)"
          using m2 [OF refl] waits_match_same [of "log_if cb (EvResponse response) ?log2" ?log2] by simp
        moreover have "command_loop ?env cr config s announce cb (Suc i) cmds (rs @ [response])
            (log_if cb (EvResponse response) ?log2) = (res, rs', log')"
          using run Some Inr Cons.prems(1) by simp
        ultimately show ?thesis using Cons.IH by blast
      qed
    qed
  qed
qed simp

lemma session_latest:
  assumes quiet: "\<And>i. writes_of (announce i) = []" "\<And>i. notified (announce i) = []"
    and run: "run_session (waiter_env as env) cr cfg m1 m2 p announce cb cmds log = (Inr (), rs, log')"
    and fresh: "notified log = []"
  shows "\<exists>s. parse_session_response (last (arrived (take 1 as))) = Inr s \<and> length rs = length cmds \<and>
    (\<forall>i < length cmds. decrypt_notify cr cfg s (last (arrived (take (i + 2) as))) = Inr (rs ! i))"
proof -
  let ?env = "waiter_env as env"
  from run_session_success [OF quiet run] obtain s wire written replies where
    s: "parse_session_response wire = Inr s" "notified log' = wire # replies" "exchanged cr cfg s cmds rs written replies"
    using fresh by auto
  let ?log1 = "log_if p (EvProgress PHASE_SESSION) log" and ?req = "iv_request_for (cfg_key_id cfg)"
  let ?log2 = "?log1 @ [EvWrite ?req True]"
  from run obtain w s' where step: "env_wait ?env ?log2 3000 = Some w"
      "command_loop ?env cr cfg s' announce cb 0 cmds [] (?log2 @ [EvWait 3000 (Some w)]) = (Inr (), rs, log')"
    by (auto simp: run_session_def Let_def split: if_splits option.splits sum.splits)
  have "waits_match as ?log2" using fresh by (simp add: waits_match_def)
  from waits_match_wait [OF this step(1)] have "waits_match as (?log2 @ [EvWait 3000 (Some w)])" by simp
  with command_loop_waits [OF quiet(2) step(2)] have m: "waits_match as log'" by simp
  have latest: "(wire # replies) ! n = last (arrived (take (Suc n) as))" if "n < length (wire # replies)" for n
    using m that run_waits_latest [of "[]" initial_waiter n as]
    by (simp add: waits_match_def s(2) remembers_def initial_waiter_def)
  have n: "length replies = length cmds" "length rs = length cmds"
    using s(3) by (auto simp: exchanged_def dest: list_all2_lengthD)
  have "decrypt_notify cr cfg s (replies ! i) = Inr (rs ! i)" if "i < length cmds" for i
    using s(3) that n by (auto simp: exchanged_def list_all2_conv_all_nth)
  moreover have "replies ! i = last (arrived (take (i + 2) as))" if "i < length cmds" for i
    using latest [of "Suc i"] that n by simp
  ultimately have "decrypt_notify cr cfg s (last (arrived (take (i + 2) as))) = Inr (rs ! i)" if "i < length cmds" for i
    using that by metis
  with latest [of 0] s(1) n(2) show ?thesis by auto
qed


text \<open>A lock that sends a status of its own before it answers the first of two commands.\<close>

definition test_session :: "byte list" where
  "test_session = [0x01, 0x00, 0x00, 0x00] @ replicate 16 0x11"

definition test_reply :: "byte \<Rightarrow> byte list" where
  "test_reply b = [0x01, 0xC6, 0x11, 0x11, b] @ replicate 5 0x11"

definition unasked_status :: "(byte list list \<times> byte list list) list" where
  "unasked_status = [([test_session], []), ([test_reply 0x53], []), ([test_reply 0x41], [])]"

lemma unasked_status_runs:
  "fst (run_session (waiter_env unasked_status answering_lock) stub_ciphers test_lock_config [] [] False (\<lambda>_. []) False
    [[0x0F, 0x4E], [0x0F, 0x4F]] []) = Inr ()"
  by code_simp


text \<open>
  With one notification per wait the waiter is a queue. So a lock that answers each write with exactly
  one notification is answered for, and one that sends a notification of its own between the session
  response and the first command has that one taken for the first answer, and every answer for the
  answer to the next command.
\<close>

lemma one_each_arrived: "arrived (map (\<lambda>a. ([a], [])) ns) = ns"
  by (induction ns) simp_all

lemma answers_in_order:
  assumes "\<And>i. writes_of (announce i) = []" "\<And>i. notified (announce i) = []"
    and "run_session (waiter_env (map (\<lambda>a. ([a], [])) ns) env) cr cfg m1 m2 p announce cb cmds [] = (Inr (), rs, log')"
    and "Suc (length cmds) \<le> length ns"
  shows "\<exists>s. parse_session_response (ns ! 0) = Inr s \<and>
    (\<forall>i < length cmds. decrypt_notify cr cfg s (ns ! Suc i) = Inr (rs ! i))"
proof -
  have "last (arrived (take (Suc n) (map (\<lambda>a. ([a], [])) ns))) = ns ! n" if "n < length ns" for n
    using that unfolding take_map one_each_arrived by (simp add: take_Suc_conv_app_nth)
  with session_latest [OF assms(1-3)] assms(4) show ?thesis by force
qed

text \<open>
  A notification that arrives between the taking of the semaphore and the copy replaces the one that was
  waited for, and is returned a second time by the next wait.
\<close>

lemma late_notification_read_twice:
  "run_waits [([answer], [status]), ([], [])] initial_waiter = [Some status, Some status]"
  by (simp add: wait_notify_def store_notification_def initial_waiter_def)

end
