(* ===== verification/Relay_Mailbox.thy ===== *)
theory Relay_Mailbox
  imports Bridge_Rx
begin

text \<open>
  How a relay's outcome gets from its task to \<open>loop()\<close>: the task writes \<open>relay_command_\<close> and
  \<open>relay_ok_\<close> and sets \<open>pending_relay_apply_\<close>, later it clears \<open>lock_relay_busy_\<close>; the loop clears the
  flag, reads \<open>relay_ok_\<close> and, of a success, \<open>relay_command_\<close>, to log it. Here the two tasks are
  interleaved at these accesses; \<open>Bridge_Loop\<close> makes the task one step.
\<close>

subsection \<open>The accesses\<close>

datatype relay_pc = Exchanging | WroteCommand bool | WroteOutcome bool | Posted

datatype reader_pc = ReaderIdle | ReadOutcome | ReadCommand

datatype relay_log = NoReply | Confirmed decoded_command

record mailbox =
  mb_busy :: bool
  mb_task :: "(decoded_command \<times> relay_pc) option"
  mb_pending :: bool
  mb_command :: decoded_command
  mb_ok :: bool
  mb_reader :: reader_pc
  mb_outcomes :: "(decoded_command \<times> bool) list"
  mb_logged :: "relay_log list"

definition empty_mailbox :: mailbox where
  "empty_mailbox = \<lparr>mb_busy = False, mb_task = None, mb_pending = False, mb_command = default_command, mb_ok = False,
     mb_reader = ReaderIdle, mb_outcomes = [], mb_logged = []\<rparr>"

definition log_of :: "decoded_command \<times> bool \<Rightarrow> relay_log" where
  "log_of x = (if snd x then Confirmed (fst x) else NoReply)"

text \<open>
  The steps. Relays are started by the loop, which is then not reading. With \<open>consumed\<close> a relay is only
  started when the outcome before has been read; the code does not wait for that.
\<close>

inductive mailbox_step :: "bool \<Rightarrow> mailbox \<Rightarrow> mailbox \<Rightarrow> bool" for consumed where
  start: "\<not> mb_busy m \<Longrightarrow> mb_reader m = ReaderIdle \<Longrightarrow> \<not> (consumed \<and> mb_pending m) \<Longrightarrow>
    mailbox_step consumed m (m\<lparr>mb_busy := True, mb_task := Some (c, Exchanging)\<rparr>)"
| write_command: "mb_task m = Some (c, Exchanging) \<Longrightarrow>
    mailbox_step consumed m (m\<lparr>mb_command := c, mb_task := Some (c, WroteCommand ok)\<rparr>)"
| write_outcome: "mb_task m = Some (c, WroteCommand ok) \<Longrightarrow>
    mailbox_step consumed m (m\<lparr>mb_ok := ok, mb_task := Some (c, WroteOutcome ok), mb_outcomes := mb_outcomes m @ [(c, ok)]\<rparr>)"
| store: "mb_task m = Some (c, WroteOutcome ok) \<Longrightarrow>
    mailbox_step consumed m (m\<lparr>mb_pending := True, mb_task := Some (c, Posted)\<rparr>)"
| finish: "mb_task m = Some (c, Posted) \<Longrightarrow> mailbox_step consumed m (m\<lparr>mb_busy := False, mb_task := None\<rparr>)"
| take: "mb_reader m = ReaderIdle \<Longrightarrow> mb_pending m \<Longrightarrow>
    mailbox_step consumed m (m\<lparr>mb_pending := False, mb_reader := ReadOutcome\<rparr>)"
| read_failure: "mb_reader m = ReadOutcome \<Longrightarrow> \<not> mb_ok m \<Longrightarrow>
    mailbox_step consumed m (m\<lparr>mb_reader := ReaderIdle, mb_logged := mb_logged m @ [NoReply]\<rparr>)"
| read_success: "mb_reader m = ReadOutcome \<Longrightarrow> mb_ok m \<Longrightarrow>
    mailbox_step consumed m (m\<lparr>mb_reader := ReadCommand\<rparr>)"
| read_command: "mb_reader m = ReadCommand \<Longrightarrow>
    mailbox_step consumed m (m\<lparr>mb_reader := ReaderIdle, mb_logged := mb_logged m @ [Confirmed (mb_command m)]\<rparr>)"

abbreviation mailbox_run :: "bool \<Rightarrow> mailbox \<Rightarrow> bool" where
  "mailbox_run consumed m \<equiv> (mailbox_step consumed)\<^sup>*\<^sup>* empty_mailbox m"

subsection \<open>What is logged\<close>

definition all_logged :: "mailbox \<Rightarrow> bool" where
  "all_logged m \<longleftrightarrow> map log_of (mb_outcomes m) = mb_logged m"

definition last_unread :: "mailbox \<Rightarrow> bool" where
  "last_unread m \<longleftrightarrow> map log_of (mb_outcomes m) = mb_logged m @ [log_of (mb_command m, mb_ok m)]"

text \<open>Every outcome is logged but perhaps the last, which the fields then hold and no task writes to.\<close>

definition mailbox_inv :: "mailbox \<Rightarrow> bool" where
  "mailbox_inv m \<longleftrightarrow> mb_busy m = (mb_task m \<noteq> None) \<and>
    (if mb_pending m \<or> mb_reader m \<noteq> ReaderIdle
     then last_unread m \<and> (case mb_task m of None \<Rightarrow> True | Some (c, pc) \<Rightarrow> pc = Posted) \<and>
       (mb_pending m \<longrightarrow> mb_reader m = ReaderIdle) \<and> (mb_reader m = ReadCommand \<longrightarrow> mb_ok m)
     else (case mb_task m of
             None \<Rightarrow> all_logged m
           | Some (c, pc) \<Rightarrow>
               (case pc of
                  WroteCommand ok \<Rightarrow> all_logged m \<and> mb_command m = c
                | WroteOutcome ok \<Rightarrow> last_unread m
                | _ \<Rightarrow> all_logged m)))"

lemma mailbox_inv_step: "mailbox_step True m m' \<Longrightarrow> mailbox_inv m \<Longrightarrow> mailbox_inv m'"
proof (induction rule: mailbox_step.induct)
  case (start m c)
  then show ?case by (cases "mb_task m") (simp_all add: mailbox_inv_def all_logged_def)
next
  case (write_command m c ok)
  then show ?case by (simp add: mailbox_inv_def all_logged_def split: if_splits)
next
  case (write_outcome m c ok)
  then show ?case by (simp add: mailbox_inv_def all_logged_def last_unread_def split: if_splits)
next
  case (store m c ok)
  then show ?case by (simp add: mailbox_inv_def last_unread_def split: if_splits)
next
  case (finish m c)
  then show ?case by (simp add: mailbox_inv_def last_unread_def all_logged_def split: if_splits)
next
  case (take m)
  then show ?case by (simp add: mailbox_inv_def last_unread_def)
next
  case (read_failure m)
  then show ?case
    by (cases "mb_task m") (auto simp: mailbox_inv_def last_unread_def all_logged_def log_of_def)
next
  case (read_success m)
  then show ?case by (simp add: mailbox_inv_def last_unread_def split: if_splits)
next
  case (read_command m)
  then show ?case
    by (cases "mb_task m") (auto simp: mailbox_inv_def last_unread_def all_logged_def log_of_def)
qed

lemma mailbox_run_inv: "mailbox_run True m \<Longrightarrow> mailbox_inv m"
proof (induction rule: rtranclp_induct)
  case base
  then show ?case by (simp add: mailbox_inv_def empty_mailbox_def all_logged_def)
qed (rule mailbox_inv_step)

text \<open>
  When each outcome is read before the next relay starts, the log is true: the loop logs the outcome of
  every relay, once, in order, all but perhaps the last.
\<close>

theorem relay_log_true:
  assumes "mailbox_run True m"
  shows "mb_logged m = map log_of (take (length (mb_logged m)) (mb_outcomes m)) \<and>
    length (mb_outcomes m) \<le> Suc (length (mb_logged m))"
proof -
  have "all_logged m \<or> last_unread m"
    using mailbox_run_inv [OF assms]
    by (auto simp: mailbox_inv_def split: if_splits option.splits prod.splits relay_pc.splits)
  then have "map log_of (mb_outcomes m) = mb_logged m \<or>
    map log_of (mb_outcomes m) = mb_logged m @ [log_of (mb_command m, mb_ok m)]"
    by (simp add: all_logged_def last_unread_def)
  then have "take (length (mb_logged m)) (map log_of (mb_outcomes m)) = mb_logged m"
    "length (map log_of (mb_outcomes m)) \<le> Suc (length (mb_logged m))"
    by (metis append_eq_conv_conj take_all_iff order_refl, metis length_append_singleton le_SucI order_refl)
  then show ?thesis by (simp add: take_map)
qed

text \<open>
  Without that, a success can be logged for a command whose relay failed: the first relay's outcome is
  still unread when the second starts, and the loop reads the first's \<open>relay_ok_\<close> and the second's
  \<open>relay_command_\<close>.
\<close>

lemma relay_log_torn:
  assumes "c1 \<noteq> c2"
  shows "\<exists>m. mailbox_run False m \<and> mb_outcomes m = [(c1, True), (c2, False)] \<and> mb_logged m = [Confirmed c2]"
proof -
  let ?m = empty_mailbox
  let ?m1 = "?m\<lparr>mb_busy := True, mb_task := Some (c1, Exchanging)\<rparr>"
  let ?m2 = "?m1\<lparr>mb_command := c1, mb_task := Some (c1, WroteCommand True)\<rparr>"
  let ?m3 = "?m2\<lparr>mb_ok := True, mb_task := Some (c1, WroteOutcome True), mb_outcomes := mb_outcomes ?m2 @ [(c1, True)]\<rparr>"
  let ?m4 = "?m3\<lparr>mb_pending := True, mb_task := Some (c1, Posted)\<rparr>"
  let ?m5 = "?m4\<lparr>mb_busy := False, mb_task := None\<rparr>"
  let ?m6 = "?m5\<lparr>mb_busy := True, mb_task := Some (c2, Exchanging)\<rparr>"
  let ?m7 = "?m6\<lparr>mb_pending := False, mb_reader := ReadOutcome\<rparr>"
  let ?m8 = "?m7\<lparr>mb_reader := ReadCommand\<rparr>"
  let ?m9 = "?m8\<lparr>mb_command := c2, mb_task := Some (c2, WroteCommand False)\<rparr>"
  let ?m10 = "?m9\<lparr>mb_reader := ReaderIdle, mb_logged := mb_logged ?m9 @ [Confirmed (mb_command ?m9)]\<rparr>"
  let ?m11 = "?m10\<lparr>mb_ok := False, mb_task := Some (c2, WroteOutcome False), mb_outcomes := mb_outcomes ?m10 @ [(c2, False)]\<rparr>"
  have s1: "mailbox_step False ?m ?m1" by (rule mailbox_step.start) (simp_all add: empty_mailbox_def)
  have s2: "mailbox_step False ?m1 ?m2" by (rule mailbox_step.write_command) (simp_all add: empty_mailbox_def)
  have s3: "mailbox_step False ?m2 ?m3" by (rule mailbox_step.write_outcome) (simp_all add: empty_mailbox_def)
  have s4: "mailbox_step False ?m3 ?m4" by (rule mailbox_step.store) (simp_all add: empty_mailbox_def)
  have s5: "mailbox_step False ?m4 ?m5" by (rule mailbox_step.finish) (simp_all add: empty_mailbox_def)
  have s6: "mailbox_step False ?m5 ?m6" by (rule mailbox_step.start) (simp_all add: empty_mailbox_def)
  have s7: "mailbox_step False ?m6 ?m7" by (rule mailbox_step.take) (simp_all add: empty_mailbox_def)
  have s8: "mailbox_step False ?m7 ?m8" by (rule mailbox_step.read_success) (simp_all add: empty_mailbox_def)
  have s9: "mailbox_step False ?m8 ?m9" by (rule mailbox_step.write_command) (simp_all add: empty_mailbox_def)
  have s10: "mailbox_step False ?m9 ?m10" by (rule mailbox_step.read_command) (simp_all add: empty_mailbox_def)
  have s11: "mailbox_step False ?m10 ?m11" by (rule mailbox_step.write_outcome) (simp_all add: empty_mailbox_def)
  note run = converse_rtranclp_into_rtranclp [where r = "mailbox_step False"]
  have "mailbox_run False ?m11"
    by (rule run [OF s1], rule run [OF s2], rule run [OF s3], rule run [OF s4], rule run [OF s5], rule run [OF s6],
        rule run [OF s7], rule run [OF s8], rule run [OF s9], rule run [OF s10], rule run [OF s11], rule rtranclp.rtrancl_refl)
  then show ?thesis by (intro exI [of _ ?m11]) (simp add: empty_mailbox_def)
qed

end
