(* ===== verification/Spec2Isabelle.thy ===== *)
theory Spec2Isabelle
  imports Device_Types Protocol_Ends Aes_Wrappers Session_Tests Links_Spec Job_Outcomes Notify_Waiter Relay_Mailbox
begin

text \<open>
  Verification of the SwitchBot keypad bridge, an ESP32 firmware component for ESPHome
  (\<open>src/components/switchbot_keypad_bridge\<close>). The bridge pretends to be a SwitchBot lock: a keypad
  connects to it over BLE, opens an encrypted session and sends LOCK, UNLOCK, doorbell and state-poll
  commands, which become Home Assistant events. A setup wizard (an HTTP server on the device) signs in to
  the SwitchBot cloud, writes the bridge's shared key into the keypad, and may link a physical lock, to
  which accepted commands are then relayed.

  The parts, the theories that model them, and the source they are translated from:

  \<^item> \<open>Prelude\<close>: bytes, buffers, the memory primitives, the hardware random number stream and the theorem
    collections the others fill.
  \<^item> \<open>Lock_Protocol\<close> (\<open>lock_protocol.h/.cpp\<close>): frames and the decoding of a command plaintext.
  \<^item> \<open>Lock_Session\<close> (\<open>lock_session.h/.cpp\<close>): the encrypted session of one keypad: its active, pending
    and retired generations, the replay history, the transient command. Shown about it:
    \<open>Replay_Window\<close> (the ring buffer as an abstract window, through a locale of its contract),
    \<open>Session_Steps\<close> (the branches of \<open>process_frame\<close>), \<open>Session_Invariant\<close> (the invariant of
    reachable sessions), \<open>Session_Runs\<close> (runs over frames and transport resets),
    \<open>Session_Negotiation\<close> (which IV a command was encrypted under, what a dropped frame leaves),
    \<open>Session_Safety\<close> (replays), \<open>Session_Handoff\<close> (late actions during a change of generation).
    \<open>Session_Tests\<close> runs the repository's own tests (\<open>tests/lock_session_test.cpp\<close>) on the model, which
    passes them all.
  \<^item> \<open>Mac_Utils\<close>, \<open>Adverts\<close>, \<open>Ble_Client\<close> (\<open>mac_utils\<close>, \<open>keypad_advert\<close>, \<open>lock_advert\<close>,
    \<open>ble_utils\<close>): addresses, advertisements, and the BLE client calls with the resources a history holds.
  \<^item> \<open>Lock_Models\<close>, \<open>Physical_Lock\<close> (\<open>physical_lock.h/.cpp\<close>): the models of the locks and the client that
    opens a session with a lock, runs a command sequence, provisions and verifies a key. \<open>Protocol_Ends\<close>
    runs this client against the session of \<open>Lock_Session\<close>, the two ends of the protocol;
    \<open>Notify_Waiter\<close> is how it waits for the lock's notifications, and what a session makes of them.
  \<^item> \<open>Background_Job\<close>, \<open>Lock_Linker\<close>, \<open>Keypad_Pairer\<close> (\<open>background_job.h\<close>, \<open>lock_linker\<close>,
    \<open>keypad_pairer\<close>): the job class (a locale, interpreted on both) and the two jobs of the wizard.
  \<^item> \<open>Bridge_State\<close>, \<open>Bridge_Battery\<close>, \<open>Bridge_Rx\<close>, \<open>Bridge_Links\<close>
    (\<open>switchbot_keypad_bridge.h/.cpp\<close>): the component's state and its effects, the battery scan, the
    event queue with commands and relays, and the links with keys, boot and reset. \<open>Relay_Mailbox\<close> is the
    hand-over of a relay's outcome from its task to the loop, access by access.
  \<^item> \<open>Cloud_Client\<close> (\<open>cloud_client.h/.cpp\<close>): the HTTPS requests to the account and their answers.
  \<^item> \<open>Wizard_Http\<close>, \<open>Pairing_Ui\<close>, \<open>Wizard_Tasks\<close> (\<open>pairing_ui.h/.cpp\<close>): request bodies, replies and the
    nearby scan; the handlers, the idle shutdown and the observation of jobs; the interleaving of the
    server, the pairing task and the main loop around one pairing.
  \<^item> \<open>Bridge_Loop\<close>: the device as a whole: bridge, wizard and tasks under \<open>setup()\<close>, the parts of
    \<open>loop()\<close>, requests, radio events, the Reset button and power cycles; and the relay task.
    \<open>Device_Types\<close> carries the invariants and buffer sizes of the components over all of it,
    \<open>Links_Spec\<close> is the specification of the key and the two links that it refines, and \<open>Job_Outcomes\<close>
    follows a pairing from its request to its effect.
  \<^item> \<open>Aes_Wrappers\<close> (\<open>aes_ctr.h/.cpp\<close>): the crypto call sequences and what they release.

  How the state and the operations correspond. A class is a record with its members as fields, a method
  a function from the old state to its result and the new state, named as in the source (without the
  trailing underscore; a prefix where two classes use one name). An out-parameter with a bool is an
  \<open>option\<close>, with an error string a sum. A \<open>uint8_t\<close> or \<open>uint32_t\<close> is a word of that width, with its
  wrap-around; enums that a \<open>static_cast\<close> fills from a byte wrap that byte. Effects (notifications,
  published states, scans, preference syncs, BLE and HTTP calls) are a log in call order, and the outside
  answers each call as a function of the log so far, so a theorem about every environment is about every
  behaviour of the radio, the lock, the keypad, the cloud and the clocks. Code that is not in the
  repository (AES and PSA, NimBLE, cJSON, the HTTP client and server, FreeRTOS) is such a parameter; what
  a theorem needs of it is a hypothesis: \<open>ctr_cipher\<close> (CTR is its own inverse and keeps the length) and
  \<open>ticking\<close> (the tick counter advances by at least a delay's ticks).

  What is shown, in the order of the claims C1 to C40 (each stands before its theorem): the session's
  generations, its replay protection and its hand-off bounds; that the client and the session, the two
  ends of the protocol, understand each other; the consistency of the whole device, and the sizes of its buffers, across
  boots, resets and jobs; that the device's links change only as their specification allows, that a
  power cycle is invisible to them, and that a pairing in flight ends and takes effect; that a pairing is reported once and for the right keypad under every
  interleaving; that the bridge refines the session and the keypad never waits for the physical lock;
  that every BLE exchange, crypto call and HTTP handle is released on every path; that a relay reports
  what happened; that jobs succeed only after what they promise was written and verified; that
  a response is made from the most recent notification; the gates, the confinement and the termination
  of the wizard's requests.

  Bounds and fuel. The wait for the clock in \<open>post_json\<close> is a \<open>partial_function (option)\<close>: that it
  returns is proved from \<open>ticking\<close> (at tick rates from 5 Hz to 400 kHz, after at most 91 delays). The
  read of a request body terminates by the bytes that remain. \<open>wait_iv\<close> of the keypad pairer takes the
  number of polls the source makes as its fuel, the connection attempts run over the list \<open>[0..<2]\<close> of
  the source's loop. All other recursion is structural on the data.

  Not modelled: logging and \<open>dump_config\<close>; what the NimBLE server makes of its set-up calls (they are
  one effect); the HTTP server's own parsing; the failure of a preference save, which the source ignores (it is assumed to succeed); memory allocation
  failures. The Python code generation (\<open>__init__.py\<close>), the automation triggers (\<open>automation.h\<close>), the
  preprocessor shim \<open>nimble_compat.h\<close> and the page \<open>pairing_ui.html\<close> have no firmware logic. Each access
  to a shared flag or string is one atomic step; \<open>Wizard_Tasks\<close> splits the pairing at its critical
  sections, in \<open>Bridge_Loop\<close> a request is one step.
\<close>

end
